(* ===== verification/Prelude.thy ===== *)
theory Prelude
  imports Main "HOL-Library.Char_ord" "HOL-Library.Product_Lexorder" "HOL-Library.Word"
begin

text \<open>
  Shared vocabulary of the development: text as the byte lists the Rust code holds, the list and
  string operations of the Rust standard library the components call (\<open>split\<close>, \<open>split_once\<close>,
  \<open>position\<close>, \<open>trim\<close>, \<open>strip_prefix\<close>, \<open>find_map\<close>, \<open>max_by_key\<close>, decimal rendering), the
  lemmas about them, and the interfaces (locales) several components provide.

  A \<open>&str\<close>, a \<open>[u8]\<close> and a header value are all a HOL \<open>string\<close>: one \<open>char\<close> is one byte.
\<close>

section \<open>Collections of facts\<close>

named_theorems bytes_simps \<open>unfolding of the byte predicates\<close>
named_theorems std_simps \<open>evaluation rules of the modelled standard library\<close>
named_theorems step_intros \<open>introduction rules of the step relations\<close>

section \<open>Bytes\<close>

type_synonym bytes = string

abbreviation byte :: "char \<Rightarrow> nat" where
  "byte c \<equiv> of_char c"

lemma byte_less [simp]: "byte c < 256"
  by (cases c) (simp add: of_char_def horner_sum_simps)

lemma byte_inject: "byte a = byte b \<longleftrightarrow> a = b"
  by (rule of_char_eq_iff)

definition is_ascii_digit :: "char \<Rightarrow> bool" where
  [bytes_simps]: "is_ascii_digit c \<longleftrightarrow> 48 \<le> byte c \<and> byte c \<le> 57"

definition is_ascii_upper :: "char \<Rightarrow> bool" where
  [bytes_simps]: "is_ascii_upper c \<longleftrightarrow> 65 \<le> byte c \<and> byte c \<le> 90"

definition is_ascii_lower :: "char \<Rightarrow> bool" where
  [bytes_simps]: "is_ascii_lower c \<longleftrightarrow> 97 \<le> byte c \<and> byte c \<le> 122"

definition is_ascii_alpha :: "char \<Rightarrow> bool" where
  [bytes_simps]: "is_ascii_alpha c \<longleftrightarrow> is_ascii_upper c \<or> is_ascii_lower c"

definition is_ascii_alnum :: "char \<Rightarrow> bool" where
  [bytes_simps]: "is_ascii_alnum c \<longleftrightarrow> is_ascii_alpha c \<or> is_ascii_digit c"

definition is_ascii_graphic :: "char \<Rightarrow> bool" where
  [bytes_simps]: "is_ascii_graphic c \<longleftrightarrow> 33 \<le> byte c \<and> byte c \<le> 126"

definition is_ascii_hexdigit :: "char \<Rightarrow> bool" where
  [bytes_simps]: "is_ascii_hexdigit c \<longleftrightarrow>
     is_ascii_digit c \<or> (65 \<le> byte c \<and> byte c \<le> 70) \<or> (97 \<le> byte c \<and> byte c \<le> 102)"

definition is_ascii :: "char \<Rightarrow> bool" where
  [bytes_simps]: "is_ascii c \<longleftrightarrow> byte c < 128"

definition is_ascii_ws :: "char \<Rightarrow> bool" where
  [bytes_simps]: "is_ascii_ws c \<longleftrightarrow> byte c \<in> {9, 10, 12, 13, 32}"

definition is_utf8_continuation :: "char \<Rightarrow> bool" where
  [bytes_simps]: "is_utf8_continuation c \<longleftrightarrow> 128 \<le> byte c \<and> byte c < 192"

definition ascii_lower :: "char \<Rightarrow> char" where
  "ascii_lower c = (if is_ascii_upper c then char_of (byte c + 32) else c)"

definition ascii_upper :: "char \<Rightarrow> char" where
  "ascii_upper c = (if is_ascii_lower c then char_of (byte c - 32) else c)"

abbreviation to_lower :: "string \<Rightarrow> string" where
  "to_lower \<equiv> map ascii_lower"

definition eq_nocase :: "string \<Rightarrow> string \<Rightarrow> bool" where
  "eq_nocase a b \<longleftrightarrow> to_lower a = to_lower b"

lemma byte_ascii_lower: "byte (ascii_lower c) = (if is_ascii_upper c then byte c + 32 else byte c)"
  by (auto simp: ascii_lower_def bytes_simps)

lemma ascii_lower_idem [simp]: "ascii_lower (ascii_lower c) = ascii_lower c"
  by (auto simp: ascii_lower_def bytes_simps)

lemma to_lower_idem [simp]: "to_lower (to_lower s) = to_lower s"
  by simp

lemma not_upper_lower [simp]: "\<not> is_ascii_upper (ascii_lower c)"
  by (auto simp: ascii_lower_def bytes_simps)

lemma ascii_lower_id: "\<not> is_ascii_upper c \<Longrightarrow> ascii_lower c = c"
  by (simp add: ascii_lower_def)

lemma eq_nocase_refl [simp]: "eq_nocase a a"
  by (simp add: eq_nocase_def)

lemma eq_nocase_sym: "eq_nocase a b \<longleftrightarrow> eq_nocase b a"
  by (auto simp: eq_nocase_def)

lemma eq_nocase_trans: "eq_nocase a b \<Longrightarrow> eq_nocase b c \<Longrightarrow> eq_nocase a c"
  by (simp add: eq_nocase_def)

lemma eq_nocase_length: "eq_nocase a b \<Longrightarrow> length a = length b"
  unfolding eq_nocase_def by (metis length_map)

section \<open>Splitting and searching\<close>

text \<open>\<open>slice::split\<close> / \<open>str::split\<close> with a predicate or a one-byte pattern: always at least one
  piece, a separator at either end giving an empty one.\<close>

fun split_on :: "('a \<Rightarrow> bool) \<Rightarrow> 'a list \<Rightarrow> 'a list list" where
  "split_on P [] = [[]]"
| "split_on P (x # xs) =
     (if P x then [] # split_on P xs
      else (case split_on P xs of [] \<Rightarrow> [[x]] | p # ps \<Rightarrow> (x # p) # ps))"

abbreviation split :: "'a \<Rightarrow> 'a list \<Rightarrow> 'a list list" where
  "split d \<equiv> split_on (\<lambda>x. x = d)"

lemma split_on_not_Nil [simp]: "split_on P xs \<noteq> []"
  by (induction xs) (auto split: list.splits)

lemma split_on_none: "(\<forall>x\<in>set xs. \<not> P x) \<Longrightarrow> split_on P xs = [xs]"
  by (induction xs) auto

lemma split_on_append_sep:
  "(\<forall>x\<in>set xs. \<not> P x) \<Longrightarrow> P d \<Longrightarrow> split_on P (xs @ d # ys) = xs # split_on P ys"
  by (induction xs) auto

lemma split_on_append: "P d \<Longrightarrow> split_on P (xs @ d # ys) = split_on P xs @ split_on P ys"
  by (induction xs) (auto split: list.splits simp: Cons_eq_append_conv)

lemma split_on_pieces: "p \<in> set (split_on P xs) \<Longrightarrow> x \<in> set p \<Longrightarrow> \<not> P x"
  by (induction xs arbitrary: p) (fastforce split: list.splits if_splits)+

lemma split_none: "d \<notin> set xs \<Longrightarrow> split d xs = [xs]"
  by (rule split_on_none) blast

lemma split_append_sep: "d \<notin> set xs \<Longrightarrow> split d (xs @ d # ys) = xs # split d ys"
  by (rule split_on_append_sep) auto

lemma split_on_subset: "p \<in> set (split_on P xs) \<Longrightarrow> set p \<subseteq> set xs"
  by (induction xs arbitrary: p) (fastforce split: list.splits if_splits)+

text \<open>\<open>join\<close>: the pieces with the separator between them.\<close>

fun join :: "'a list \<Rightarrow> 'a list list \<Rightarrow> 'a list" where
  "join sep [] = []"
| "join sep [p] = p"
| "join sep (p # q # ps) = p @ sep @ join sep (q # ps)"

lemma join_Cons: "ps \<noteq> [] \<Longrightarrow> join sep (p # ps) = p @ sep @ join sep ps"
  by (cases ps) auto

lemma join_split: "join [d] (split d xs) = xs"
proof (induction xs)
  case (Cons x xs)
  then show ?case
    by (cases "split d xs") (auto simp: join_Cons, cases "tl (split d xs)", auto)
qed simp

lemma split_join:
  "ps \<noteq> [] \<Longrightarrow> (\<forall>p\<in>set ps. d \<notin> set p) \<Longrightarrow> split d (join [d] ps) = ps"
proof (induction ps)
  case (Cons p ps)
  then show ?case
    by (cases "ps = []") (auto simp: join_Cons split_none split_append_sep)
qed simp

lemma set_join: "set (join sep ps) \<subseteq> \<Union> (set ` set ps) \<union> set sep"
proof (induction ps)
  case (Cons p ps) then show ?case by (cases "ps = []") (auto simp: join_Cons)
qed simp

text \<open>\<open>position\<close>, \<open>rposition\<close>, \<open>split_once\<close>, \<open>rsplit_once\<close>, \<open>strip_prefix\<close>, \<open>strip_suffix\<close>.\<close>

fun position :: "('a \<Rightarrow> bool) \<Rightarrow> 'a list \<Rightarrow> nat option" where
  "position P [] = None"
| "position P (x # xs) = (if P x then Some 0 else map_option Suc (position P xs))"

lemma position_Some:
  "position P xs = Some i \<longleftrightarrow> i < length xs \<and> P (xs ! i) \<and> (\<forall>j<i. \<not> P (xs ! j))"
proof (induction xs arbitrary: i)
  case (Cons x xs) then show ?case
    by (cases i) (auto simp: All_less_Suc2)
qed simp

lemma position_None: "position P xs = None \<longleftrightarrow> (\<forall>x\<in>set xs. \<not> P x)"
  by (induction xs) auto

lemma position_append: "(\<forall>x\<in>set a. \<not> P x) \<Longrightarrow> P d \<Longrightarrow> position P (a @ d # b) = Some (length a)"
  by (induction a) auto

fun split_once :: "'a \<Rightarrow> 'a list \<Rightarrow> ('a list \<times> 'a list) option" where
  "split_once d [] = None"
| "split_once d (x # xs) =
     (if x = d then Some ([], xs) else map_option (\<lambda>(a, b). (x # a, b)) (split_once d xs))"

lemma split_once_Some: "split_once d xs = Some (a, b) \<longleftrightarrow> xs = a @ d # b \<and> d \<notin> set a"
proof (induction xs arbitrary: a)
  case (Cons x xs) then show ?case by (cases a) auto
qed simp

lemma split_once_None: "split_once d xs = None \<longleftrightarrow> d \<notin> set xs"
  by (induction xs) auto

definition rsplit_once :: "'a \<Rightarrow> 'a list \<Rightarrow> ('a list \<times> 'a list) option" where
  "rsplit_once d xs = map_option (\<lambda>(a, b). (rev b, rev a)) (split_once d (rev xs))"

lemma rsplit_once_Some: "rsplit_once d xs = Some (a, b) \<longleftrightarrow> xs = a @ d # b \<and> d \<notin> set b"
proof -
  have "(rev xs = rev b @ d # rev a) = (xs = a @ d # b)"
    by (metis append.assoc append_Cons append_Nil rev.simps(2) rev_append rev_rev_ident)
  then show ?thesis
    unfolding rsplit_once_def using split_once_Some [of d "rev xs" "rev b" "rev a"]
    by (force simp: split_once_Some)
qed

fun strip_prefix :: "'a list \<Rightarrow> 'a list \<Rightarrow> 'a list option" where
  "strip_prefix [] ys = Some ys"
| "strip_prefix (x # xs) [] = None"
| "strip_prefix (x # xs) (y # ys) = (if x = y then strip_prefix xs ys else None)"

lemma strip_prefix_Some: "strip_prefix p s = Some r \<longleftrightarrow> s = p @ r"
  by (induction p s rule: strip_prefix.induct) auto

definition starts_with :: "'a list \<Rightarrow> 'a list \<Rightarrow> bool" where
  "starts_with p s \<longleftrightarrow> strip_prefix p s \<noteq> None"

definition strip_suffix :: "'a list \<Rightarrow> 'a list \<Rightarrow> 'a list option" where
  "strip_suffix p s = map_option rev (strip_prefix (rev p) (rev s))"

lemma strip_suffix_Some: "strip_suffix p s = Some r \<longleftrightarrow> s = r @ p"
proof -
  have "(rev s = rev p @ rev r) = (s = r @ p)"
    by (metis rev_append rev_rev_ident)
  then show ?thesis
    unfolding strip_suffix_def by (metis (no_types, lifting) map_option_eq_Some rev_swap strip_prefix_Some)
qed

definition ends_with :: "'a list \<Rightarrow> 'a list \<Rightarrow> bool" where
  "ends_with p s \<longleftrightarrow> strip_suffix p s \<noteq> None"

lemma starts_with_iff: "starts_with p s \<longleftrightarrow> (\<exists>r. s = p @ r)"
  by (auto simp: starts_with_def strip_prefix_Some)

lemma ends_with_iff: "ends_with p s \<longleftrightarrow> (\<exists>r. s = r @ p)"
  by (auto simp: ends_with_def strip_suffix_Some)

fun find_map :: "('a \<Rightarrow> 'b option) \<Rightarrow> 'a list \<Rightarrow> 'b option" where
  "find_map f [] = None"
| "find_map f (x # xs) = (case f x of None \<Rightarrow> find_map f xs | Some y \<Rightarrow> Some y)"

lemma find_map_None: "find_map f xs = None \<longleftrightarrow> (\<forall>x\<in>set xs. f x = None)"
  by (induction xs) (auto split: option.splits)

lemma find_map_Some: "find_map f xs = Some y \<Longrightarrow> \<exists>x\<in>set xs. f x = Some y"
  by (induction xs) (auto split: option.splits)

fun filter_map :: "('a \<Rightarrow> 'b option) \<Rightarrow> 'a list \<Rightarrow> 'b list" where
  "filter_map f [] = []"
| "filter_map f (x # xs) = (case f x of None \<Rightarrow> filter_map f xs | Some y \<Rightarrow> y # filter_map f xs)"

lemma set_filter_map: "set (filter_map f xs) = {y. \<exists>x\<in>set xs. f x = Some y}"
  by (induction xs) (auto split: option.splits)

lemma filter_map_append: "filter_map f (xs @ ys) = filter_map f xs @ filter_map f ys"
  by (induction xs) (auto split: option.splits)

text \<open>\<open>collect::<Option<Vec<_>>>\<close> of a mapped iterator: None as soon as one element fails.\<close>

fun try_map :: "('a \<Rightarrow> 'b option) \<Rightarrow> 'a list \<Rightarrow> 'b list option" where
  "try_map f [] = Some []"
| "try_map f (x # xs) =
     (case f x of None \<Rightarrow> None | Some y \<Rightarrow> map_option ((#) y) (try_map f xs))"

lemma try_map_Some: "try_map f xs = Some ys \<longleftrightarrow> map f xs = map Some ys"
proof (induction xs arbitrary: ys)
  case (Cons x xs) then show ?case by (cases ys) (auto split: option.splits)
qed auto

lemma try_map_cong [fundef_cong]:
  "xs = ys \<Longrightarrow> (\<And>x. x \<in> set ys \<Longrightarrow> f x = g x) \<Longrightarrow> try_map f xs = try_map g ys"
proof -
  have "(\<forall>x\<in>set ys. f x = g x) \<Longrightarrow> try_map f ys = try_map g ys" for ys :: "'a list"
    by (induction ys) (simp_all split: option.split)
  then show "xs = ys \<Longrightarrow> (\<And>x. x \<in> set ys \<Longrightarrow> f x = g x) \<Longrightarrow> try_map f xs = try_map g ys"
    by simp
qed

text \<open>\<open>text.replace(c, r)\<close> for a one-byte pattern.\<close>

definition replace_char :: "char \<Rightarrow> string \<Rightarrow> string \<Rightarrow> string" where
  "replace_char c r s = concat (map (\<lambda>x. if x = c then r else [x]) s)"

lemma replace_char_append [simp]: "replace_char c r (a @ b) = replace_char c r a @ replace_char c r b"
  by (simp add: replace_char_def)

section \<open>Trimming\<close>

text \<open>\<open>trim_ascii\<close> drops space, tab, line feed, form feed and carriage return at both ends.\<close>

definition trim_end_with :: "('a \<Rightarrow> bool) \<Rightarrow> 'a list \<Rightarrow> 'a list" where
  "trim_end_with P s = rev (dropWhile P (rev s))"

definition trim_with :: "('a \<Rightarrow> bool) \<Rightarrow> 'a list \<Rightarrow> 'a list" where
  "trim_with P s = trim_end_with P (dropWhile P s)"

definition trim_ascii :: "string \<Rightarrow> string" where
  "trim_ascii = trim_with is_ascii_ws"

text \<open>\<open>str::trim\<close> drops every Unicode white space character. Over UTF-8 those are the bytes 9 to 13
  and 32, and the encodings of U+0085, U+00A0, U+1680, U+2000 to U+200A, U+2028, U+2029, U+202F,
  U+205F and U+3000. \<open>ws_len\<close> is the length of the white space character a text begins with (0
  for none), \<open>ws_len_rev\<close> the same for a text read backwards.\<close>

fun ws3 :: "nat \<Rightarrow> nat \<Rightarrow> nat \<Rightarrow> bool" where
  "ws3 a b c \<longleftrightarrow>
     (a = 0xE1 \<and> b = 0x9A \<and> c = 0x80) \<or>
     (a = 0xE2 \<and> b = 0x80 \<and> ((0x80 \<le> c \<and> c \<le> 0x8A) \<or> c = 0xA8 \<or> c = 0xA9 \<or> c = 0xAF)) \<or>
     (a = 0xE2 \<and> b = 0x81 \<and> c = 0x9F) \<or>
     (a = 0xE3 \<and> b = 0x80 \<and> c = 0x80)"

definition ws1 :: "nat \<Rightarrow> bool" where
  "ws1 a \<longleftrightarrow> (9 \<le> a \<and> a \<le> 13) \<or> a = 32"

definition ws2 :: "nat \<Rightarrow> nat \<Rightarrow> bool" where
  "ws2 a b \<longleftrightarrow> a = 0xC2 \<and> (b = 0x85 \<or> b = 0xA0)"

definition ws_len :: "string \<Rightarrow> nat" where
  "ws_len s = (case s of
       a # b # c # _ \<Rightarrow>
         if ws1 (byte a) then 1 else if ws2 (byte a) (byte b) then 2
         else if ws3 (byte a) (byte b) (byte c) then 3 else 0
     | [a, b] \<Rightarrow> if ws1 (byte a) then 1 else if ws2 (byte a) (byte b) then 2 else 0
     | [a] \<Rightarrow> if ws1 (byte a) then 1 else 0
     | [] \<Rightarrow> 0)"

definition ws_len_rev :: "string \<Rightarrow> nat" where
  "ws_len_rev s = (case s of
       c # b # a # _ \<Rightarrow>
         if ws1 (byte c) then 1 else if ws2 (byte b) (byte c) then 2
         else if ws3 (byte a) (byte b) (byte c) then 3 else 0
     | [c, b] \<Rightarrow> if ws1 (byte c) then 1 else if ws2 (byte b) (byte c) then 2 else 0
     | [c] \<Rightarrow> if ws1 (byte c) then 1 else 0
     | [] \<Rightarrow> 0)"

function strip_ws :: "(string \<Rightarrow> nat) \<Rightarrow> string \<Rightarrow> string" where
  "strip_ws f s = (if f s = 0 \<or> s = [] then s else strip_ws f (drop (f s) s))"
  by auto
termination by (relation "measure (\<lambda>(f, s). length s)") auto

declare strip_ws.simps [simp del]

definition trim :: "string \<Rightarrow> string" where
  "trim s = rev (strip_ws ws_len_rev (rev (strip_ws ws_len s)))"

lemma strip_ws_suffix: "\<exists>p. s = p @ strip_ws f s"
proof (induction f s rule: strip_ws.induct)
  case (1 f s)
  show ?case
  proof (cases "f s = 0 \<or> s = []")
    case True then show ?thesis by (simp add: strip_ws.simps)
  next
    case False
    then obtain p where "drop (f s) s = p @ strip_ws f (drop (f s) s)" using 1 by blast
    then have "s = (take (f s) s @ p) @ strip_ws f (drop (f s) s)"
      by (metis append.assoc append_take_drop_id)
    then show ?thesis using False by (metis strip_ws.simps)
  qed
qed

lemma trim_infix: "\<exists>p q. s = p @ trim s @ q"
proof -
  obtain p where p: "s = p @ strip_ws ws_len s" using strip_ws_suffix by blast
  obtain q where "rev (strip_ws ws_len s) = q @ strip_ws ws_len_rev (rev (strip_ws ws_len s))"
    using strip_ws_suffix by blast
  then have "strip_ws ws_len s = trim s @ rev q"
    unfolding trim_def by (metis rev_append rev_rev_ident)
  then show ?thesis using p by metis
qed

lemma set_trim: "set (trim s) \<subseteq> set s"
proof -
  obtain p q where "s = p @ trim s @ q" using trim_infix by blast
  then have "set s = set p \<union> set (trim s) \<union> set q" by (metis set_append sup_assoc)
  then show ?thesis by blast
qed

lemma length_trim: "length (trim s) \<le> length s"
proof -
  obtain p q where "s = p @ trim s @ q" using trim_infix by blast
  then have "length s = length p + (length (trim s) + length q)" by (metis length_append)
  then show ?thesis by simp
qed

lemma set_trim_with: "set (trim_with P s) \<subseteq> set s"
  unfolding trim_with_def trim_end_with_def by (metis set_dropWhileD set_rev subsetI)

text \<open>Trimming leaves a text alone whose first and last bytes are visible ASCII.\<close>

lemma ws_len_graphic: "is_ascii_graphic c \<Longrightarrow> ws_len (c # s) = 0"
  by (cases s; cases "tl s") (auto simp: ws_len_def ws1_def ws2_def bytes_simps)

lemma ws_len_rev_graphic: "is_ascii_graphic c \<Longrightarrow> ws_len_rev (c # s) = 0"
  by (cases s; cases "tl s") (auto simp: ws_len_rev_def ws1_def ws2_def bytes_simps)

lemma trim_Nil [simp]: "trim [] = []"
  by (simp add: trim_def strip_ws.simps)

lemma trim_id:
  assumes "s \<noteq> [] \<Longrightarrow> is_ascii_graphic (hd s) \<and> is_ascii_graphic (last s)"
  shows "trim s = s"
proof (cases "s = []")
  case False
  then obtain c t where s: "s = c # t" by (cases s) auto
  from False obtain d u where r: "rev s = d # u" by (cases "rev s") auto
  have "last s = d" using r by (metis hd_rev list.sel(1) False)
  then have "is_ascii_graphic c" "is_ascii_graphic d" using assms False s by auto
  then have "strip_ws ws_len s = s" "strip_ws ws_len_rev (rev s) = rev s"
    by (subst strip_ws.simps, simp add: s ws_len_graphic)
       (subst strip_ws.simps, simp add: r ws_len_rev_graphic \<open>is_ascii_graphic d\<close>)
  then show ?thesis by (simp add: trim_def)
qed simp

section \<open>Decimal numbers\<close>

definition digit :: "nat \<Rightarrow> char" where
  "digit n = char_of (48 + n)"

definition digit_val :: "char \<Rightarrow> nat" where
  "digit_val c = byte c - 48"

lemma digit_literals [std_simps]:
  "digit 0 = CHR ''0''" "digit (Suc 0) = CHR ''1''" "digit 1 = CHR ''1''" "digit 2 = CHR ''2''"
  "digit 3 = CHR ''3''" "digit 4 = CHR ''4''" "digit 5 = CHR ''5''" "digit 6 = CHR ''6''"
  "digit 7 = CHR ''7''" "digit 8 = CHR ''8''" "digit 9 = CHR ''9''"
  by (simp_all add: digit_def char_of_def bit_Suc_0_iff)

fun decimal :: "nat \<Rightarrow> string" where
  "decimal n = (if n < 10 then [digit n] else decimal (n div 10) @ [digit (n mod 10)])"

declare decimal.simps [simp del]

lemma decimal_lt [std_simps]: "n < 10 \<Longrightarrow> decimal n = [digit n]"
  by (simp add: decimal.simps)

lemma decimal_ge [std_simps]: "10 \<le> n \<Longrightarrow> decimal n = decimal (n div 10) @ [digit (n mod 10)]"
  by (subst decimal.simps) simp

definition dec_val :: "string \<Rightarrow> nat" where
  "dec_val s = foldl (\<lambda>acc c. acc * 10 + digit_val c) 0 s"

lemma byte_digit: "n < 10 \<Longrightarrow> byte (digit n) = 48 + n"
  by (simp add: digit_def)

lemma digit_val_digit [simp]: "n < 10 \<Longrightarrow> digit_val (digit n) = n"
  by (simp add: digit_val_def byte_digit)

lemma is_digit_digit [simp]: "n < 10 \<Longrightarrow> is_ascii_digit (digit n)"
  by (simp add: is_ascii_digit_def byte_digit)

lemma digit_digit_val: "is_ascii_digit c \<Longrightarrow> digit (digit_val c) = c"
  by (auto simp: digit_def digit_val_def bytes_simps)

lemma digit_val_less: "is_ascii_digit c \<Longrightarrow> digit_val c < 10"
  by (auto simp: digit_val_def bytes_simps)

lemma dec_val_Nil [simp]: "dec_val [] = 0"
  by (simp add: dec_val_def)

lemma dec_val_snoc [simp]: "dec_val (s @ [c]) = dec_val s * 10 + digit_val c"
  by (simp add: dec_val_def)

lemma dec_val_decimal [simp]: "dec_val (decimal n) = n"
proof (induction n rule: decimal.induct)
  case (1 n)
  show ?case
  proof (cases "n < 10")
    case True then show ?thesis
      by (subst decimal.simps) (use dec_val_snoc [of "[]"] in simp)
  next
    case False then show ?thesis using 1 by (subst decimal.simps) simp
  qed
qed

lemma decimal_digits: "\<forall>c\<in>set (decimal n). is_ascii_digit c"
proof (induction n rule: decimal.induct)
  case (1 n) then show ?case by (subst decimal.simps) auto
qed

lemma decimal_not_Nil [simp]: "decimal n \<noteq> []"
  by (subst decimal.simps) simp

lemma decimal_inject [simp]: "decimal m = decimal n \<longleftrightarrow> m = n"
  by (metis dec_val_decimal)

lemma dec_val_less: "(\<forall>c\<in>set s. is_ascii_digit c) \<Longrightarrow> dec_val s < 10 ^ length s"
proof (induction s rule: rev_induct)
  case (snoc c s)
  then have "dec_val s + 1 \<le> 10 ^ length s" "digit_val c < 10" by (auto simp: digit_val_less)
  then have "dec_val s * 10 + digit_val c < 10 * 10 ^ length s" by linarith
  then show ?case by simp
qed simp

text \<open>\<open>str::parse::<u64>\<close> and its narrower kin: an optional plus sign, at least one digit, and a
  value the type holds.\<close>

definition parse_uint :: "nat \<Rightarrow> string \<Rightarrow> nat option" where
  "parse_uint cap s =
     (let ds = (case s of [] \<Rightarrow> [] | c # t \<Rightarrow> if c = CHR ''+'' then t else s)
      in if ds \<noteq> [] \<and> list_all is_ascii_digit ds \<and> dec_val ds \<le> cap then Some (dec_val ds) else None)"

definition u8_max :: nat where "u8_max = 255"
definition u16_max :: nat where "u16_max = 65535"
definition u64_max :: nat where "u64_max = 18446744073709551615"

text \<open>Two's-complement-free arithmetic of \<open>u64\<close>: the saturating operations the code calls.\<close>

definition sat_add :: "nat \<Rightarrow> nat \<Rightarrow> nat" where
  "sat_add a b = min u64_max (a + b)"

definition sat_mul :: "nat \<Rightarrow> nat \<Rightarrow> nat" where
  "sat_mul a b = min u64_max (a * b)"

text \<open>\<open>str::get(..n)\<close> with \<open>str::get(n..)\<close>: None past the end or inside a character.\<close>

definition str_split_at :: "nat \<Rightarrow> string \<Rightarrow> (string \<times> string) option" where
  "str_split_at n s =
     (if n \<le> length s \<and> (n = length s \<or> \<not> is_utf8_continuation (s ! n))
      then Some (take n s, drop n s) else None)"

lemma str_split_at_append:
  "length a = n \<Longrightarrow> b = [] \<or> is_ascii (hd b) \<Longrightarrow> str_split_at n (a @ b) = Some (a, b)"
  by (cases b) (auto simp: str_split_at_def nth_append bytes_simps)

text \<open>\<open>{:02}\<close>, \<open>{:04}\<close>: zero-padded decimals.\<close>

definition padded :: "nat \<Rightarrow> nat \<Rightarrow> string" where
  "padded width n = replicate (width - length (decimal n)) CHR ''0'' @ decimal n"

lemma dec_val_zeros: "dec_val (replicate k CHR ''0'' @ s) = dec_val s"
proof -
  have "foldl (\<lambda>acc c. acc * 10 + digit_val c) 0 (replicate k CHR ''0'') = 0"
    by (induction k) (auto simp: digit_val_def)
  then show ?thesis by (simp add: dec_val_def)
qed

lemma dec_val_padded [simp]: "dec_val (padded w n) = n"
  by (simp add: padded_def dec_val_zeros)

lemma padded_digits: "list_all is_ascii_digit (padded w n)"
  using decimal_digits by (auto simp: padded_def list_all_iff is_ascii_digit_def)

lemma length_decimal: "n < 10 ^ w \<Longrightarrow> 0 < w \<Longrightarrow> length (decimal n) \<le> w"
proof (induction n arbitrary: w rule: decimal.induct)
  case (1 n)
  show ?case
  proof (cases "n < 10")
    case True then show ?thesis using 1 by (subst decimal.simps) simp
  next
    case False
    then obtain v where w: "w = Suc v" "0 < v"
      using 1(2,3) by (cases w; cases "w - 1") auto
    then have "n div 10 < 10 ^ v" using 1(2) by (simp add: div_less_iff_less_mult mult.commute)
    then show ?thesis using 1(1) [OF False] w False by (subst decimal.simps) simp
  qed
qed

lemma length_padded: "n < 10 ^ w \<Longrightarrow> 0 < w \<Longrightarrow> length (padded w n) = w"
  using length_decimal [of n w] by (simp add: padded_def)

section \<open>Greatest elements\<close>

text \<open>\<open>Iterator::max_by_key\<close> returns the last of the greatest elements.\<close>

fun max_by_key :: "('a \<Rightarrow> 'k::linorder) \<Rightarrow> 'a list \<Rightarrow> 'a option" where
  "max_by_key k [] = None"
| "max_by_key k (x # xs) =
     (case max_by_key k xs of
        None \<Rightarrow> Some x
      | Some y \<Rightarrow> if k x \<le> k y then Some y else Some x)"

lemma max_by_key_None [simp]: "max_by_key k xs = None \<longleftrightarrow> xs = []"
  by (cases xs) (auto split: option.splits)

lemma max_by_key_last:
  "max_by_key k xs = Some y \<Longrightarrow>
   \<exists>pre post. xs = pre @ y # post \<and> (\<forall>x\<in>set pre. k x \<le> k y) \<and> (\<forall>x\<in>set post. k x < k y)"
proof (induction xs arbitrary: y)
  case (Cons x xs)
  show ?case
  proof (cases "max_by_key k xs")
    case None then show ?thesis using Cons.prems by (intro exI [of _ "[]"]) auto
  next
    case (Some z)
    obtain pre post where z: "xs = pre @ z # post" "\<forall>x\<in>set pre. k x \<le> k z" "\<forall>x\<in>set post. k x < k z"
      using Cons.IH [OF Some] by blast
    show ?thesis
    proof (cases "k x \<le> k z")
      case True
      then have "y = z" using Some Cons.prems by simp
      then show ?thesis using z True by (intro exI [of _ "x # pre"] exI [of _ post]) auto
    next
      case False
      then have "y = x" using Some Cons.prems by simp
      then show ?thesis using z False by (intro exI [of _ "[]"] exI [of _ xs]) auto
    qed
  qed
qed simp

lemma max_by_key_mem: "max_by_key k xs = Some y \<Longrightarrow> y \<in> set xs"
  by (drule max_by_key_last) auto

lemma max_by_key_ge: "max_by_key k xs = Some y \<Longrightarrow> x \<in> set xs \<Longrightarrow> k x \<le> k y"
  by (drule max_by_key_last) (fastforce intro: less_imp_le)

text \<open>\<open>std::cmp::Reverse\<close>: the order turned around, so that a tie goes to the smaller index.\<close>

datatype 'a reverse = Reverse 'a

primrec unreverse :: "'a reverse \<Rightarrow> 'a" where
  "unreverse (Reverse x) = x"

instantiation reverse :: (linorder) linorder
begin

definition less_eq_reverse :: "'a reverse \<Rightarrow> 'a reverse \<Rightarrow> bool" where
  "less_eq_reverse a b \<longleftrightarrow> unreverse b \<le> unreverse a"

definition less_reverse :: "'a reverse \<Rightarrow> 'a reverse \<Rightarrow> bool" where
  "less_reverse a b \<longleftrightarrow> unreverse b < unreverse a"

instance
proof
  fix x y z :: "'a reverse"
  show "(x < y) = (x \<le> y \<and> \<not> y \<le> x)" by (auto simp: less_eq_reverse_def less_reverse_def)
  show "x \<le> x" by (simp add: less_eq_reverse_def)
  show "x \<le> y \<Longrightarrow> y \<le> z \<Longrightarrow> x \<le> z" by (simp add: less_eq_reverse_def)
  show "x \<le> y \<Longrightarrow> y \<le> x \<Longrightarrow> x = y" by (cases x; cases y) (simp add: less_eq_reverse_def)
  show "x \<le> y \<or> y \<le> x" by (auto simp: less_eq_reverse_def)
qed

end

lemma reverse_le [simp]: "Reverse a \<le> Reverse b \<longleftrightarrow> b \<le> a"
  by (simp add: less_eq_reverse_def)

lemma reverse_less [simp]: "Reverse a < Reverse b \<longleftrightarrow> b < a"
  by (simp add: less_reverse_def)

section \<open>Interfaces\<close>

text \<open>What an encoder and its decoder promise: every value the type admits is read back. Encoding
  is then injective on those values. In an \<open>exact_codec\<close> the decoder accepts only what the encoder
  produces, so it is injective too and acceptance is membership in the encoder's image.\<close>

locale codec =
  fixes enc :: "'a \<Rightarrow> 'b"
    and dec :: "'b \<Rightarrow> 'a option"
    and valid :: "'a \<Rightarrow> bool"
  assumes dec_enc: "valid x \<Longrightarrow> dec (enc x) = Some x"
begin

lemma enc_inject: "valid x \<Longrightarrow> valid y \<Longrightarrow> enc x = enc y \<longleftrightarrow> x = y"
  using dec_enc by (metis option.inject)

lemma dec_total_on_image: "valid x \<Longrightarrow> dec (enc x) \<noteq> None"
  by (simp add: dec_enc)

end

locale exact_codec = codec +
  assumes enc_dec: "dec s = Some x \<Longrightarrow> valid x \<and> enc x = s"
begin

lemma dec_Some_iff: "dec s = Some x \<longleftrightarrow> valid x \<and> s = enc x"
  using dec_enc enc_dec by auto

lemma dec_inject: "dec s = Some x \<Longrightarrow> dec t = Some x \<Longrightarrow> s = t"
  using enc_dec by blast

lemma dec_None_iff: "dec s = None \<longleftrightarrow> (\<forall>x. valid x \<longrightarrow> enc x \<noteq> s)"
  using dec_enc enc_dec by (metis option.exhaust option.distinct(1))

end

end
