(* ===== verification/Http_Text.thy ===== *)
theory Http_Text
  imports Prelude
begin

text \<open>
  \<open>src/crates/kynos/src/http/mod.rs\<close>: the byte-level helpers every header parser of the framework
  calls (token and field-value checks, quoted strings, the split that honours quoting, names compared
  case-insensitively), and the four helpers that read or edit a header map.

  The header map itself belongs to the \<open>http\<close> crate, so its operations are a parameter: the record
  \<open>header_map\<close> carries the calls the framework makes, and \<open>header_map_laws\<close> states their
  documented behaviour, a hypothesis of the lemmas that need it.
\<close>

section \<open>The header map of the http crate\<close>

record 'h header_map =
  new_map :: 'h
  get_all :: "'h \<Rightarrow> string \<Rightarrow> string list"
  insert_field :: "'h \<Rightarrow> string \<Rightarrow> string \<Rightarrow> 'h"
  append_field :: "'h \<Rightarrow> string \<Rightarrow> string \<Rightarrow> 'h"
  remove_field :: "'h \<Rightarrow> string \<Rightarrow> 'h"
  to_str :: "string \<Rightarrow> string option"
  from_bytes :: "string \<Rightarrow> string option"

definition get_first :: "('h, 'x) header_map_scheme \<Rightarrow> 'h \<Rightarrow> string \<Rightarrow> string option" where
  "get_first H h n = (case get_all H h n of [] \<Rightarrow> None | v # _ \<Rightarrow> Some v)"

definition is_visible :: "char \<Rightarrow> bool" where
  [bytes_simps]: "is_visible c \<longleftrightarrow> byte c = 9 \<or> (32 \<le> byte c \<and> byte c \<le> 126)"

definition header_map_laws :: "('h, 'x) header_map_scheme \<Rightarrow> bool" where
  "header_map_laws H \<longleftrightarrow>
     (\<forall>m. get_all H (new_map H) m = []) \<and>
     (\<forall>h n v m. get_all H (insert_field H h n v) m = (if m = n then [v] else get_all H h m)) \<and>
     (\<forall>h n v m. get_all H (append_field H h n v) m =
                 (if m = n then get_all H h m @ [v] else get_all H h m)) \<and>
     (\<forall>h n m. get_all H (remove_field H h n) m = (if m = n then [] else get_all H h m)) \<and>
     (\<forall>v s. to_str H v = Some s \<longrightarrow> s = v \<and> list_all is_visible v) \<and>
     (\<forall>v. list_all is_visible v \<longrightarrow> to_str H v = Some v) \<and>
     (\<forall>v s. from_bytes H v = Some s \<longrightarrow> s = v) \<and>
     (\<forall>v. list_all is_visible v \<longrightarrow> from_bytes H v = Some v)"

lemma header_map_lawsD:
  assumes "header_map_laws H"
  shows "get_all H (insert_field H h n v) m = (if m = n then [v] else get_all H h m)"
    and "get_all H (append_field H h n v) m =
           (if m = n then get_all H h m @ [v] else get_all H h m)"
    and "get_all H (remove_field H h n) m = (if m = n then [] else get_all H h m)"
    and "to_str H v = Some s \<Longrightarrow> s = v \<and> list_all is_visible v"
    and "list_all is_visible v \<Longrightarrow> to_str H v = Some v"
    and "from_bytes H v = Some s \<Longrightarrow> s = v"
    and "list_all is_visible v \<Longrightarrow> from_bytes H v = Some v"
    and "get_all H (new_map H) m = []"
proof -
  note laws = assms [unfolded header_map_laws_def]
  show "get_all H (insert_field H h n v) m = (if m = n then [v] else get_all H h m)"
    using laws by simp
  show "get_all H (append_field H h n v) m =
          (if m = n then get_all H h m @ [v] else get_all H h m)"
    using laws by simp
  show "get_all H (remove_field H h n) m = (if m = n then [] else get_all H h m)"
    using laws by simp
  show "to_str H v = Some s \<Longrightarrow> s = v \<and> list_all is_visible v" using laws by metis
  show "list_all is_visible v \<Longrightarrow> to_str H v = Some v" using laws by simp
  show "from_bytes H v = Some s \<Longrightarrow> s = v" using laws by metis
  show "list_all is_visible v \<Longrightarrow> from_bytes H v = Some v" using laws by simp
  show "get_all H (new_map H) m = []" using laws by simp
qed

text \<open>A concrete map that has the documented behaviour, for the witnesses.\<close>

definition fun_headers :: "(string \<Rightarrow> string list) header_map" where
  "fun_headers = \<lparr>new_map = (\<lambda>_. []), get_all = (\<lambda>h. h), insert_field = (\<lambda>h n v. h(n := [v])),
     append_field = (\<lambda>h n v. h(n := h n @ [v])), remove_field = (\<lambda>h n. h(n := [])),
     to_str = (\<lambda>v. if list_all is_visible v then Some v else None),
     from_bytes = (\<lambda>v. if list_all is_visible v then Some v else None)\<rparr>"

lemma fun_headers_laws: "header_map_laws fun_headers"
  by (simp add: header_map_laws_def fun_headers_def split: if_splits)

section \<open>Byte checks\<close>

definition delimiters :: string where
  "delimiters = [CHR 0x22] @ ''(),/:;<=>?@['' @ [CHR 0x5C] @ '']{}''"

definition is_token_byte :: "char \<Rightarrow> bool" where
  "is_token_byte c \<longleftrightarrow> is_ascii_graphic c \<and> c \<notin> set delimiters"

definition is_token :: "string \<Rightarrow> bool" where
  "is_token s \<longleftrightarrow> list_all is_token_byte s \<and> s \<noteq> []"

definition is_field_value :: "string \<Rightarrow> bool" where
  "is_field_value s \<longleftrightarrow> list_all (\<lambda>c. byte c = 9 \<or> (32 \<le> byte c \<and> byte c \<le> 126)) s"

abbreviation dquote :: char where "dquote \<equiv> CHR 0x22"
abbreviation bslash :: char where "bslash \<equiv> CHR 0x5C"

definition unquoted :: "string \<Rightarrow> string" where
  "unquoted v = (if 2 \<le> length v \<and> hd v = dquote \<and> last v = dquote then butlast (tl v) else v)"

definition unquoted_str :: "string \<Rightarrow> string" where
  "unquoted_str text =
     (let inner = length (unquoted text); start = (length text - inner) div 2
      in take inner (drop start text))"

lemma unquoted_str_unquoted: "unquoted_str v = unquoted v"
proof (cases "2 \<le> length v \<and> hd v = dquote \<and> last v = dquote")
  case True
  then obtain c t where t: "v = c # t" "t \<noteq> []" by (cases v; cases "tl v") auto
  then show ?thesis using True
    by (simp add: unquoted_str_def unquoted_def Let_def butlast_conv_take)
next
  case False then show ?thesis unfolding unquoted_str_def unquoted_def by auto
qed

lemma unquoted_quote [simp]: "unquoted (dquote # s @ [dquote]) = s"
  by (simp add: unquoted_def)

lemma set_unquoted: "set (unquoted v) \<subseteq> set v"
  unfolding unquoted_def by (auto dest: in_set_butlastD) (metis in_set_butlastD list.set_sel(2) tl_Nil)

definition copy_into :: "'a list \<Rightarrow> nat \<Rightarrow> 'a list \<Rightarrow> ('a list \<times> nat) option" where
  "copy_into out at bs =
     (if bs = [] \<or> at + length bs \<le> length out
      then Some (take at out @ bs @ drop (at + length bs) out, at + length bs) else None)"

lemma copy_into_untouched:
  assumes "copy_into out at bs = Some (out', at')" "i < length out" "i < at \<or> at' \<le> i" "bs \<noteq> []"
  shows "out' ! i = out ! i \<and> length out' = length out"
  using assms by (auto simp: copy_into_def nth_append split: if_splits)

definition header_name_eq :: "string \<Rightarrow> string \<Rightarrow> bool" where
  "header_name_eq left right = eq_nocase left right"

fun eq_ignore_ascii_case :: "string \<Rightarrow> string \<Rightarrow> bool" where
  "eq_ignore_ascii_case [] [] = True"
| "eq_ignore_ascii_case (a # as') (b # bs) =
     (ascii_lower a = ascii_lower b \<and> eq_ignore_ascii_case as' bs)"
| "eq_ignore_ascii_case _ _ = False"

lemma eq_ignore_ascii_case_iff: "eq_ignore_ascii_case a b \<longleftrightarrow> eq_nocase a b"
  by (induction a b rule: eq_ignore_ascii_case.induct) (auto simp: eq_nocase_def)

definition split_at_byte :: "string \<Rightarrow> char \<Rightarrow> string \<times> string" where
  "split_at_byte bs b =
     (let before = takeWhile (\<lambda>c. c \<noteq> b) bs; after = dropWhile (\<lambda>c. c \<noteq> b) bs
      in case after of [] \<Rightarrow> (before, after) | _ # rest \<Rightarrow> (before, rest))"

section \<open>Splitting outside quoted strings\<close>

text \<open>The scan of \<open>unquoted_position\<close>: the two flags \<open>quoted\<close> and \<open>escaped\<close>, and the index.\<close>

fun unquoted_scan :: "bool \<Rightarrow> bool \<Rightarrow> char \<Rightarrow> string \<Rightarrow> nat option" where
  "unquoted_scan quoted escaped d [] = None"
| "unquoted_scan quoted escaped d (b # bs) =
     (if escaped then map_option Suc (unquoted_scan quoted False d bs)
      else if quoted \<and> b = bslash then map_option Suc (unquoted_scan quoted True d bs)
      else if b = dquote then map_option Suc (unquoted_scan (\<not> quoted) False d bs)
      else if \<not> quoted \<and> b = d then Some 0
      else map_option Suc (unquoted_scan quoted False d bs))"

definition unquoted_position :: "string \<Rightarrow> char \<Rightarrow> nat option" where
  "unquoted_position bs d = unquoted_scan False False d bs"

lemma unquoted_scan_less: "unquoted_scan q e d bs = Some i \<Longrightarrow> i < length bs \<and> bs ! i = d"
  by (induction q e d bs arbitrary: i rule: unquoted_scan.induct) (auto split: if_splits)

lemma unquoted_position_less: "unquoted_position bs d = Some i \<Longrightarrow> i < length bs \<and> bs ! i = d"
  unfolding unquoted_position_def by (rule unquoted_scan_less)

function unquoted_split :: "string \<Rightarrow> char \<Rightarrow> string list" where
  "unquoted_split piece d =
     (case unquoted_position piece d of
        Some at \<Rightarrow> take at piece # unquoted_split (drop (at + 1) piece) d
      | None \<Rightarrow> [piece])"
  by auto
termination
  by (relation "measure (\<lambda>(p, d). length p)") (auto dest: unquoted_position_less)

declare unquoted_split.simps [simp del]

lemma unquoted_split_not_Nil [simp]: "unquoted_split s d \<noteq> []"
  by (subst unquoted_split.simps) (auto split: option.splits)

lemma join_unquoted_split: "join [d] (unquoted_split s d) = s"
proof (induction s d rule: unquoted_split.induct)
  case (1 s d)
  show ?case
  proof (cases "unquoted_position s d")
    case None then show ?thesis by (subst unquoted_split.simps) simp
  next
    case (Some i)
    then have "s = take i s @ d # drop (i + 1) s"
      by (metis Suc_eq_plus1 id_take_nth_drop unquoted_position_less)
    then show ?thesis using Some 1
      by (subst unquoted_split.simps) (simp add: join_Cons)
  qed
qed

lemma unquoted_scan_plain:
  "dquote \<notin> set s \<Longrightarrow> d \<notin> set s \<Longrightarrow> unquoted_scan False False d s = None"
  by (induction s) auto

lemma unquoted_scan_plain_append:
  "dquote \<notin> set s \<Longrightarrow> d \<notin> set s \<Longrightarrow> d \<noteq> dquote \<Longrightarrow>
   unquoted_scan False False d (s @ d # t) = Some (length s)"
  by (induction s) auto

text \<open>Scanning past text without quotes, and past a quoted string.\<close>

lemma unquoted_scan_past:
  "dquote \<notin> set s \<Longrightarrow> d \<notin> set s \<Longrightarrow>
   unquoted_scan False False d (s @ t) = map_option (\<lambda>n. n + length s) (unquoted_scan False False d t)"
  by (induction s) (auto simp: option.map_comp comp_def option.map_ident)

lemma unquoted_scan_quoted:
  "dquote \<notin> set s \<Longrightarrow> bslash \<notin> set s \<Longrightarrow>
   unquoted_scan True False d (s @ dquote # t)
     = map_option (\<lambda>n. n + (length s + 1)) (unquoted_scan False False d t)"
  by (induction s) (auto simp: option.map_comp comp_def)

text \<open>Where no quote occurs the quoting split is the ordinary one.\<close>

lemma unquoted_split_plain: "dquote \<notin> set s \<Longrightarrow> d \<noteq> dquote \<Longrightarrow> unquoted_split s d = split d s"
proof (induction s d rule: unquoted_split.induct)
  case (1 s d)
  show ?case
  proof (cases "split_once d s")
    case None
    then have "d \<notin> set s" by (simp add: split_once_None)
    then show ?thesis using 1(2)
      by (subst unquoted_split.simps) (simp add: unquoted_position_def unquoted_scan_plain split_none)
  next
    case (Some ab)
    then obtain a b where s: "s = a @ d # b" "d \<notin> set a"
      by (cases ab) (auto simp: split_once_Some)
    then have pos: "unquoted_position s d = Some (length a)"
      using 1(2,3) by (simp add: unquoted_position_def unquoted_scan_plain_append)
    then have "unquoted_split b d = split d b" using 1(1) [OF pos] 1(2,3) s by simp
    then show ?thesis using pos s
      by (subst unquoted_split.simps) (simp add: split_append_sep)
  qed
qed

section \<open>Reading and editing header fields\<close>

definition own_authority ::
  "('h, 'x) header_map_scheme \<Rightarrow> 'h \<Rightarrow> string option \<Rightarrow> string option" where
  "own_authority H headers authority =
     (let named = (case authority of
                     Some a \<Rightarrow> Some a
                   | None \<Rightarrow> (case get_first H headers ''host'' of
                                None \<Rightarrow> None
                              | Some v \<Rightarrow> to_str H v))
      in case map_option trim named of
           None \<Rightarrow> None
         | Some host \<Rightarrow>
             if host = [] then None
             else Some (if list_ex is_ascii_upper host then to_lower host else host))"

definition field_lines :: "('h, 'x) header_map_scheme \<Rightarrow> 'h \<Rightarrow> string \<Rightarrow> string option" where
  "field_lines H headers name =
     (case filter_map (to_str H) (get_all H headers name) of
        [] \<Rightarrow> None
      | [first] \<Rightarrow> Some first
      | first # second # lines \<Rightarrow>
          Some (foldl (\<lambda>field line. field @ '','' @ line) (first @ '','' @ second) lines))"

definition join_names :: "('h, 'x) header_map_scheme \<Rightarrow> string list \<Rightarrow> string option" where
  "join_names H names =
     (case names of
        [] \<Rightarrow> None
      | first # names \<Rightarrow> from_bytes H (foldl (\<lambda>joined name. joined @ '', '' @ name) first names))"

definition describe_code :: "(nat \<Rightarrow> string option) \<Rightarrow> nat \<Rightarrow> string" where
  "describe_code canonical_reason code =
     (case canonical_reason code of
        None \<Rightarrow> ''a `'' @ decimal code @ ''` response''
      | Some reason \<Rightarrow> reason)"

lemma foldl_sep: "foldl (\<lambda>field line. field @ sep @ line) first lines = join sep (first # lines)"
proof (induction lines arbitrary: first)
  case (Cons l ls)
  then have "foldl (\<lambda>field line. field @ sep @ line) (first @ sep @ l) ls
               = join sep ((first @ sep @ l) # ls)" by simp
  also have "\<dots> = first @ sep @ join sep (l # ls)"
    by (cases "ls = []") (auto simp: join_Cons)
  finally show ?case by simp
qed simp

lemma join_concat: "join sep (p # ps) = p @ concat (map ((@) sep) ps)"
proof (induction ps arbitrary: p)
  case (Cons q ps)
  then show ?case by (simp add: join_Cons)
qed simp

lemma join_merge: "join sep ((a @ sep @ b) # cs) = a @ sep @ join sep (b # cs)"
  by (cases cs) auto

lemma field_lines_join:
  "field_lines H headers name =
     (case filter_map (to_str H) (get_all H headers name) of
        [] \<Rightarrow> None | lines \<Rightarrow> Some (join '','' lines))"
  by (auto simp: field_lines_def foldl_sep [of "'',''", simplified] join_merge [of "'',''", simplified]
           split: list.splits)

lemma join_names_join:
  "join_names H names = (if names = [] then None else from_bytes H (join '', '' names))"
  by (cases names) (auto simp: join_names_def foldl_sep [of "'', ''", simplified])

section \<open>Delays\<close>

text \<open>A \<open>Duration\<close> is a number of nanoseconds; the type holds at most \<open>u64::MAX\<close> seconds and
  999999999 nanoseconds.\<close>

definition nanos_per_sec :: nat where "nanos_per_sec = 1000000000"

definition duration_max :: nat where
  "duration_max = u64_max * nanos_per_sec + 999999999"

definition as_secs :: "nat \<Rightarrow> nat" where "as_secs d = d div nanos_per_sec"
definition subsec_nanos :: "nat \<Rightarrow> nat" where "subsec_nanos d = d mod nanos_per_sec"

definition whole_seconds :: "nat \<Rightarrow> nat" where
  "whole_seconds delay = sat_add (as_secs delay) (if subsec_nanos delay > 0 then 1 else 0)"

definition set_retry_after :: "('h, 'x) header_map_scheme \<Rightarrow> 'h \<Rightarrow> nat \<Rightarrow> 'h" where
  "set_retry_after H headers delay =
     insert_field H headers ''retry-after'' (decimal (whole_seconds delay))"

text \<open>The rounded delay is the least number of whole seconds not shorter than the delay, unless the
  counter saturates.\<close>

lemma div_ceiling:
  fixes d n :: nat
  assumes "0 < n"
  shows "(d + (n - 1)) div n = d div n + (if d mod n > 0 then 1 else 0)"
proof -
  have "(d + (n - 1)) div n = (d div n * n + (d mod n + (n - 1))) div n"
    by (metis add.assoc div_mult_mod_eq)
  also have "\<dots> = d div n + (d mod n + (n - 1)) div n"
    using assms by (simp only: div_mult_self3)
  also have "(d mod n + (n - 1)) div n = (if d mod n > 0 then 1 else 0)"
  proof (cases "d mod n")
    case (Suc k)
    then have "k < n" using assms by (metis Suc_lessD mod_less_divisor)
    moreover have "d mod n + (n - 1) = k + n" using Suc assms by simp
    moreover have "(k + n) div n = 1" using \<open>k < n\<close> assms div_add_self2 [of n k] by simp
    ultimately show ?thesis using Suc by simp
  qed (use assms in simp)
  finally show ?thesis .
qed

lemma whole_seconds_ceiling:
  "whole_seconds d = min u64_max ((d + (nanos_per_sec - 1)) div nanos_per_sec)"
proof -
  have "0 < nanos_per_sec" by (simp add: nanos_per_sec_def)
  then show ?thesis
    by (simp only: div_ceiling whole_seconds_def sat_add_def as_secs_def subsec_nanos_def)
qed

section \<open>Vary\<close>

definition vary_members :: "('h, 'x) header_map_scheme \<Rightarrow> 'h \<Rightarrow> string list" where
  "vary_members H hs =
     filter (\<lambda>m. m \<noteq> [])
       (map trim_ascii (concat (map (split CHR '','') (get_all H hs ''vary''))))"

definition vary_added :: "string list \<Rightarrow> string list \<Rightarrow> string list" where
  "vary_added members names =
     map snd (filter (\<lambda>(index, name).
                \<not> list_ex (\<lambda>member. eq_nocase member name) (members @ take index names))
              (enumerate 0 names))"

definition vary_on :: "('h, 'x) header_map_scheme \<Rightarrow> 'h \<Rightarrow> string list \<Rightarrow> 'h" where
  "vary_on H hs names =
     (let members = vary_members H hs; added = vary_added members names
      in if list_ex (\<lambda>m. m = ''*'') members then hs
         else if length added = 0 then hs
         else
           let line =
             (if length added = 1 \<and> length members = 0 then last added
              else foldl (\<lambda>line member. (if line \<noteq> [] then line @ '', '' else line) @ member)
                     [] (members @ added))
           in case from_bytes H line of
                Some value \<Rightarrow> insert_field H hs ''vary'' value
              | None \<Rightarrow> hs)"

lemma trim_ascii_id:
  "s = [] \<or> (\<not> is_ascii_ws (hd s) \<and> \<not> is_ascii_ws (last s)) \<Longrightarrow> trim_ascii s = s"
proof (cases "s = []")
  case False
  assume "s = [] \<or> (\<not> is_ascii_ws (hd s) \<and> \<not> is_ascii_ws (last s))"
  then have "dropWhile is_ascii_ws s = s" "dropWhile is_ascii_ws (rev s) = rev s"
    using False by (auto simp: dropWhile_eq_self_iff hd_rev)
  then show ?thesis by (simp add: trim_ascii_def trim_with_def trim_end_with_def)
qed (simp add: trim_ascii_def trim_with_def trim_end_with_def)

lemma trim_ascii_space [simp]: "trim_ascii (CHR '' '' # s) = trim_ascii s"
  by (simp add: trim_ascii_def trim_with_def bytes_simps)

lemma trim_with_ends:
  "trim_with P s \<noteq> [] \<Longrightarrow> \<not> P (hd (trim_with P s)) \<and> \<not> P (last (trim_with P s))"
proof -
  assume ne: "trim_with P s \<noteq> []"
  let ?t = "dropWhile P s"
  have r: "dropWhile P (rev ?t) \<noteq> []" using ne by (simp add: trim_with_def trim_end_with_def)
  then have "\<not> P (hd (dropWhile P (rev ?t)))" by (rule hd_dropWhile)
  then have l: "\<not> P (last (trim_with P s))"
    using r by (simp add: trim_with_def trim_end_with_def last_rev)
  have "?t \<noteq> []" using r by (metis dropWhile.simps(1) rev.simps(1))
  then have h: "\<not> P (hd ?t)" by (rule hd_dropWhile)
  obtain u where "rev ?t = u @ dropWhile P (rev ?t)" by (metis takeWhile_dropWhile_id)
  then have "?t = trim_with P s @ rev u"
    by (metis rev_append rev_rev_ident trim_end_with_def trim_with_def)
  then have "hd ?t = hd (trim_with P s)" using ne by (metis hd_append2)
  then show ?thesis using h l by simp
qed

lemma trim_ascii_idem [simp]: "trim_ascii (trim_ascii s) = trim_ascii s"
  by (rule trim_ascii_id) (use trim_with_ends [of is_ascii_ws s] in \<open>auto simp: trim_ascii_def\<close>)

lemma split_join_space:
  "(\<forall>p\<in>set ps. d \<notin> set p) \<Longrightarrow> d \<notin> set p \<Longrightarrow> d \<noteq> CHR '' '' \<Longrightarrow>
   split d (join [d, CHR '' ''] (p # ps)) = p # map ((#) CHR '' '') ps"
proof (induction ps arbitrary: p)
  case Nil then show ?case by (simp add: split_none)
next
  case (Cons q qs)
  have j: "join [d, CHR '' ''] (p # q # qs) = p @ d # (CHR '' '' # join [d, CHR '' ''] (q # qs))" by simp
  have "split d (CHR '' '' # join [d, CHR '' ''] (q # qs)) = (CHR '' '' # q) # map ((#) CHR '' '') qs"
    using Cons by simp
  then show ?case unfolding j using Cons.prems by (simp add: split_append_sep)
qed

text \<open>A member of a comma list written with \<open>", "\<close> is read back by splitting and trimming.\<close>

lemma members_of_joined:
  assumes "ps \<noteq> []" "\<forall>p\<in>set ps. CHR '','' \<notin> set p \<and> p \<noteq> [] \<and> trim_ascii p = p"
  shows "filter (\<lambda>m. m \<noteq> []) (map trim_ascii (split CHR '','' (join '', '' ps))) = ps"
proof -
  obtain q qs where ps: "ps = q # qs" using assms(1) by (cases ps) auto
  have "split CHR '','' (join '', '' ps) = q # map ((#) CHR '' '') qs"
    unfolding ps by (rule split_join_space) (use assms(2) ps in auto)
  moreover have "map (\<lambda>x. trim_ascii x) qs = qs" "filter (\<lambda>m. m \<noteq> []) qs = qs"
    using assms(2) ps by (auto simp: map_idI filter_id_conv)
  ultimately show ?thesis using assms(2) ps by (simp add: comp_def)
qed

lemma foldl_join_nonempty:
  assumes "\<forall>p\<in>set ps. p \<noteq> []"
  shows "foldl (\<lambda>line m. (if line \<noteq> [] then line @ sep else line) @ m) [] ps = join sep ps"
proof (cases ps)
  case (Cons q qs)
  have "foldl (\<lambda>line m. (if line \<noteq> [] then line @ sep else line) @ m) l ms
      = foldl (\<lambda>line m. line @ sep @ m) l ms" if "l \<noteq> []" for l ms
    using that by (induction ms arbitrary: l) auto
  then show ?thesis using assms Cons by (simp add: foldl_sep)
qed simp

text \<open>The names \<open>vary_added\<close> keeps are names of the argument, no two of them equal ignoring case and
  none already a member; every name is a member of the result.\<close>

lemma vary_added_Nil [simp]: "vary_added ms [] = []"
  by (simp add: vary_added_def)

lemma vary_added_snoc:
  "vary_added ms (ns @ [n]) =
     vary_added ms ns @
     (if list_ex (\<lambda>m. eq_nocase m n) (ms @ ns) then [] else [n])"
proof -
  have "filter (\<lambda>(i, name). \<not> list_ex (\<lambda>m. eq_nocase m name) (ms @ take i (ns @ [n])))
          (enumerate 0 ns)
      = filter (\<lambda>(i, name). \<not> list_ex (\<lambda>m. eq_nocase m name) (ms @ take i ns)) (enumerate 0 ns)"
    by (rule filter_cong) (auto simp: in_set_enumerate_eq)
  then show ?thesis by (simp add: vary_added_def enumerate_append_eq)
qed

lemma set_vary_added: "set (vary_added ms ns) \<subseteq> set ns"
  by (induction ns rule: rev_induct) (auto simp: vary_added_snoc)

lemma vary_added_covers: "\<forall>n\<in>set ns. \<exists>m\<in>set (ms @ vary_added ms ns). eq_nocase m n"
proof (induction ns rule: rev_induct)
  case (snoc k ks)
  have "\<exists>m\<in>set (ms @ vary_added ms ks). eq_nocase m k"
    if known: "list_ex (\<lambda>m. eq_nocase m k) (ms @ ks)"
  proof -
    obtain m where m: "m \<in> set (ms @ ks)" "eq_nocase m k"
      using known by (auto simp: list_ex_iff)
    show ?thesis
    proof (cases "m \<in> set ms")
      case False
      then have "m \<in> set ks" using m(1) by simp
      then obtain m' where "m' \<in> set (ms @ vary_added ms ks)" "eq_nocase m' m"
        using snoc.IH by blast
      then show ?thesis using m(2) eq_nocase_trans by blast
    qed (use m in auto)
  qed
  then show ?case using snoc.IH unfolding vary_added_snoc by auto
qed simp

lemma vary_added_fresh:
  "i < j \<Longrightarrow> j < length (vary_added ms ns) \<Longrightarrow>
   \<not> eq_nocase (vary_added ms ns ! i) (vary_added ms ns ! j)"
proof (induction ns rule: rev_induct)
  case (snoc k ks)
  let ?a = "vary_added ms ks"
  show ?case
  proof (cases "list_ex (\<lambda>m. eq_nocase m k) (ms @ ks)")
    case False
    then have none: "\<not> eq_nocase m k" if "m \<in> set ks" for m
      using that unfolding list_ex_iff by auto
    have "?a ! i \<in> set ks" if "i < length ?a" using that set_vary_added by (meson nth_mem subsetD)
    then show ?thesis using snoc False none
      by (auto simp: vary_added_snoc nth_append less_Suc_eq)
  qed (use snoc in \<open>auto simp: vary_added_snoc\<close>)
qed simp

lemma vary_added_new: "n \<in> set (vary_added ms ns) \<Longrightarrow> m \<in> set ms \<Longrightarrow> \<not> eq_nocase m n"
  by (induction ns rule: rev_induct) (auto simp: vary_added_snoc list_ex_iff split: if_splits)

text \<open>What \<open>vary_on\<close> does to the members of the field, whichever of its branches is taken.\<close>

lemma is_token_text:
  assumes "is_token n"
  shows "CHR '','' \<notin> set n" "n \<noteq> []" "trim_ascii n = n" "list_all is_visible n"
proof -
  have tok: "\<forall>c\<in>set n. is_token_byte c" "n \<noteq> []" using assms by (auto simp: is_token_def list_all_iff)
  then show "CHR '','' \<notin> set n" "n \<noteq> []" by (auto simp: is_token_byte_def delimiters_def)
  have "\<forall>c\<in>set n. is_ascii_graphic c" using tok by (auto simp: is_token_byte_def)
  moreover have "is_ascii_graphic c \<Longrightarrow> \<not> is_ascii_ws c" for c by (auto simp: bytes_simps)
  ultimately show "trim_ascii n = n" using tok(2) by (intro trim_ascii_id) simp
  show "list_all is_visible n"
    using \<open>\<forall>c\<in>set n. is_ascii_graphic c\<close> by (auto simp: list_all_iff bytes_simps)
qed

lemma vary_members_shape:
  "m \<in> set (vary_members H hs) \<Longrightarrow> CHR '','' \<notin> set m \<and> m \<noteq> [] \<and> trim_ascii m = m"
proof -
  assume "m \<in> set (vary_members H hs)"
  then obtain p line where m: "m = trim_ascii p" "m \<noteq> []" and "p \<in> set (split CHR '','' line)"
    by (auto simp: vary_members_def)
  then have "CHR '','' \<notin> set p" using split_on_pieces by fast
  then show ?thesis using m set_trim_with [of is_ascii_ws p]
    unfolding m(1) by (metis subsetD trim_ascii_def trim_ascii_idem)
qed

lemma vary_on_members:
  assumes laws: "header_map_laws H"
    and visible: "\<forall>m\<in>set (vary_members H hs). list_all is_visible m"
    and names: "\<forall>n\<in>set names. is_token n"
  shows "vary_members H (vary_on H hs names) =
           (if ''*'' \<in> set (vary_members H hs) then vary_members H hs
            else vary_members H hs @ vary_added (vary_members H hs) names)"
proof -
  let ?ms = "vary_members H hs" and ?ad = "vary_added (vary_members H hs) names"
  show ?thesis
  proof (cases "''*'' \<in> set ?ms \<or> ?ad = []")
    case True
    then show ?thesis by (auto simp: vary_on_def list_ex_iff)
  next
    case False
    let ?all = "?ms @ ?ad"
    have ad: "\<forall>n\<in>set ?ad. is_token n" using names set_vary_added by blast
    have shape: "\<forall>p\<in>set ?all. CHR '','' \<notin> set p \<and> p \<noteq> [] \<and> trim_ascii p = p"
      using ad is_token_text vary_members_shape by (metis UnE set_append)
    let ?line = "if length ?ad = 1 \<and> length ?ms = 0 then last ?ad
       else foldl (\<lambda>line m. (if line \<noteq> [] then line @ '', '' else line) @ m) [] ?all"
    have line: "?line = join '', '' ?all"
    proof (cases "length ?ad = 1 \<and> length ?ms = 0")
      case True
      then obtain n where "?ad = [n]" "?ms = []" by (cases ?ad) auto
      then show ?thesis by simp
    next
      case False
      then show ?thesis using shape foldl_join_nonempty [of ?all "'', ''"] by auto
    qed
    have "\<forall>p\<in>set ?all. list_all is_visible p" using visible ad is_token_text(4) by auto
    then have vis: "list_all is_visible (join '', '' ?all)"
      using set_join [of "'', ''" ?all] unfolding list_all_iff
      by (fastforce simp: bytes_simps)
    have "vary_on H hs names = insert_field H hs ''vary'' (join '', '' ?all)"
    proof -
      have "\<not> list_ex (\<lambda>m. m = ''*'') ?ms" "length ?ad \<noteq> 0" using False by (auto simp: list_ex_iff)
      then show ?thesis
        using header_map_lawsD(7) [OF laws vis] unfolding vary_on_def Let_def line by simp
    qed
    then have line': "get_all H (vary_on H hs names) ''vary'' = [join '', '' ?all]"
      by (metis header_map_lawsD(1) [OF laws])
    have "vary_members H (vary_on H hs names)
        = filter (\<lambda>m. m \<noteq> []) (map trim_ascii (split CHR '','' (join '', '' ?all)))"
      unfolding vary_members_def [of H "vary_on H hs names"] line' by simp
    also have "\<dots> = ?all" using False shape by (intro members_of_joined) auto
    finally show ?thesis using False by simp
  qed
qed

lemma unquoted_scan_take:
  "unquoted_scan q e d s = Some i \<Longrightarrow> unquoted_scan q e d (take i s) = None"
  by (induction q e d s arbitrary: i rule: unquoted_scan.induct) (auto split: if_splits)

lemma unquoted_split_pieces: "list_all (\<lambda>p. unquoted_position p d = None) (unquoted_split s d)"
proof (induction s d rule: unquoted_split.induct)
  case (1 s d)
  show ?case
  proof (cases "unquoted_position s d")
    case None then show ?thesis by (subst unquoted_split.simps) simp
  next
    case (Some i)
    then have "unquoted_position (take i s) d = None"
      unfolding unquoted_position_def by (rule unquoted_scan_take)
    then show ?thesis using 1 [OF Some] Some by (subst unquoted_split.simps) simp
  qed
qed

section \<open>Properties\<close>

text \<open>Splitting a field outside its quoted strings loses nothing (the pieces joined with the
  delimiter are the field) and splits everywhere it may: no piece holds a further delimiter outside
  a quoted string.\<close>

theorem unquoted_split_exact:
  "join [d] (unquoted_split s d) = s \<and>
   list_all (\<lambda>p. unquoted_position p d = None) (unquoted_split s d)"
  by (simp add: join_unquoted_split unquoted_split_pieces)

text \<open>\<open>vary_on\<close> only ever widens the field. Unless the field already is \<open>*\<close>, its members
  afterwards are the members before, in order, followed by names of the argument that were not among
  them, and every name of the argument is now a member (ignoring case); a field that holds \<open>*\<close> keeps
  its members unchanged.\<close>

theorem vary_on_widens:
  assumes "header_map_laws H"
    and "\<forall>m\<in>set (vary_members H hs). list_all is_visible m"
    and "\<forall>n\<in>set names. is_token n"
  shows "if ''*'' \<in> set (vary_members H hs)
         then vary_members H (vary_on H hs names) = vary_members H hs
         else (\<exists>added. vary_members H (vary_on H hs names) = vary_members H hs @ added \<and>
                set added \<subseteq> set names \<and>
                (\<forall>n\<in>set added. \<forall>m\<in>set (vary_members H hs). \<not> eq_nocase m n)) \<and>
              (\<forall>n\<in>set names. \<exists>m\<in>set (vary_members H (vary_on H hs names)). eq_nocase m n)"
  using vary_on_members [OF assms] set_vary_added [of "vary_members H hs" names]
    vary_added_covers [of names "vary_members H hs"] vary_added_new
  by auto

theorem vary_on_widens_witness:
  "list_all (\<lambda>n. list_ex (\<lambda>m. eq_nocase m n)
      (vary_members fun_headers
        (vary_on fun_headers ((\<lambda>_. [])(''vary'' := [''accept, x''])) [''Origin'', ''ACCEPT''])))
    [''Origin'', ''ACCEPT'']"
proof -
  let ?h = "(\<lambda>_. [])(''vary'' := [''accept, x''])"
  have ms: "vary_members fun_headers ?h = [''accept'', ''x'']"
    by (simp add: vary_members_def fun_headers_def trim_ascii_def trim_with_def trim_end_with_def
        is_ascii_ws_def)
  have tok: "\<forall>n\<in>set [''Origin'', ''ACCEPT'']. is_token n"
    by (simp add: is_token_def is_token_byte_def delimiters_def is_ascii_graphic_def)
  have vis: "\<forall>m\<in>set (vary_members fun_headers ?h). list_all is_visible m"
    by (simp add: ms is_visible_def)
  show ?thesis using vary_on_widens [OF fun_headers_laws vis tok] by (simp add: ms list_ex_iff)
qed

end
