(* ===== verification/Entity_Tag.thy ===== *)
theory Entity_Tag
  imports Http_Text
begin

text \<open>
  \<open>src/crates/kynos/src/http/etag.rs\<close>: entity tags, the list syntax of \<open>If-None-Match\<close> and
  \<open>If-Match\<close>, and the weak and strong comparisons of RFC 9110 section 8.8.3.2. The lemmas show that
  a field listing encoded tags is split back into exactly those tags, whatever commas they hold, so
  that the two preconditions decide on the tags themselves.
\<close>

section \<open>Tags\<close>

record etag =
  tag_value :: string
  weak :: bool

definition etag_strong :: "string \<Rightarrow> etag" where
  "etag_strong v = \<lparr>tag_value = v, weak = False\<rparr>"

definition etag_weak :: "string \<Rightarrow> etag" where
  "etag_weak v = \<lparr>tag_value = v, weak = True\<rparr>"

definition is_etagc :: "char \<Rightarrow> bool" where
  "is_etagc c \<longleftrightarrow> byte c = 0x21 \<or> (0x23 \<le> byte c \<and> byte c \<le> 0x7E)"

definition etag_encode :: "('h, 'x) header_map_scheme \<Rightarrow> etag \<Rightarrow> string option" where
  "etag_encode H t =
     (if \<not> list_all is_etagc (tag_value t) then None
      else from_bytes H ((if weak t then ''W/'' else []) @ [dquote] @ tag_value t @ [dquote]))"

definition ANY :: string where "ANY = ''*''"

section \<open>Lists of tags\<close>

text \<open>The separator search of \<open>split\<close>: the first comma outside quotes, every quote toggling.\<close>

fun comma_scan :: "bool \<Rightarrow> string \<Rightarrow> nat option" where
  "comma_scan quoted [] = None"
| "comma_scan quoted (c # cs) =
     (if c = dquote then map_option Suc (comma_scan (\<not> quoted) cs)
      else if c = CHR '','' \<and> \<not> quoted then Some 0
      else map_option Suc (comma_scan quoted cs))"

lemma comma_scan_less: "comma_scan q s = Some i \<Longrightarrow> i < length s"
  by (induction q s arbitrary: i rule: comma_scan.induct) (auto split: if_splits)

function etag_split :: "string \<Rightarrow> string list" where
  "etag_split remaining =
     (case comma_scan False remaining of
        Some i \<Rightarrow>
          (if trim (take i remaining) = [] then [] else [trim (take i remaining)]) @
          etag_split (drop (i + 1) remaining)
      | None \<Rightarrow> if trim remaining = [] then [] else [trim remaining])"
  by auto
termination by (relation "measure length") (auto dest: comma_scan_less)

declare etag_split.simps [simp del]

definition is_strong :: "string \<Rightarrow> bool" where
  "is_strong tag \<longleftrightarrow>
     length tag \<ge> 2 \<and> starts_with [dquote] tag \<and> ends_with [dquote] tag \<and>
     list_all is_etagc (take (length tag - 2) (drop 1 tag))"

definition is_weak :: "string \<Rightarrow> bool" where
  "is_weak tag = starts_with ''W/'' tag"

definition opaque :: "string \<Rightarrow> string" where
  "opaque tag = (case strip_prefix ''W/'' tag of None \<Rightarrow> tag | Some t \<Rightarrow> t)"

definition weak_match :: "string \<Rightarrow> string \<Rightarrow> bool" where
  "weak_match left right \<longleftrightarrow> opaque left = opaque right"

definition strong_match :: "string \<Rightarrow> string \<Rightarrow> bool" where
  "strong_match left right \<longleftrightarrow> \<not> is_weak left \<and> \<not> is_weak right \<and> left = right"

definition listed :: "string \<Rightarrow> string list option" where
  "listed field = (if trim field \<noteq> ANY then Some (etag_split field) else None)"

definition tag_names :: "string list option \<Rightarrow> string \<Rightarrow> bool" where
  "tag_names tags current =
     (case tags of None \<Rightarrow> True | Some tags \<Rightarrow> list_ex (\<lambda>tag. weak_match tag current) tags)"

definition tag_matches :: "('h, 'x) header_map_scheme \<Rightarrow> string \<Rightarrow> string \<Rightarrow> bool" where
  "tag_matches H field current =
     (case to_str H field of None \<Rightarrow> False | Some text' \<Rightarrow> tag_names (listed text') current)"

definition if_none_match_lines ::
  "('h, 'x) header_map_scheme \<Rightarrow> string list \<Rightarrow> string option \<Rightarrow> bool option" where
  "if_none_match_lines H lines current =
     (if lines = [] then None
      else Some (list_ex (\<lambda>line.
        case current of
          Some current \<Rightarrow> tag_matches H line current
        | None \<Rightarrow> (case to_str H line of None \<Rightarrow> False | Some text' \<Rightarrow> listed text' = None)) lines))"

definition if_none_match ::
  "('h, 'x) header_map_scheme \<Rightarrow> 'h \<Rightarrow> string option \<Rightarrow> bool option" where
  "if_none_match H headers current = if_none_match_lines H (get_all H headers ''if-none-match'') current"

definition matches_strongly ::
  "('h, 'x) header_map_scheme \<Rightarrow> string \<Rightarrow> string option \<Rightarrow> bool" where
  "matches_strongly H field current =
     (case to_str H field of
        None \<Rightarrow> False
      | Some text' \<Rightarrow>
          if trim text' = ANY then True
          else (case current of
                  None \<Rightarrow> False
                | Some current \<Rightarrow> list_ex (\<lambda>candidate. strong_match candidate current) (etag_split text')))"

definition if_match ::
  "('h, 'x) header_map_scheme \<Rightarrow> 'h \<Rightarrow> string option \<Rightarrow> bool option" where
  "if_match H headers current =
     (let lines = get_all H headers ''if-match''
      in if lines = [] then None
         else Some (list_ex (\<lambda>line. matches_strongly H line current) lines))"

section \<open>Lemmas\<close>

text \<open>The spelling of a tag whose octets are all \<open>etagc\<close>.\<close>

definition spelled :: "etag \<Rightarrow> string" where
  "spelled t = (if weak t then ''W/'' else []) @ [dquote] @ tag_value t @ [dquote]"

definition spellable :: "etag \<Rightarrow> bool" where
  "spellable t = list_all is_etagc (tag_value t)"

lemma etagc_visible: "is_etagc c \<Longrightarrow> is_visible c \<and> c \<noteq> dquote"
  by (auto simp: is_etagc_def is_visible_def)

lemma spelled_visible: "spellable t \<Longrightarrow> list_all is_visible (spelled t)"
proof -
  assume "spellable t"
  then have "list_all is_visible (tag_value t)"
    unfolding spellable_def by (rule list.pred_mono_strong) (simp add: etagc_visible)
  then show ?thesis by (simp add: spelled_def is_visible_def)
qed

lemma etag_encode_spelled:
  "header_map_laws H \<Longrightarrow> etag_encode H t = (if spellable t then Some (spelled t) else None)"
  unfolding etag_encode_def spellable_def [symmetric] spelled_def [symmetric]
  by (simp add: header_map_lawsD(7) spelled_visible)

lemma comma_scan_quoted:
  "dquote \<notin> set v \<Longrightarrow> comma_scan True (v @ dquote # s) = map_option (\<lambda>n. n + (length v + 1)) (comma_scan False s)"
  by (induction v) (auto simp: option.map_comp comp_def)

lemma comma_scan_spelled:
  assumes "spellable t"
  shows "comma_scan False (spelled t @ s) = map_option (\<lambda>n. n + length (spelled t)) (comma_scan False s)"
proof -
  have "dquote \<notin> set (tag_value t)" using assms etagc_visible by (auto simp: spellable_def list_all_iff)
  then show ?thesis
    by (simp add: spelled_def comma_scan_quoted option.map_comp comp_def)
qed

lemma spelled_trim: "spelled t \<noteq> [] \<and> trim (spelled t) = spelled t"
proof
  show "spelled t \<noteq> []" by (simp add: spelled_def)
  show "trim (spelled t) = spelled t"
    by (rule trim_id) (auto simp: spelled_def is_ascii_graphic_def)
qed

lemma trim_space: "trim (CHR '' '' # s) = trim s"
proof -
  have "ws_len (CHR '' '' # s) = 1"
    by (cases s; cases "tl s") (auto simp: ws_len_def ws1_def)
  then have "strip_ws ws_len (CHR '' '' # s) = strip_ws ws_len s"
    by (subst strip_ws.simps) simp
  then show ?thesis by (simp add: trim_def)
qed

lemma etag_split_spelled:
  assumes "spellable t"
  shows "etag_split (spelled t) = [spelled t]" "etag_split (CHR '' '' # spelled t) = [spelled t]"
    and "etag_split (spelled t @ CHR '','' # s) = spelled t # etag_split s"
    and "etag_split (CHR '' '' # spelled t @ CHR '','' # s) = spelled t # etag_split s"
proof -
  note scan = comma_scan_spelled [OF assms] comma_scan_spelled [OF assms, of "[]", simplified]
  show "etag_split (spelled t) = [spelled t]" "etag_split (CHR '' '' # spelled t) = [spelled t]"
    using spelled_trim [of t] by (subst etag_split.simps, simp add: scan trim_space)+
  show "etag_split (spelled t @ CHR '','' # s) = spelled t # etag_split s"
    "etag_split (CHR '' '' # spelled t @ CHR '','' # s) = spelled t # etag_split s"
    using spelled_trim [of t] by (subst etag_split.simps, simp add: scan trim_space)+
qed

lemma etag_split_joined:
  assumes "list_all spellable ts" "ts \<noteq> []"
  shows "etag_split (join '', '' (map spelled ts)) = map spelled ts"
proof -
  have "etag_split (CHR '' '' # join '', '' (map spelled ts)) = map spelled ts \<and>
        etag_split (join '', '' (map spelled ts)) = map spelled ts"
    using assms
  proof (induction ts)
    case (Cons t ts)
    then show ?case
      by (cases "ts = []") (simp_all add: join_Cons etag_split_spelled)
  qed simp
  then show ?thesis by blast
qed

lemma opaque_spelled: "opaque (spelled t) = dquote # tag_value t @ [dquote]"
  by (cases "weak t") (auto simp: opaque_def spelled_def)

lemma is_weak_spelled: "is_weak (spelled t) = weak t"
  by (simp add: is_weak_def spelled_def starts_with_def)

lemma weak_match_spelled: "weak_match (spelled t) (spelled u) \<longleftrightarrow> tag_value t = tag_value u"
  by (simp add: weak_match_def opaque_spelled)

lemma strong_match_spelled: "strong_match (spelled t) (spelled u) \<longleftrightarrow> t = u \<and> \<not> weak t"
  by (auto simp: strong_match_def is_weak_spelled) (auto simp: spelled_def)

lemma strong_match_weak_match: "strong_match a b \<Longrightarrow> weak_match a b"
  by (simp add: strong_match_def weak_match_def)

lemma joined_visible:
  assumes "list_all spellable ts"
  shows "list_all is_visible (join '', '' (map spelled ts))"
proof -
  have "\<forall>p\<in>set (map spelled ts). list_all is_visible p"
    using assms spelled_visible by (auto simp: list_all_iff)
  then show ?thesis
    using set_join [of "'', ''" "map spelled ts"] unfolding list_all_iff
    by (fastforce simp: is_visible_def)
qed

lemma last_joined:
  "ts \<noteq> [] \<Longrightarrow> join '', '' (map spelled ts) \<noteq> [] \<and> last (join '', '' (map spelled ts)) = dquote"
proof (induction ts)
  case (Cons t ts) then show ?case
    by (cases "ts = []") (simp_all add: join_Cons, simp_all add: spelled_def)
qed simp

lemma joined_not_any:
  assumes "list_all spellable ts" "ts \<noteq> []"
  shows "trim (join '', '' (map spelled ts)) \<noteq> ANY"
proof
  assume a: "trim (join '', '' (map spelled ts)) = ANY"
  let ?s = "join '', '' (map spelled ts)"
  obtain t us where ts: "ts = t # us" using assms(2) by (cases ts) auto
  have h: "is_ascii_graphic (hd ?s)" "hd ?s \<noteq> CHR ''*''"
    unfolding ts by (cases "us = []"; simp add: join_Cons spelled_def is_ascii_graphic_def)+
  have l: "?s \<noteq> [] \<and> last ?s = dquote" using assms(2) by (rule last_joined)
  have "trim ?s = ?s" by (rule trim_id) (use h l in \<open>simp add: is_ascii_graphic_def\<close>)
  then have "?s = ''*''" using a by (simp add: ANY_def)
  then show False using h(2) by (metis list.sel(1))
qed

section \<open>Properties\<close>

text \<open>C8: \<open>If-None-Match\<close> and \<open>If-Match\<close> decide on the tags listed. For a field line listing any tags
  the encoder can spell, \<open>If-None-Match\<close> matches the current tag exactly when one of them has its
  opaque value (weak comparison), and \<open>If-Match\<close> exactly when one of them is the very same strong tag;
  commas inside a tag separate nothing.\<close>

theorem tag_list_decides:
  assumes "header_map_laws H" "ts \<noteq> []" "list_all spellable ts" "spellable c"
    and "field = join '', '' (map (\<lambda>t. the (etag_encode H t)) ts)"
    and "current = the (etag_encode H c)"
  shows "(tag_matches H field current \<longleftrightarrow> (\<exists>t\<in>set ts. tag_value t = tag_value c)) \<and>
         (matches_strongly H field (Some current) \<longleftrightarrow> c \<in> set ts \<and> \<not> weak c)"
proof -
  have m: "map (\<lambda>t. the (etag_encode H t)) ts = map spelled ts" "current = spelled c"
    using assms by (auto simp: etag_encode_spelled list_all_iff)
  then have f: "field = join '', '' (map spelled ts)" "current = spelled c"
    using assms(5) unfolding m(1) by auto
  have text': "to_str H field = Some field"
    using f header_map_lawsD(5) [OF assms(1)] joined_visible [OF assms(3)] by simp
  have any: "trim field \<noteq> ANY" using f joined_not_any [OF assms(3,2)] by simp
  show ?thesis
    using any text' etag_split_joined [OF assms(3,2)] f
    by (auto simp: tag_matches_def tag_names_def listed_def matches_strongly_def list_ex_iff
        weak_match_spelled strong_match_spelled)
qed

theorem tag_list_decides_witness:
  "tag_matches fun_headers (join '', '' (map (\<lambda>t. the (etag_encode fun_headers t))
     [etag_weak ''a,b'', etag_strong ''c''])) (the (etag_encode fun_headers (etag_strong ''a,b'')))"
proof -
  have "list_all spellable [etag_weak ''a,b'', etag_strong ''c'']" "spellable (etag_strong ''a,b'')"
    by (simp_all add: spellable_def etag_weak_def etag_strong_def is_etagc_def)
  from tag_list_decides [OF fun_headers_laws _ this refl refl] show ?thesis
    by (simp add: etag_weak_def etag_strong_def)
qed

end
