(* ===== verification/Byte_Range.thy ===== *)
theory Byte_Range
  imports Entity_Tag "HOL-Library.Multiset"
begin

text \<open>
  Range requests, \<open>src/crates/kynos/src/response/range/\<close>: reading the \<open>Range\<close> field (\<open>spec.rs\<close>),
  resolving what it asks against a representation's length, choosing the part a 206 carries
  (\<open>mod.rs\<close>), coalescing the parts of a multipart one (\<open>parts.rs\<close>), rendering \<open>Content-Range\<close>
  (\<open>headers.rs\<close>) and cutting octets (\<open>rangeable.rs\<close>). A \<open>u64\<close> is a \<open>nat\<close> with the saturation of the
  source written out; a \<open>Result\<close> is a sum, \<open>Inl\<close> its error.
\<close>

section \<open>The field\<close>

datatype ignored =
  Absent | Repeated | MethodUndefined | Conditional | UnknownUnit | Malformed | TooManyRanges
| EmptyRepresentation

datatype spec = Offsets (spec_first: nat) (spec_last: "nat option") | Suffix (suffix_length: nat)

definition MAX_RANGES :: nat where "MAX_RANGES = 8"
definition UNIT :: string where "UNIT = ''bytes''"

definition range_digits :: "string \<Rightarrow> nat option" where
  "range_digits written =
     (if written = [] \<or> \<not> list_all is_ascii_digit written then None
      else Some (foldl (\<lambda>value b.
             if value * 10 \<le> u64_max \<and> value * 10 + digit_val b \<le> u64_max
             then value * 10 + digit_val b else u64_max) 0 written))"

definition range_spec :: "string \<Rightarrow> ignored + spec" where
  "range_spec written =
     (case strip_prefix ''-'' written of
        Some len \<Rightarrow>
          (case range_digits len of Some len \<Rightarrow> Inr (Suffix len) | None \<Rightarrow> Inl Malformed)
      | None \<Rightarrow>
          (case split_once CHR ''-'' written of
             None \<Rightarrow> Inl Malformed
           | Some (first, final) \<Rightarrow>
               (case range_digits first of
                  None \<Rightarrow> Inl Malformed
                | Some first \<Rightarrow>
                    if final = [] then Inr (Offsets first None)
                    else (case range_digits final of
                            None \<Rightarrow> Inl Malformed
                          | Some final \<Rightarrow>
                              if final < first then Inl Malformed
                              else Inr (Offsets first (Some final))))))"

text \<open>\<open>collect::<Result<Vec<_>, _>>\<close>: the first error, or every value.\<close>

fun collect_results :: "('e + 'a) list \<Rightarrow> 'e + 'a list" where
  "collect_results [] = Inr []"
| "collect_results (Inl e # rs) = Inl e"
| "collect_results (Inr x # rs) =
     (case collect_results rs of Inl e \<Rightarrow> Inl e | Inr xs \<Rightarrow> Inr (x # xs))"

definition is_sp_or_tab :: "char \<Rightarrow> bool" where
  "is_sp_or_tab c \<longleftrightarrow> c = CHR '' '' \<or> byte c = 9"

definition range_parse :: "string \<Rightarrow> ignored + spec list" where
  "range_parse value =
     (case split_once CHR ''='' (trim value) of
        None \<Rightarrow> Inl Malformed
      | Some (unit, ranges) \<Rightarrow>
          if \<not> eq_nocase (trim unit) UNIT then Inl UnknownUnit
          else
            let written = filter (\<lambda>e. e \<noteq> []) (map (trim_with is_sp_or_tab) (split CHR '','' ranges))
            in if written = [] then Inl Malformed
               else if length written > MAX_RANGES then Inl TooManyRanges
               else collect_results (map range_spec written))"

definition range_holds ::
  "('h, 'x) header_map_scheme \<Rightarrow> string \<Rightarrow> string option \<Rightarrow> bool" where
  "range_holds H condition validator =
     (case (to_str H condition, validator) of
        (Some condition, Some validator) \<Rightarrow> strong_match (trim condition) validator
      | _ \<Rightarrow> False)"

definition range_read ::
  "('h, 'x) header_map_scheme \<Rightarrow> string \<Rightarrow> 'h \<Rightarrow> string option \<Rightarrow> ignored + spec list" where
  "range_read H method headers validator =
     (case get_all H headers ''range'' of
        [] \<Rightarrow> Inl Absent
      | value # others \<Rightarrow>
          if method \<noteq> ''GET'' then Inl MethodUndefined
          else if others \<noteq> [] then Inl Repeated
          else if (case get_first H headers ''if-range'' of
                     Some condition \<Rightarrow> \<not> range_holds H condition validator
                   | None \<Rightarrow> False) then Inl Conditional
          else (case to_str H value of
                  None \<Rightarrow> Inl Malformed
                | Some value \<Rightarrow> range_parse value))"

section \<open>Resolution and selection\<close>

definition resolve_one :: "spec \<Rightarrow> nat \<Rightarrow> (nat \<times> nat) option" where
  "resolve_one spec complete_length =
     (let end' = complete_length - 1
      in case spec of
           Offsets first final \<Rightarrow>
             if first \<ge> complete_length then None
             else (case final of None \<Rightarrow> Some (first, end') | Some final \<Rightarrow> Some (first, min final end'))
         | Suffix len \<Rightarrow> if len = 0 then None else Some (complete_length - len, end'))"

definition resolve :: "spec list \<Rightarrow> nat \<Rightarrow> (nat \<times> nat) list" where
  "resolve specs complete_length =
     (if complete_length = 0 then []
      else filter_map (\<lambda>spec. resolve_one spec complete_length) specs)"

datatype selection =
  Whole ignored
| Part (part_first: nat) (part_last: nat) (part_complete: nat)

datatype range_rejection = NotSatisfiable nat

fun selection_status :: "selection \<Rightarrow> nat" where
  "selection_status (Whole _) = 200"
| "selection_status (Part _ _ _) = 206"

definition applicable :: "ignored + spec list \<Rightarrow> nat \<Rightarrow> selection + spec list" where
  "applicable requested complete_length =
     (case requested of
        Inl reason \<Rightarrow> Inl (Whole reason)
      | Inr specs \<Rightarrow> if complete_length = 0 then Inl (Whole EmptyRepresentation) else Inr specs)"

definition range_select :: "ignored + spec list \<Rightarrow> nat \<Rightarrow> range_rejection + selection" where
  "range_select requested complete_length =
     (case applicable requested complete_length of
        Inl whole \<Rightarrow> Inr whole
      | Inr specs \<Rightarrow>
          (case find_map (\<lambda>spec. resolve_one spec complete_length) specs of
             None \<Rightarrow> Inl (NotSatisfiable complete_length)
           | Some (first, final) \<Rightarrow> Inr (Part first final complete_length)))"

definition range_ignored :: "ignored + spec list \<Rightarrow> ignored option" where
  "range_ignored requested = (case requested of Inl e \<Rightarrow> Some e | Inr _ \<Rightarrow> None)"

text \<open>\<open>clamped\<close>: the octets from \<open>first\<close> to \<open>last\<close>, both clamped to the length (a \<open>usize\<close> is 64 bits).\<close>

definition clamped :: "string \<Rightarrow> nat \<Rightarrow> nat \<Rightarrow> string" where
  "clamped octets first final =
     (let len = length octets;
          start = min first len;
          end' = (if final + 1 \<le> u64_max then final + 1 else len);
          end' = max start (min end' len)
      in take (end' - start) (drop start octets))"

definition cut :: "string \<Rightarrow> selection \<Rightarrow> string" where
  "cut whole selection =
     (case selection of Whole _ \<Rightarrow> whole | Part first final _ \<Rightarrow> clamped whole first final)"

definition range_apply :: "ignored + spec list \<Rightarrow> string \<Rightarrow> range_rejection + (string \<times> selection)" where
  "range_apply requested whole =
     (case range_select requested (length whole) of
        Inl e \<Rightarrow> Inl e
      | Inr selection \<Rightarrow> Inr (cut whole selection, selection))"

section \<open>Content-Range\<close>

datatype content_range = Satisfied nat nat nat | Unsatisfied nat

fun field_value :: "content_range \<Rightarrow> string" where
  "field_value (Satisfied first final complete_length) =
     ''bytes '' @ decimal first @ ''-'' @ decimal final @ ''/'' @ decimal complete_length"
| "field_value (Unsatisfied complete_length) = ''bytes */'' @ decimal complete_length"

fun rejection_content_range :: "range_rejection \<Rightarrow> content_range" where
  "rejection_content_range (NotSatisfiable complete_length) = Unsatisfied complete_length"

section \<open>Several parts\<close>

datatype selected = Single selection | Several "(nat \<times> nat) list" nat

fun selected_status :: "selected \<Rightarrow> nat" where
  "selected_status (Single selection) = selection_status selection"
| "selected_status (Several _ _) = 206"

definition positioned :: "spec list \<Rightarrow> nat \<Rightarrow> ((nat \<times> nat) \<times> nat) list" where
  "positioned specs complete_length =
     (if complete_length = 0 then []
      else filter_map (\<lambda>(pos, spec).
             map_option (\<lambda>range. (range, pos)) (resolve_one spec complete_length))
           (enumerate 0 specs))"

text \<open>The merging loop; the accumulator holds \<open>merged\<close> backwards, its head is \<open>last_mut()\<close>.\<close>

fun merge_step ::
  "((nat \<times> nat) \<times> nat) list \<Rightarrow> (nat \<times> nat) \<times> nat \<Rightarrow> ((nat \<times> nat) \<times> nat) list" where
  "merge_step [] ((first, final), pos) = [((first, final), pos)]"
| "merge_step (((f, previous_last), earliest) # merged) ((first, final), pos) =
     (if first \<le> sat_add previous_last 1
      then ((f, max previous_last final), min earliest pos) # merged
      else ((first, final), pos) # ((f, previous_last), earliest) # merged)"

definition coalesce :: "spec list \<Rightarrow> nat \<Rightarrow> (nat \<times> nat) list" where
  "coalesce specs complete_length =
     (let resolved = sort (positioned specs complete_length);
          merged = rev (foldl merge_step [] resolved)
      in map fst (sort_key snd merged))"

definition select_parts :: "ignored + spec list \<Rightarrow> nat \<Rightarrow> range_rejection + selected" where
  "select_parts requested complete_length =
     (case applicable requested complete_length of
        Inl whole \<Rightarrow> Inr (Single whole)
      | Inr specs \<Rightarrow>
          (case coalesce specs complete_length of
             [] \<Rightarrow> Inl (NotSatisfiable complete_length)
           | [(first, final)] \<Rightarrow> Inr (Single (Part first final complete_length))
           | merged \<Rightarrow> Inr (Several merged complete_length)))"

section \<open>Lemmas\<close>

lemma range_digits_saturates:
  "range_digits s = (if s \<noteq> [] \<and> list_all is_ascii_digit s then Some (min u64_max (dec_val s)) else None)"
proof -
  have "foldl (\<lambda>value b.
             if value * 10 \<le> u64_max \<and> value * 10 + digit_val b \<le> u64_max
             then value * 10 + digit_val b else u64_max) 0 s = min u64_max (dec_val s)"
    by (induction s rule: rev_induct) (auto simp: min_def)
  then show ?thesis by (simp add: range_digits_def)
qed

fun spec_wf :: "spec \<Rightarrow> bool" where
  "spec_wf (Offsets f (Some l)) \<longleftrightarrow> f \<le> l"
| "spec_wf _ \<longleftrightarrow> True"

lemma range_spec_wf: "range_spec w = Inr s \<Longrightarrow> spec_wf s"
  by (auto simp: range_spec_def split: option.splits if_splits prod.splits)

lemma collect_results_Inr: "collect_results rs = Inr xs \<Longrightarrow> rs = map Inr xs"
  by (induction rs arbitrary: xs rule: collect_results.induct) (auto split: sum.splits)

lemma range_parse_wf: "range_parse v = Inr specs \<Longrightarrow> list_all spec_wf specs"
proof -
  assume "range_parse v = Inr specs"
  then obtain written where "collect_results (map range_spec written) = Inr specs"
    unfolding range_parse_def Let_def by (auto split: option.splits if_splits)
  then have m: "map range_spec written = map Inr specs" by (rule collect_results_Inr)
  have "spec_wf s" if "s \<in> set specs" for s
  proof -
    have "Inr s \<in> set (map range_spec written)" unfolding m using that by simp
    then obtain w where "range_spec w = Inr s" by auto
    then show ?thesis by (rule range_spec_wf)
  qed
  then show "list_all spec_wf specs" by (simp add: list_all_iff)
qed

lemma resolve_one_bounds:
  "resolve_one s n = Some (f, l) \<Longrightarrow> spec_wf s \<Longrightarrow> 0 < n \<Longrightarrow> f \<le> l \<and> l < n"
  by (cases s rule: spec_wf.cases) (auto simp: resolve_one_def Let_def split: if_splits)

lemma range_select_bounds:
  assumes "range_select requested n = Inr (Part f l m)"
    and "\<And>specs. requested = Inr specs \<Longrightarrow> list_all spec_wf specs"
  shows "m = n \<and> f \<le> l \<and> l < n"
proof -
  obtain specs where specs: "requested = Inr specs" "0 < n" "m = n"
    "find_map (\<lambda>spec. resolve_one spec n) specs = Some (f, l)"
    using assms(1)
    by (auto simp: range_select_def applicable_def split: sum.splits if_splits option.splits)
  obtain s where "s \<in> set specs" "resolve_one s n = Some (f, l)"
    using find_map_Some [OF specs(4)] by blast
  then show ?thesis
    using resolve_one_bounds [of s n f l] assms(2) [OF specs(1)] specs by (auto simp: list_all_iff)
qed

lemma clamped_within:
  assumes "f \<le> l" "l < length w" "length w \<le> u64_max"
  shows "clamped w f l = take (l - f + 1) (drop f w) \<and> length (clamped w f l) = l - f + 1"
  using assms by (auto simp: clamped_def Let_def min_def max_def Suc_diff_le)

text \<open>The octets a range, or a list of ranges, covers.\<close>

definition covers :: "(nat \<times> nat) list \<Rightarrow> nat set" where
  "covers rs = (\<Union>(f, l)\<in>set rs. {f..l})"

definition apart :: "nat \<times> nat \<Rightarrow> nat \<times> nat \<Rightarrow> bool" where
  "apart a b \<longleftrightarrow> snd a + 1 < fst b \<or> snd b + 1 < fst a"

lemma sorted_wrt_pairwise:
  "distinct ys \<Longrightarrow> (\<forall>x\<in>set ys. \<forall>y\<in>set ys. x \<noteq> y \<longrightarrow> R x y) \<Longrightarrow> sorted_wrt R ys"
  by (induction ys) auto

lemma sorted_wrt_distinct:
  "sorted_wrt R xs \<Longrightarrow> (\<forall>x\<in>set xs. \<not> R x x) \<Longrightarrow> distinct xs"
  by (induction xs) auto

lemma sorted_wrt_sym:
  "sorted_wrt R xs \<Longrightarrow> (\<And>x y. R x y \<Longrightarrow> R y x) \<Longrightarrow> x \<in> set xs \<Longrightarrow> y \<in> set xs \<Longrightarrow> x \<noteq> y \<Longrightarrow> R x y"
  by (induction xs) auto

text \<open>The loop invariant of the merge: the ranges merged so far, last one first, are non-empty, leave
  a gap between any two of them, and cover what was taken in.\<close>

definition merged_inv :: "((nat \<times> nat) \<times> nat) list \<Rightarrow> bool" where
  "merged_inv acc \<longleftrightarrow>
     (\<forall>r\<in>set acc. fst (fst r) \<le> snd (fst r) \<and> snd (fst r) < u64_max) \<and>
     sorted_wrt (\<lambda>x y. snd (fst y) + 1 < fst (fst x)) acc"

lemma merge_step_inv:
  assumes "merged_inv acc" "f \<le> l" "l < u64_max" "\<forall>r\<in>set acc. fst (fst r) \<le> f"
  shows "merged_inv (merge_step acc ((f, l), p))" (is ?inv)
    and "covers (map fst (merge_step acc ((f, l), p))) = covers (map fst acc) \<union> {f..l}" (is ?cov)
    and "\<forall>r\<in>set (merge_step acc ((f, l), p)). fst (fst r) \<le> f" (is ?le)
proof -
  show ?inv
  proof (cases acc)
    case Nil then show ?thesis using assms by (simp add: merged_inv_def)
  next
    case (Cons a rest)
    then show ?thesis
      using assms by (cases a; cases "fst a") (fastforce simp: merged_inv_def sat_add_def)
  qed
  show ?cov
  proof (cases acc)
    case Nil then show ?thesis by (simp add: covers_def)
  next
    case (Cons a rest)
    obtain g m e where a: "a = ((g, m), e)" by (metis prod.collapse)
    have gm: "g \<le> m" "m < u64_max" "g \<le> f" using assms Cons a by (auto simp: merged_inv_def)
    have "{g..max m l} = {g..m} \<union> {f..l}" if "f \<le> m + 1" using that gm assms(2) by auto
    then show ?thesis using Cons a gm by (auto simp: covers_def sat_add_def)
  qed
  show ?le
  proof (cases acc)
    case (Cons a rest)
    then have "\<forall>r\<in>set rest. fst (fst r) \<le> f" "fst (fst a) \<le> f" using assms(4) by auto
    then show ?thesis by (cases a; cases "fst a") (simp add: Cons)
  qed simp
qed

lemma merge_fold:
  assumes "sorted rs" "\<forall>r\<in>set rs. fst (fst r) \<le> snd (fst r) \<and> snd (fst r) < u64_max"
    and "merged_inv acc" "\<forall>r\<in>set acc. \<forall>s\<in>set rs. fst (fst r) \<le> fst (fst s)"
  shows "merged_inv (foldl merge_step acc rs) \<and>
         covers (map fst (foldl merge_step acc rs)) = covers (map fst acc) \<union> covers (map fst rs)"
  using assms
proof (induction rs arbitrary: acc)
  case Nil then show ?case by (simp add: covers_def)
next
  case (Cons r rs)
  obtain f l p where r: "r = ((f, l), p)" by (metis prod.collapse)
  note step = merge_step_inv [of acc f l p]
  have pre: "merged_inv acc" "f \<le> l" "l < u64_max" "\<forall>r\<in>set acc. fst (fst r) \<le> f"
    using Cons.prems r by auto
  have first: "\<forall>s\<in>set rs. f \<le> fst (fst s)"
    using Cons.prems(1) r by (fastforce simp: less_eq_prod_def)
  have "merged_inv (foldl merge_step (merge_step acc r) rs) \<and>
        covers (map fst (foldl merge_step (merge_step acc r) rs))
          = covers (map fst (merge_step acc r)) \<union> covers (map fst rs)"
  proof (rule Cons.IH)
    show "sorted rs" using Cons.prems(1) by simp
    show "\<forall>r\<in>set rs. fst (fst r) \<le> snd (fst r) \<and> snd (fst r) < u64_max" using Cons.prems(2) by simp
    show "merged_inv (merge_step acc r)" unfolding r by (rule step(1) [OF pre])
    show "\<forall>q\<in>set (merge_step acc r). \<forall>s\<in>set rs. fst (fst q) \<le> fst (fst s)"
      unfolding r using step(3) [OF pre] first le_trans by blast
  qed
  moreover have "covers (map fst (r # rs)) = {f..l} \<union> covers (map fst rs)"
    by (simp add: covers_def r)
  ultimately show ?case using step(2) [OF pre] r by auto
qed

lemma positioned_mem:
  "r \<in> set (positioned specs n) \<Longrightarrow> 0 < n \<and> (\<exists>s\<in>set specs. resolve_one s n = Some (fst r))"
  by (auto simp: positioned_def set_filter_map in_set_enumerate_eq split: if_splits)

lemma positioned_covers:
  "covers (map fst (positioned specs n)) = covers (resolve specs n)"
proof -
  have "map fst (filter_map (\<lambda>(p, s). map_option (\<lambda>r. (r, p)) (resolve_one s n)) (enumerate k specs))
      = filter_map (\<lambda>s. resolve_one s n) specs" for k
    by (induction specs arbitrary: k) (auto split: option.splits)
  then show ?thesis by (simp add: positioned_def resolve_def)
qed

lemma coalesce_correct:
  assumes "list_all spec_wf specs" "n \<le> u64_max"
  shows "covers (coalesce specs n) = covers (resolve specs n)"
    and "sorted_wrt apart (coalesce specs n)"
    and "\<forall>(f, l)\<in>set (coalesce specs n). f \<le> l \<and> l < n"
proof -
  define acc where "acc = foldl merge_step [] (sort (positioned specs n))"
  have bounds: "fst (fst r) \<le> snd (fst r) \<and> snd (fst r) < n \<and> snd (fst r) < u64_max"
    if "r \<in> set (positioned specs n)" for r
    using positioned_mem [OF that] resolve_one_bounds assms
    by (metis (no_types, lifting) list_all_iff less_le_trans prod.collapse)
  have fold: "merged_inv acc" "covers (map fst acc) = covers (map fst (positioned specs n))"
    using merge_fold [of "sort (positioned specs n)" "[]"] bounds
    by (auto simp: acc_def merged_inv_def covers_def)
  have co: "coalesce specs n = map fst (sort_key snd (rev acc))"
    by (simp add: coalesce_def acc_def Let_def)
  show cov: "covers (coalesce specs n) = covers (resolve specs n)"
    using fold(2) positioned_covers by (simp add: co covers_def)
  have wf: "\<forall>r\<in>set acc. fst (fst r) \<le> snd (fst r)" using fold(1) by (simp add: merged_inv_def)
  have "sorted_wrt (\<lambda>x y. snd y + 1 < fst x) (map fst acc)"
    using fold(1) by (simp add: merged_inv_def sorted_wrt_map)
  then have ap: "sorted_wrt apart (map fst acc)"
    by (rule sorted_wrt_mono_rel [rotated]) (simp add: apart_def)
  have irr: "\<forall>r\<in>set (map fst acc). \<not> apart r r" using wf by (auto simp: apart_def)
  have dist: "distinct (map fst acc)" using ap irr by (rule sorted_wrt_distinct)
  have ms: "mset (coalesce specs n) = mset (map fst acc)" by (simp add: co)
  have "distinct (coalesce specs n)" using dist ms by (metis mset_eq_imp_distinct_iff)
  moreover have "set (coalesce specs n) = set (map fst acc)" using ms by (metis set_mset_mset)
  moreover have "apart x y \<Longrightarrow> apart y x" for x y by (auto simp: apart_def)
  ultimately show "sorted_wrt apart (coalesce specs n)"
    using sorted_wrt_sym [OF ap] by (intro sorted_wrt_pairwise) auto
  show "\<forall>(f, l)\<in>set (coalesce specs n). f \<le> l \<and> l < n"
  proof safe
    fix f l assume fl: "(f, l) \<in> set (coalesce specs n)"
    then have "(f, l) \<in> set (map fst acc)" using \<open>set (coalesce specs n) = set (map fst acc)\<close> by simp
    then show "f \<le> l" using wf by auto
    then have "l \<in> covers (coalesce specs n)" using fl by (force simp: covers_def)
    then obtain g m where "(g, m) \<in> set (resolve specs n)" "l \<le> m" unfolding cov by (auto simp: covers_def)
    then show "l < n"
      using resolve_one_bounds assms(1)
      by (fastforce simp: resolve_def set_filter_map list_all_iff split: if_splits)
  qed
qed

section \<open>Properties\<close>

text \<open>C1: a 206 carries exactly the part it names. Whatever the \<open>Range\<close> field said, when applying it
  to a representation selects a part, that part lies inside the representation, its stated complete
  length is the representation's, and the body is precisely the octets from \<open>first\<close> to \<open>last\<close>.\<close>

theorem range_part_exact:
  assumes "range_apply (range_parse field) whole = Inr (body, Part first final n)"
    and "length whole \<le> u64_max"
  shows "n = length whole \<and> first \<le> final \<and> final < n \<and>
         body = take (final - first + 1) (drop first whole) \<and> length body = final - first + 1"
proof -
  have sel: "range_select (range_parse field) (length whole) = Inr (Part first final n)"
    and body: "body = clamped whole first final"
    using assms(1) by (auto simp: range_apply_def cut_def split: sum.splits)
  have "n = length whole \<and> first \<le> final \<and> final < length whole"
    by (rule range_select_bounds [OF sel]) (rule range_parse_wf)
  then show ?thesis using clamped_within [of first final whole] assms(2) unfolding body by metis
qed

theorem range_part_exact_witness:
  "range_apply (range_parse ''bytes=2-40, -1'') ''abcdef'' = Inr (''cdef'', Part 2 5 6)"
proof -
  have p: "range_parse ''bytes=2-40, -1'' = Inr [Offsets 2 (Some 40), Suffix 1]"
  proof -
    have "trim ''bytes=2-40, -1'' = ''bytes=2-40, -1''"
      by (rule trim_id) (simp add: is_ascii_graphic_def)
    moreover have "trim ''bytes'' = ''bytes''" by (rule trim_id) (simp add: is_ascii_graphic_def)
    ultimately show ?thesis
      by (simp add: range_parse_def UNIT_def trim_with_def trim_end_with_def is_sp_or_tab_def
          range_spec_def range_digits_def is_ascii_digit_def digit_val_def u64_max_def MAX_RANGES_def)
  qed
  have a: "range_apply (range_parse ''bytes=2-40, -1'') ''abcdef'' = Inr (clamped ''abcdef'' 2 5, Part 2 5 6)"
    by (simp add: p range_apply_def range_select_def applicable_def resolve_one_def cut_def eval_nat_numeral)
  moreover have "length ''abcdef'' \<le> u64_max" by (simp add: u64_max_def)
  ultimately have "clamped ''abcdef'' 2 5 = take (5 - 2 + 1) (drop 2 ''abcdef'')"
    using range_part_exact [of "''bytes=2-40, -1''" "''abcdef''" "clamped ''abcdef'' 2 5" 2 5 6] by blast
  then show ?thesis using a by simp
qed

text \<open>C5: coalescing keeps every octet asked for and no other. The parts of a multipart answer cover
  exactly the octets the satisfiable ranges of the field resolve to, each lies inside the
  representation, and any two of them are separated by at least one octet, so no octet is sent twice.\<close>

theorem coalesce_exact:
  assumes "range_parse field = Inr specs" "n \<le> u64_max"
  shows "covers (coalesce specs n) = covers (resolve specs n) \<and>
         sorted_wrt apart (coalesce specs n) \<and>
         (\<forall>(first, final)\<in>set (coalesce specs n). first \<le> final \<and> final < n)"
  using coalesce_correct [OF range_parse_wf [OF assms(1)] assms(2)] by blast

theorem coalesce_exact_witness:
  "covers (coalesce [Suffix 1] 6) = covers (resolve [Suffix 1] 6)"
proof -
  have "trim ''bytes=-1'' = ''bytes=-1''" "trim ''bytes'' = ''bytes''"
    by (rule trim_id, simp add: is_ascii_graphic_def)+
  then have "range_parse ''bytes=-1'' = Inr [Suffix 1]"
    by (simp add: range_parse_def UNIT_def trim_with_def trim_end_with_def is_sp_or_tab_def
        range_spec_def range_digits_def is_ascii_digit_def digit_val_def u64_max_def MAX_RANGES_def)
  moreover have "(6 :: nat) \<le> u64_max" by (simp add: u64_max_def)
  ultimately show ?thesis using coalesce_exact by blast
qed

text \<open>A last position smaller than the first is read as a valid spec when both exceed \<open>u64::MAX\<close>,
  since the comparison comes after the saturation.\<close>

lemma saturated_inverted_spec:
  "range_spec ''18446744073709551620-18446744073709551617'' = Inr (Offsets u64_max (Some u64_max))"
  by (simp add: range_spec_def range_digits_def is_ascii_digit_def digit_val_def u64_max_def)

end
