(* ===== verification/Byte_Source.thy ===== *)
theory Byte_Source
  imports Byte_Range
begin

text \<open>
  \<open>src/crates/kynos/src/response/range/source.rs\<close>: a body read from a byte source one span at a time.
  The source is the interface \<open>byte_source\<close>, the contract of the trait \<open>ByteSource\<close>; \<open>Spans\<close> is the
  state machine that polls it. The in-memory source of the same file is an instance.

  A poll is given what polling the pending read answers (\<open>None\<close> while it is pending) and, for an
  in-memory source, its octets.
\<close>

section \<open>The state machine\<close>

definition SPAN :: nat where "SPAN = 64 * 1024"

datatype 'e body_error = Truncated nat nat | Source_error 'e

datatype 'a poll = Pending | Ready 'a

record spans =
  cursor :: nat
  spans_last :: nat
  reading :: bool

definition spans_new :: "nat \<Rightarrow> nat \<Rightarrow> spans" where
  "spans_new first final = \<lparr>cursor = first, spans_last = final, reading = False\<rparr>"

definition span :: "spans \<Rightarrow> nat \<times> nat" where
  "span s = (cursor s, min (spans_last s) (sat_add (cursor s) (SPAN - 1)))"

definition exhausted :: "spans \<Rightarrow> bool" where
  "exhausted s \<longleftrightarrow> cursor s > spans_last s"

definition answer_span :: "'e + string \<Rightarrow> spans \<Rightarrow> ('e body_error + string) \<times> spans" where
  "answer_span r s =
     (case r of
        Inr octets \<Rightarrow>
          if octets = [] then
            let (first, final) = span s
            in (Inl (Truncated first final), s\<lparr>cursor := sat_add (spans_last s) 1\<rparr>)
          else
            let (first, final) = span s;
                octets = take (final - first + 1) octets
            in (Inr octets, s\<lparr>cursor := sat_add (cursor s) (length octets)\<rparr>)
      | Inl error \<Rightarrow> (Inl (Source_error error), s))"

definition poll_reading ::
  "('e + string) option \<Rightarrow> spans \<Rightarrow> ('e body_error + string) option poll \<times> spans" where
  "poll_reading outcome s =
     (case outcome of
        None \<Rightarrow> (Pending, s)
      | Some r \<Rightarrow> let (frame, s) = answer_span r (s\<lparr>reading := False\<rparr>) in (Ready (Some frame), s))"

definition poll_frame ::
  "string option \<Rightarrow> (nat \<Rightarrow> nat \<Rightarrow> ('e + string) option) \<Rightarrow> spans \<Rightarrow>
   ('e body_error + string) option poll \<times> spans" where
  "poll_frame in_memory read_span s =
     (let (first, final) = span s
      in if reading s then poll_reading (read_span first final) s
         else if exhausted s then (Ready None, s)
         else (case in_memory of
                 Some octets \<Rightarrow>
                   let (frame, s) = answer_span (Inr (clamped octets first final)) s
                   in (Ready (Some frame), s)
               | None \<Rightarrow> poll_reading (read_span first final) (s\<lparr>reading := True\<rparr>)))"

definition size_hint :: "spans \<Rightarrow> nat" where
  "size_hint s = (if exhausted s then 0 else sat_add (spans_last s - cursor s) 1)"

definition in_memory_read :: "string \<Rightarrow> nat \<Rightarrow> nat \<Rightarrow> 'e + string" where
  "in_memory_read octets first final = Inr (clamped octets first final)"

text \<open>Driving the body to its end, every read ready when polled: the frames sent, and the error that
  stopped it if any. The fuel is the number of polls.\<close>

fun drain ::
  "nat \<Rightarrow> string option \<Rightarrow> (nat \<Rightarrow> nat \<Rightarrow> 'e + string) \<Rightarrow> spans \<Rightarrow>
   (string list \<times> 'e body_error option) option" where
  "drain 0 mem read s = None"
| "drain (Suc n) mem read s =
     (case poll_frame mem (\<lambda>f l. Some (read f l)) s of
        (Pending, s') \<Rightarrow> None
      | (Ready None, s') \<Rightarrow> Some ([], None)
      | (Ready (Some (Inl e)), s') \<Rightarrow> Some ([], Some e)
      | (Ready (Some (Inr frame)), s') \<Rightarrow>
          map_option (\<lambda>(frames, e). (frame # frames, e)) (drain n mem read s'))"

section \<open>The contract of a source\<close>

text \<open>\<open>read_span\<close> answers with the octets asked for: at least one of them, starting with the first,
  possibly fewer than asked for and possibly followed by others.\<close>

locale byte_source =
  fixes content :: "'s \<Rightarrow> string"
    and read_span :: "'s \<Rightarrow> nat \<Rightarrow> nat \<Rightarrow> 'e + string"
    and valid :: "'s \<Rightarrow> bool"
  assumes size: "valid src \<Longrightarrow> length (content src) \<le> u64_max"
    and read_some: "valid src \<Longrightarrow> f \<le> l \<Longrightarrow> l < length (content src) \<Longrightarrow>
      \<exists>d. read_span src f l = Inr d \<and> d \<noteq> [] \<and>
          take (l - f + 1) d = take (length (take (l - f + 1) d)) (drop f (content src))"
begin

lemma one_poll:
  assumes "valid src" "\<not> reading s" "cursor s \<le> spans_last s" "spans_last s < length (content src)"
  obtains frame where
    "poll_frame None (\<lambda>f l. Some (read_span src f l)) s =
       (Ready (Some (Inr frame)), s\<lparr>cursor := cursor s + length frame\<rparr>)"
    "frame \<noteq> []" "length frame \<le> SPAN" "cursor s + length frame \<le> spans_last s + 1"
    "frame = take (length frame) (drop (cursor s) (content src))"
proof -
  obtain f l where fl: "span s = (f, l)" by (cases "span s")
  have small: "cursor s \<le> u64_max" using assms(3,4) size [OF assms(1)] by linarith
  have fl': "f = cursor s" "f \<le> l" "l \<le> spans_last s" "l - f + 1 \<le> SPAN"
    using fl assms(3) small by (auto simp: span_def sat_add_def SPAN_def)
  then obtain d where d: "read_span src f l = Inr d" "d \<noteq> []"
    "take (l - f + 1) d = take (length (take (l - f + 1) d)) (drop f (content src))"
    using read_some [of src f l] assms(1,4) by auto
  let ?frame = "take (l - f + 1) d"
  have len: "length ?frame \<le> l - f + 1" by simp
  have "f + length ?frame \<le> length (content src)" using len fl' assms(4) by linarith
  then have sat: "sat_add f (length ?frame) = f + length ?frame"
    using size [OF assms(1)] by (simp add: sat_add_def)
  have "poll_frame None (\<lambda>f l. Some (read_span src f l)) s =
      (Ready (Some (Inr ?frame)), s\<lparr>cursor := f + length ?frame\<rparr>)"
    using assms(2,3) d(1,2) fl sat fl'(1)
    by (cases s) (simp add: poll_frame_def exhausted_def poll_reading_def answer_span_def span_def)
  moreover have "?frame \<noteq> []" using d(2) by simp
  moreover have "length ?frame \<le> SPAN" using len fl'(4) by (rule le_trans)
  moreover have "cursor s + length ?frame \<le> spans_last s + 1" using len fl' by linarith
  ultimately show ?thesis using that d(3) fl'(1) by blast
qed

lemma drain_delivers:
  assumes "valid src" "\<not> reading s" "spans_last s < length (content src)"
    and "spans_last s + 1 - cursor s < fuel"
  shows "\<exists>frames. drain fuel None (read_span src) s = Some (frames, None) \<and>
           concat frames = take (spans_last s + 1 - cursor s) (drop (cursor s) (content src)) \<and>
           (\<forall>frame\<in>set frames. frame \<noteq> [] \<and> length frame \<le> SPAN)"
  using assms(2,3,4)
proof (induction fuel arbitrary: s)
  case (Suc n)
  show ?case
  proof (cases "cursor s \<le> spans_last s")
    case False
    then show ?thesis
      using Suc.prems(1) by (simp add: poll_frame_def exhausted_def span_def)
  next
    case True
    then obtain frame where frame:
      "poll_frame None (\<lambda>f l. Some (read_span src f l)) s =
         (Ready (Some (Inr frame)), s\<lparr>cursor := cursor s + length frame\<rparr>)"
      "frame \<noteq> []" "length frame \<le> SPAN" "cursor s + length frame \<le> spans_last s + 1"
      "frame = take (length frame) (drop (cursor s) (content src))"
      using one_poll assms(1) Suc.prems by blast
    let ?s = "s\<lparr>cursor := cursor s + length frame\<rparr>"
    have "spans_last ?s + 1 - cursor ?s < n"
      using Suc.prems(3) frame(2,4) True by (cases frame) auto
    then obtain frames where frames: "drain n None (read_span src) ?s = Some (frames, None)"
      "concat frames = take (spans_last ?s + 1 - cursor ?s) (drop (cursor ?s) (content src))"
      "\<forall>frame\<in>set frames. frame \<noteq> [] \<and> length frame \<le> SPAN"
      using Suc.IH [of ?s] Suc.prems by auto
    have "frame @ concat frames
        = take (length frame + (spans_last s + 1 - (cursor s + length frame)))
            (drop (cursor s) (content src))"
      using frame(5) frames(2) by (simp add: take_add add.commute)
    moreover have "length frame + (spans_last s + 1 - (cursor s + length frame)) = spans_last s + 1 - cursor s"
      using frame(4) by simp
    ultimately show ?thesis using frame(1,2,3) frames(1,3) by simp
  qed
qed simp

end

section \<open>The in-memory source\<close>

lemma in_memory_contract:
  assumes "length octets \<le> u64_max" "f \<le> l" "l < length octets"
  shows "\<exists>d. in_memory_read octets f l = Inr d \<and> d \<noteq> [] \<and>
    take (l - f + 1) d = take (length (take (l - f + 1) d)) (drop f octets)"
proof -
  have "clamped octets f l = take (l - f + 1) (drop f octets)" "length (clamped octets f l) = l - f + 1"
    using clamped_within [OF assms(2,3,1)] by auto
  then show ?thesis by (auto simp: in_memory_read_def)
qed

text \<open>The fast path for an in-memory source answers what its future would.\<close>

lemma poll_frame_in_memory:
  "\<not> reading s \<Longrightarrow>
   poll_frame (Some octets) read s = poll_frame None (\<lambda>f l. Some (in_memory_read octets f l)) s"
  by (cases s)
     (auto simp: poll_frame_def poll_reading_def in_memory_read_def exhausted_def answer_span_def span_def)

interpretation in_memory: byte_source "\<lambda>octets. octets" in_memory_read "\<lambda>octets. length octets \<le> u64_max"
  by (unfold_locales; (assumption | (rule in_memory_contract; assumption)))

section \<open>Properties\<close>



text \<open>C7: a source that stops short never ends the body as if it were complete: when a read answers
  without octets before the part is exhausted, the poll fails with \<open>Truncated\<close>, naming the span
  asked for, and the next poll ends the body.\<close>

theorem truncated_source_fails:
  assumes "\<not> reading s" "cursor s \<le> spans_last s" "spans_last s < u64_max"
  shows "\<exists>s'. poll_frame None (\<lambda>f l. Some (Inr [])) s
              = (Ready (Some (Inl (Truncated (fst (span s)) (snd (span s))))), s') \<and>
            poll_frame None read s' = (Ready None, s')"
  using assms
  by (cases s)
     (auto simp: poll_frame_def exhausted_def poll_reading_def answer_span_def span_def sat_add_def)

theorem truncated_source_fails_witness:
  "\<exists>s'. poll_frame None (\<lambda>f l. Some (Inr [])) (spans_new 3 9)
        = (Ready (Some (Inl (Truncated 3 9))), s') \<and>
      poll_frame None (\<lambda>f l. None :: (nat + string) option) s' = (Ready None, s')"
  using truncated_source_fails [of "spans_new 3 9" "\<lambda>f l. None :: (nat + string) option"]
  by (simp add: spans_new_def span_def sat_add_def SPAN_def u64_max_def)

end
