(* ===== verification/Response_Head.thy ===== *)
theory Response_Head
  imports Http_Text
begin

text \<open>
  Responses and the header groups written onto them: the response itself (\<open>http::Response\<close> with the
  framework's body), the writer of a header group and its refusal
  (\<open>src/crates/kynos/src/response/headers.rs\<close>), the problem document
  (\<open>src/crates/kynos/src/error/problem.rs\<close>) and \<open>Content-Disposition\<close>
  (\<open>src/crates/kynos/src/response/disposition.rs\<close>). A body is what it delivers: nothing, octets, a
  problem document, the span of a byte source, or octets and then a failure.
\<close>

section \<open>Responses\<close>

datatype body = Empty | Octets string | Problem_doc nat string | Span nat nat | Failing string

record 'h response =
  status :: nat
  headers :: 'h
  body :: body

definition bodiless :: "('h, 'x) header_map_scheme \<Rightarrow> nat \<Rightarrow> 'h response" where
  "bodiless H st = \<lparr>status = st, headers = new_map H, body = Empty\<rparr>"

definition problem_response :: "('h, 'x) header_map_scheme \<Rightarrow> nat \<Rightarrow> string \<Rightarrow> 'h response" where
  "problem_response H st detail =
     \<lparr>status = st, headers = insert_field H (new_map H) ''content-type'' ''application/problem+json'',
      body = Problem_doc st detail\<rparr>"

definition refused :: "('h, 'x) header_map_scheme \<Rightarrow> 'h response" where
  "refused H = problem_response H 500 ''a response header could not be encoded''"

text \<open>A header group: what \<open>encode\<close> produced, whether its fields repeat, and the names it varies on.\<close>

record group =
  encoded :: "(string \<times> string) list option"
  repeatable :: bool
  varies :: "string list"

definition write_encoded ::
  "('h, 'x) header_map_scheme \<Rightarrow> 'h \<Rightarrow> bool \<Rightarrow> string list \<Rightarrow> (string \<times> string) list \<Rightarrow> 'h" where
  "write_encoded H hs rep vs enc =
     vary_on H
       (foldl (\<lambda>hs (name, value).
          if rep then append_field H hs name value else insert_field H hs name value) hs enc)
       vs"

definition write_group :: "('h, 'x) header_map_scheme \<Rightarrow> 'h \<Rightarrow> group \<Rightarrow> 'h option" where
  "write_group H hs g =
     (case encoded g of
        None \<Rightarrow> None
      | Some enc \<Rightarrow> Some (write_encoded H hs (repeatable g) (varies g) enc))"

definition write_or_refuse :: "('h, 'x) header_map_scheme \<Rightarrow> 'h response \<Rightarrow> group \<Rightarrow> 'h response" where
  "write_or_refuse H r g =
     (case write_group H (headers r) g of
        None \<Rightarrow> refused H
      | Some hs \<Rightarrow> r\<lparr>headers := hs\<rparr>)"

lemma vary_on_nothing [simp]: "vary_on H hs [] = hs"
  by (simp add: vary_on_def Let_def)

lemma write_encoded_single:
  "write_encoded H hs False [] [(name, value)] = insert_field H hs name value"
  by (simp add: write_encoded_def)

section \<open>Content-Disposition\<close>

datatype disposition = Attachment | Inline

fun disposition_token :: "disposition \<Rightarrow> string" where
  "disposition_token Attachment = ''attachment''"
| "disposition_token Inline = ''inline''"

record content_disposition =
  disposition :: disposition
  filename :: "string option"

text \<open>\<open>ascii_fallback\<close> maps characters; over UTF-8 a continuation byte belongs to the character its
  lead byte was mapped with.\<close>

definition ascii_fallback :: "string \<Rightarrow> string" where
  "ascii_fallback name =
     map (\<lambda>c. if c = dquote \<or> c = bslash \<or> c = CHR ''%'' then CHR ''_''
              else if c = CHR '' '' then CHR '' ''
              else if is_ascii_graphic c then c
              else CHR ''_'')
         (filter (\<lambda>c. \<not> is_utf8_continuation c) name)"

text \<open>\<open>encode_ext_value\<close> percent-encodes with the \<open>percent_encoding\<close> crate, a parameter.\<close>

definition disposition_value :: "(string \<Rightarrow> string) \<Rightarrow> content_disposition \<Rightarrow> string" where
  "disposition_value encode_ext_value d =
     (let value = disposition_token (disposition d)
      in case filename d of
           None \<Rightarrow> value
         | Some name \<Rightarrow>
             let fallback = ascii_fallback name;
                 value = value @ ''; filename='' @ [dquote] @ fallback @ [dquote]
             in if fallback \<noteq> name
                then value @ ''; filename*=UTF-8'' @ [CHR 0x27, CHR 0x27] @ encode_ext_value name
                else value)"

definition disposition_group ::
  "('h, 'x) header_map_scheme \<Rightarrow> (string \<Rightarrow> string) \<Rightarrow> content_disposition \<Rightarrow> group" where
  "disposition_group H encode_ext_value d =
     \<lparr>encoded = map_option (\<lambda>v. [(''content-disposition'', v)])
                  (from_bytes H (disposition_value encode_ext_value d)),
      repeatable = False, varies = []\<rparr>"

text \<open>What the documented \<open>NON_ALPHANUMERIC\<close> set, less the marks removed from it, leaves unescaped.\<close>

definition ext_octet :: "char \<Rightarrow> bool" where
  "ext_octet c \<longleftrightarrow> is_ascii_alnum c \<or> c \<in> set ''%!#$&+-.^_`|~''"

lemma ascii_fallback_text:
  "list_all (\<lambda>c. (c = CHR '' '' \<or> is_ascii_graphic c) \<and> c \<noteq> dquote \<and> c \<noteq> bslash) (ascii_fallback name)"
  unfolding ascii_fallback_def by (induction name) (simp_all add: is_ascii_graphic_def)

section \<open>Properties\<close>



end
