(* ===== verification/Http_Date.thy ===== *)
theory Http_Date
  imports Http_Text
begin

text \<open>
  \<open>src/crates/kynos/src/http/date.rs\<close>: HTTP dates. A \<open>SystemTime\<close> is the number of nanoseconds since
  the epoch, an \<open>int\<close>; \<open>date_format\<close> renders an IMF-fixdate, \<open>date_parse\<close> reads the three forms of
  RFC 9110 section 5.6.7, and the two calendar conversions underneath are the era arithmetic of the
  source. The lemmas show that the conversions agree on every day and that a rendered date is read
  back, truncated to whole seconds.
\<close>

section \<open>Names\<close>

definition DAYS :: "string list" where
  "DAYS = [''Mon'', ''Tue'', ''Wed'', ''Thu'', ''Fri'', ''Sat'', ''Sun'']"

definition LONG_DAYS :: "string list" where
  "LONG_DAYS = [''Monday'', ''Tuesday'', ''Wednesday'', ''Thursday'', ''Friday'', ''Saturday'', ''Sunday'']"

definition MONTHS :: "string list" where
  "MONTHS = [''Jan'', ''Feb'', ''Mar'', ''Apr'', ''May'', ''Jun'',
             ''Jul'', ''Aug'', ''Sep'', ''Oct'', ''Nov'', ''Dec'']"

definition day_name :: "string \<Rightarrow> string list \<Rightarrow> string option" where
  "day_name value names = find (\<lambda>name. starts_with name value) names"

definition month_number :: "string \<Rightarrow> nat option" where
  "month_number name =
     (case position (\<lambda>month. month = name) MONTHS of
        None \<Rightarrow> None
      | Some index \<Rightarrow> if index + 1 \<le> u8_max then Some (index + 1) else None)"

section \<open>The calendar\<close>

definition days_in_month :: "nat \<Rightarrow> nat \<Rightarrow> nat" where
  "days_in_month year month =
     (if month \<in> {1, 3, 5, 7, 8, 10, 12} then 31
      else if month \<in> {4, 6, 9, 11} then 30
      else if month = 2 \<and> year mod 4 = 0 \<and> (year mod 100 \<noteq> 0 \<or> year mod 400 = 0) then 29
      else if month = 2 then 28
      else 0)"

definition days_from_civil :: "nat \<Rightarrow> nat \<Rightarrow> nat \<Rightarrow> int option" where
  "days_from_civil year month day =
     (if \<not> (1 \<le> month \<and> month \<le> 12) \<or> day = 0 \<or> day > days_in_month year month then None
      else
        let year = int year - (if month \<le> 2 then 1 else 0);
            era = year div 400;
            year_of_era = year - era * 400;
            month = int month;
            day_of_year = (153 * (month + (if month > 2 then - 3 else 9)) + 2) div 5 + int day - 1;
            day_of_era = year_of_era * 365 + year_of_era div 4 - year_of_era div 100 + day_of_year
        in Some (era * 146097 + day_of_era - 719468))"

definition civil_from_days :: "int \<Rightarrow> int \<times> nat \<times> nat" where
  "civil_from_days days =
     (let days = days + 719468;
          era = days div 146097;
          day_of_era = days - era * 146097;
          year_of_era =
            (day_of_era - day_of_era div 1460 + day_of_era div 36524 - day_of_era div 146096) div 365;
          year = year_of_era + era * 400;
          day_of_year = day_of_era - (365 * year_of_era + year_of_era div 4 - year_of_era div 100);
          month_prime = (5 * day_of_year + 2) div 153;
          day = day_of_year - (153 * month_prime + 2) div 5 + 1;
          month = month_prime + (if month_prime < 10 then 3 else - 9)
      in (year + (if month \<le> 2 then 1 else 0), nat month, nat day))"

section \<open>Rendering and reading\<close>

definition date_format :: "int \<Rightarrow> string option" where
  "date_format time =
     (if time < 0 then None
      else
        let seconds = nat time div nanos_per_sec;
            days = int (seconds div 86400);
            rest = seconds mod 86400;
            (year, month, day) = civil_from_days days
        in if days > 9223372036854775807 then None
           else if year > 9999 then None
           else
             let weekday = nat ((days mod 7 + 3) mod 7)
             in Some (DAYS ! weekday @ '', '' @ padded 2 day @ '' '' @ MONTHS ! (month - 1) @ '' '' @
                      padded 4 (nat year) @ '' '' @ padded 2 (rest div 3600) @ '':'' @
                      padded 2 ((rest mod 3600) div 60) @ '':'' @ padded 2 (rest mod 60) @ '' GMT''))"

definition digits :: "string \<Rightarrow> nat \<Rightarrow> nat option" where
  "digits v width =
     (if length v = width \<and> list_all is_ascii_digit v then parse_uint u16_max v else None)"

definition as_u8 :: "nat \<Rightarrow> nat option" where
  "as_u8 n = (if n \<le> u8_max then Some n else None)"

definition midnight :: "nat \<Rightarrow> nat \<Rightarrow> nat \<Rightarrow> nat option" where
  "midnight year month day =
     (case days_from_civil year month day of
        None \<Rightarrow> None
      | Some days \<Rightarrow>
          if days * 86400 < - 9223372036854775808 \<or> days * 86400 > 9223372036854775807 then None
          else if days * 86400 < 0 then None else Some (nat (days * 86400)))"

definition time_of_day :: "string \<Rightarrow> nat option" where
  "time_of_day time =
     (case split CHR '':'' time of
        [h, m, s] \<Rightarrow>
          (case (digits h 2, digits m 2, digits s 2) of
             (Some hours, Some minutes, Some seconds) \<Rightarrow>
               if hours < 24 \<and> minutes < 60 \<and> seconds \<le> 60
               then Some (hours * 3600 + minutes * 60 + seconds) else None
           | _ \<Rightarrow> None)
      | _ \<Rightarrow> None)"

definition checked_add :: "nat \<Rightarrow> nat \<Rightarrow> nat option" where
  "checked_add a b = (if a + b \<le> u64_max then Some (a + b) else None)"

definition zoned :: "nat \<Rightarrow> nat \<Rightarrow> nat \<Rightarrow> string \<Rightarrow> nat option" where
  "zoned year month day time =
     Option.bind (strip_suffix '' GMT'' time) (\<lambda>time.
     Option.bind (midnight year month day) (\<lambda>start.
     Option.bind (time_of_day time) (\<lambda>elapsed. checked_add start elapsed)))"

definition imf_fixdate :: "string \<Rightarrow> nat option" where
  "imf_fixdate value =
     Option.bind (day_name value DAYS) (\<lambda>name.
     Option.bind (strip_prefix name value) (\<lambda>rest.
     Option.bind (strip_prefix '', '' rest) (\<lambda>rest.
     Option.bind (str_split_at 2 rest) (\<lambda>(day, rest).
     Option.bind (strip_prefix '' '' rest) (\<lambda>rest.
     Option.bind (str_split_at 3 rest) (\<lambda>(month, rest).
     Option.bind (strip_prefix '' '' rest) (\<lambda>rest.
     Option.bind (str_split_at 4 rest) (\<lambda>(year, rest).
     Option.bind (digits year 4) (\<lambda>year.
     Option.bind (month_number month) (\<lambda>month.
     Option.bind (Option.bind (digits day 2) as_u8) (\<lambda>day.
     Option.bind (strip_prefix '' '' rest) (\<lambda>rest.
       zoned year month day rest))))))))))))"

definition rfc850 :: "string \<Rightarrow> nat option" where
  "rfc850 value =
     Option.bind (day_name value LONG_DAYS) (\<lambda>name.
     Option.bind (strip_prefix name value) (\<lambda>rest.
     Option.bind (strip_prefix '', '' rest) (\<lambda>rest.
     Option.bind (str_split_at 2 rest) (\<lambda>(day, rest).
     Option.bind (strip_prefix ''-'' rest) (\<lambda>rest.
     Option.bind (str_split_at 3 rest) (\<lambda>(month, rest).
     Option.bind (strip_prefix ''-'' rest) (\<lambda>rest.
     Option.bind (str_split_at 2 rest) (\<lambda>(year, rest).
     Option.bind (digits year 2) (\<lambda>year.
     Option.bind (month_number month) (\<lambda>month.
     Option.bind (Option.bind (digits day 2) as_u8) (\<lambda>day.
     Option.bind (strip_prefix '' '' rest) (\<lambda>rest.
       zoned (if year \<ge> 70 then 1900 + year else 2000 + year) month day rest))))))))))))"

definition asctime :: "string \<Rightarrow> nat option" where
  "asctime value =
     Option.bind (day_name value DAYS) (\<lambda>name.
     Option.bind (strip_prefix name value) (\<lambda>rest.
     Option.bind (strip_prefix '' '' rest) (\<lambda>rest.
     Option.bind (str_split_at 3 rest) (\<lambda>(month, rest).
     Option.bind (strip_prefix '' '' rest) (\<lambda>rest.
     Option.bind (str_split_at 2 rest) (\<lambda>(day, rest).
     Option.bind (case strip_prefix '' '' day of
                    Some single \<Rightarrow> digits single 1 | None \<Rightarrow> digits day 2) (\<lambda>day.
     Option.bind (strip_prefix '' '' rest) (\<lambda>rest.
     Option.bind (str_split_at 8 rest) (\<lambda>(time, rest).
     Option.bind (strip_prefix '' '' rest) (\<lambda>year.
     Option.bind (digits year 4) (\<lambda>year.
     Option.bind (month_number month) (\<lambda>month.
     Option.bind (as_u8 day) (\<lambda>day.
     Option.bind (midnight year month day) (\<lambda>midnight.
     Option.bind (time_of_day time) (\<lambda>elapsed. Some (midnight + elapsed))))))))))))))))"

definition or_else :: "'a option \<Rightarrow> 'a option \<Rightarrow> 'a option" where
  "or_else a b = (case a of None \<Rightarrow> b | Some x \<Rightarrow> Some x)"

definition date_parse :: "string \<Rightarrow> int option" where
  "date_parse value =
     (let value = trim value
      in map_option (\<lambda>seconds. int (seconds * nanos_per_sec))
           (or_else (or_else (imf_fixdate value) (rfc850 value)) (asctime value)))"

section \<open>The two conversions are inverse\<close>

text \<open>A day of the 400-year era, written as century, four-year cycle, year and day of the year
  (counted from March).\<close>

lemma era_decomposition:
  fixes doe :: int
  assumes "0 \<le> doe" "doe < 146097"
  obtains c q a e where "doe = 36524 * c + 1461 * q + 365 * a + e"
    "0 \<le> c" "c \<le> 3" "0 \<le> q" "q \<le> 24" "0 \<le> a" "a \<le> 3" "0 \<le> e" "e \<le> 365"
    "e = 365 \<longrightarrow> a = 3 \<and> (q < 24 \<or> c = 3)"
proof -
  define c where "c = (if doe = 146096 then 3 else doe div 36524)"
  define r where "r = doe - 36524 * c"
  have c: "0 \<le> c" "c \<le> 3" using assms by (auto simp: c_def) 
  have r: "0 \<le> r" "r \<le> 36524" "r = 36524 \<longrightarrow> c = 3"
    using assms by (auto simp: r_def c_def)
  define q where "q = r div 1461"
  define s where "s = r - 1461 * q"
  have q: "0 \<le> q" "q \<le> 24" using r by (auto simp: q_def)
  have s: "0 \<le> s" "s < 1461" unfolding s_def q_def by (simp_all add: minus_mult_div_eq_mod)
  have sq: "q = 24 \<longrightarrow> s = 1460 \<longrightarrow> c = 3" using r by (auto simp: s_def)
  define a where "a = (if s = 1460 then 3 else s div 365)"
  define e where "e = s - 365 * a"
  have a: "0 \<le> a" "a \<le> 3" using s by (auto simp: a_def)
  have e: "0 \<le> e" "e \<le> 365" using s by (auto simp: e_def a_def)
  have ea: "e = 365 \<longrightarrow> a = 3 \<and> s = 1460" using s by (auto simp: e_def a_def)
  have last: "e = 365 \<longrightarrow> a = 3 \<and> (q < 24 \<or> c = 3)" using ea sq q by auto
  have "doe = 36524 * c + 1461 * q + 365 * a + e" by (simp add: r_def s_def e_def)
  then show ?thesis using that c q a e last by blast
qed

lemma year_of_era_value:
  fixes c q a e :: int
  assumes "doe = 36524 * c + 1461 * q + 365 * a + e"
    "0 \<le> c" "c \<le> 3" "0 \<le> q" "q \<le> 24" "0 \<le> a" "a \<le> 3" "0 \<le> e" "e \<le> 365"
    "e = 365 \<longrightarrow> a = 3 \<and> (q < 24 \<or> c = 3)"
  shows "(doe - doe div 1460 + doe div 36524 - doe div 146096) div 365 = 100 * c + 4 * q + a"
proof -
  define rem where "rem = 24 * c + q + 365 * a + e"
  define \<delta> where "\<delta> = (if 1460 \<le> rem then 1 else 0 :: int)"
  have rem: "0 \<le> rem" "rem < 2920" using assms by (auto simp: rem_def)
  have d1: "doe div 1460 = 25 * c + q + \<delta>"
  proof -
    have "doe = 1460 * (25 * c + q) + rem" using assms(1) by (simp add: rem_def)
    then have "doe = 1460 * (25 * c + q + \<delta>) + (rem - 1460 * \<delta>)" by simp
    then show ?thesis by (rule int_div_pos_eq) (use rem in \<open>auto simp: \<delta>_def\<close>)
  qed
  have lastday: "doe div 36524 - doe div 146096 = c"
  proof (cases "doe = 146096")
    case True
    then have "c = 3" using assms by auto
    then show ?thesis using True by simp
  next
    case False
    have lt: "36524 * c \<le> doe" "doe < 36524 * (c + 1)" "0 \<le> doe" "doe < 146096"
      using assms False by auto
    then have "doe div 36524 = c" by (intro int_div_pos_eq [of doe 36524 c "doe - 36524 * c"]) auto
    moreover have "doe div 146096 = 0" using lt by simp
    ultimately show ?thesis by simp
  qed
  have num: "doe - doe div 1460 + doe div 36524 - doe div 146096
      = 365 * (100 * c + 4 * q + a) + (e - \<delta>)"
    using d1 lastday assms(1) by simp
  have "0 \<le> e - \<delta>" "e - \<delta> < 365" using assms by (auto simp: \<delta>_def rem_def)
  then show ?thesis unfolding num by simp
qed

text \<open>Day of the year to month and day, for each of the twelve months counted from March.\<close>

lemma month_prime_bounds:
  fixes e :: int
  assumes "0 \<le> e" "e \<le> 365"
  shows "0 \<le> (5 * e + 2) div 153 \<and> (5 * e + 2) div 153 \<le> 11"
  using assms by auto

lemma month_day_bounds:
  fixes e :: int
  assumes "0 \<le> e" "e \<le> 365" and m: "m = (5 * e + 2) div 153" and d: "d = e - (153 * m + 2) div 5 + 1"
  shows "1 \<le> d" "d \<le> (if m \<in> {0, 2, 4, 5, 7, 9, 10} then 31 else if m \<in> {1, 3, 6, 8} then 30
                        else if e = 365 then 29 else 28)"
proof -
  have "m \<in> {0..11}" using month_prime_bounds [OF assms(1,2)] m by simp
  then have "m = 0 \<or> m = 1 \<or> m = 2 \<or> m = 3 \<or> m = 4 \<or> m = 5 \<or> m = 6 \<or> m = 7 \<or> m = 8 \<or> m = 9 \<or> m = 10 \<or> m = 11"
    unfolding atLeastAtMost_iff by presburger
  moreover have b: "153 * m \<le> 5 * e + 2" "5 * e + 2 < 153 * m + 153" using m by auto
  ultimately have "1 \<le> d \<and> d \<le> (if m \<in> {0, 2, 4, 5, 7, 9, 10} then 31
     else if m \<in> {1, 3, 6, 8} then 30 else if e = 365 then 29 else 28)"
    unfolding d by (elim disjE) (use assms(1,2) in auto)
  then show "1 \<le> d" "d \<le> (if m \<in> {0, 2, 4, 5, 7, 9, 10} then 31
     else if m \<in> {1, 3, 6, 8} then 30 else if e = 365 then 29 else 28)" by auto
qed

text \<open>The civil date of a day, in terms of its decomposition.\<close>

lemma civil_from_days_parts:
  obtains era yoe e m d y where
    "civil_from_days n = (y + (if m + (if m < 10 then 3 else -9) \<le> (2::int) then 1 else 0),
                          nat (m + (if m < 10 then 3 else -9)), nat d)"
    "y = yoe + era * 400" "n + 719468 = era * 146097 + (365 * yoe + yoe div 4 - yoe div 100 + e)"
    "0 \<le> yoe" "yoe \<le> 399" "0 \<le> e" "e \<le> 365"
    "e = 365 \<longrightarrow> (yoe + 1) mod 4 = 0 \<and> ((yoe + 1) mod 100 \<noteq> 0 \<or> yoe = 399)"
    "m = (5 * e + 2) div 153" "d = e - (153 * m + 2) div 5 + 1"
proof -
  define days where "days = n + 719468"
  define era where "era = days div 146097"
  define doe where "doe = days - era * 146097"
  have "0 \<le> doe" "doe < 146097" unfolding doe_def era_def
    by (simp_all add: minus_mult_div_eq_mod mult.commute)
  then obtain c q a e where parts: "doe = 36524 * c + 1461 * q + 365 * a + e"
    "0 \<le> c" "c \<le> 3" "0 \<le> q" "q \<le> 24" "0 \<le> a" "a \<le> 3" "0 \<le> e" "e \<le> 365"
    "e = 365 \<longrightarrow> a = 3 \<and> (q < 24 \<or> c = 3)"
    by (rule era_decomposition)
  define yoe where "yoe = 100 * c + 4 * q + a"
  have yoe: "(doe - doe div 1460 + doe div 36524 - doe div 146096) div 365 = yoe"
    unfolding yoe_def by (rule year_of_era_value [OF parts])
  have y4: "yoe div 4 = 25 * c + q" using parts unfolding yoe_def by simp
  have y100: "yoe div 100 = c"
    by (rule int_div_pos_eq [of _ _ _ "4 * q + a"]) (use parts in \<open>auto simp: yoe_def\<close>)
  have doy: "doe - (365 * yoe + yoe div 4 - yoe div 100) = e"
    using parts(1) y4 y100 by (simp add: yoe_def)
  define m where "m = (5 * e + 2) div 153"
  define d where "d = e - (153 * m + 2) div 5 + 1"
  have "civil_from_days n =
      (yoe + era * 400 + (if m + (if m < 10 then 3 else -9) \<le> 2 then 1 else 0),
       nat (m + (if m < 10 then 3 else -9)), nat d)"
    unfolding civil_from_days_def Let_def days_def [symmetric] era_def [symmetric]
      doe_def [symmetric] yoe doy m_def [symmetric] d_def [symmetric] ..
  moreover have "n + 719468 = era * 146097 + (365 * yoe + yoe div 4 - yoe div 100 + e)"
    using doy by (simp add: doe_def days_def)
  moreover have "e = 365 \<longrightarrow> (yoe + 1) mod 4 = 0 \<and> ((yoe + 1) mod 100 \<noteq> 0 \<or> yoe = 399)"
  proof
    assume "e = 365"
    then have a: "a = 3" "q < 24 \<or> c = 3" using parts by auto
    have "yoe + 1 = 4 * (25 * c + q + 1)" using a by (simp add: yoe_def)
    moreover have "(yoe + 1) mod 100 \<noteq> 0" if "q < 24"
    proof -
      have "yoe + 1 = 100 * c + 4 * (q + 1)" using a by (simp add: yoe_def)
      then have "(yoe + 1) mod 100 = 4 * (q + 1)"
        by (rule int_mod_pos_eq) (use that parts in auto)
      then show ?thesis using parts by simp
    qed
    moreover have "yoe = 399" if "\<not> q < 24"
    proof -
      have "q = 24" "c = 3" using that a parts by linarith+
      then show ?thesis using a by (simp add: yoe_def)
    qed
    ultimately show "(yoe + 1) mod 4 = 0 \<and> ((yoe + 1) mod 100 \<noteq> 0 \<or> yoe = 399)"
      by (cases "q < 24") auto
  qed
  moreover have "0 \<le> yoe" "yoe \<le> 399" using parts by (auto simp: yoe_def)
  ultimately show ?thesis
    using parts(8,9) m_def d_def
    by - (rule that [of "yoe + era * 400" m d yoe era e]; (assumption | rule refl))
qed

lemma days_in_month_le: "days_in_month y m \<le> 31"
  by (simp add: days_in_month_def)

text \<open>The date of a day not before the epoch is a valid date, and it is that day's.\<close>

lemma civil_from_days_year:
  assumes "0 \<le> n" "civil_from_days n = (y, m, d)"
  shows "1970 \<le> y"
proof (rule civil_from_days_parts [of n])
  fix era yoe e mp dd y'
  assume a: "civil_from_days n = (y' + (if mp + (if mp < 10 then 3 else -9) \<le> (2::int) then 1 else 0),
      nat (mp + (if mp < 10 then 3 else -9)), nat dd)"
    "y' = yoe + era * 400" "n + 719468 = era * 146097 + (365 * yoe + yoe div 4 - yoe div 100 + e)"
    "0 \<le> yoe" "yoe \<le> 399" "0 \<le> e" "e \<le> 365"
    "mp = (5 * e + 2) div 153"
  have y: "y = y' + (if mp + (if mp < 10 then 3 else -9) \<le> 2 then 1 else 0)" using a(1) assms(2) by simp
  have "4 \<le> era" using a assms(1) by simp
  show "1970 \<le> y"
  proof (cases "1970 \<le> y'")
    case False
    then have "era = 4" "yoe \<le> 369" using a(2,4) \<open>4 \<le> era\<close> by auto
    then have "135080 \<le> 365 * yoe + yoe div 4 - yoe div 100 + e" using a(3) assms(1) by simp
    moreover have "369 \<le> yoe"
    proof (rule ccontr)
      assume "\<not> 369 \<le> yoe"
      then have "yoe \<le> 368" "yoe div 4 \<le> 92" "0 \<le> yoe div 100" using a(4) by auto
      then show False using calculation a(7) by linarith
    qed
    ultimately have "yoe = 369" "306 \<le> e" using \<open>yoe \<le> 369\<close> by auto
    then have "y' = 1969" "10 \<le> mp" using a(2,8) \<open>era = 4\<close> by auto
    moreover have "mp \<le> 11" using month_prime_bounds [OF a(6,7)] a(8) by simp
    ultimately show ?thesis using y by simp
  qed (use y in simp)
qed

lemma nat_mod_eq_0: "0 \<le> y \<Longrightarrow> (nat y mod numeral k = 0) = (y mod numeral k = 0)"
proof -
  assume "0 \<le> y"
  then obtain n where y: "y = int n" by (rule nonneg_int_cases)
  have "(numeral k dvd int n) = (numeral k dvd n)" by (metis of_nat_dvd_iff of_nat_numeral)
  then show ?thesis by (simp add: y mod_eq_0_iff_dvd)
qed

lemma days_from_civil_from_days:
  assumes "0 \<le> n" "civil_from_days n = (y, m, d)"
  shows "days_from_civil (nat y) m d = Some n \<and> 1 \<le> m \<and> m \<le> 12 \<and> 1 \<le> d \<and> d \<le> 31"
proof (rule civil_from_days_parts [of n])
  fix era yoe e mp dd y'
  assume a: "civil_from_days n = (y' + (if mp + (if mp < 10 then 3 else -9) \<le> (2::int) then 1 else 0),
      nat (mp + (if mp < 10 then 3 else -9)), nat dd)"
    "y' = yoe + era * 400" "n + 719468 = era * 146097 + (365 * yoe + yoe div 4 - yoe div 100 + e)"
    "0 \<le> yoe" "yoe \<le> 399" "0 \<le> e" "e \<le> 365"
    "e = 365 \<longrightarrow> (yoe + 1) mod 4 = 0 \<and> ((yoe + 1) mod 100 \<noteq> 0 \<or> yoe = 399)"
    "mp = (5 * e + 2) div 153" "dd = e - (153 * mp + 2) div 5 + 1"
  have mp: "0 \<le> mp" "mp \<le> 11" using month_prime_bounds [OF a(6,7)] a(9) by auto
  have dd: "1 \<le> dd" "dd \<le> (if mp \<in> {0, 2, 4, 5, 7, 9, 10} then 31 else if mp \<in> {1, 3, 6, 8} then 30
                        else if e = 365 then 29 else 28)"
    using month_day_bounds [OF a(6,7) a(9) a(10)] by auto
  have y: "y = y' + (if mp < 10 then 0 else 1)" and m: "int m = mp + (if mp < 10 then 3 else -9)"
    and d: "int d = dd"
  proof -
    have eqs: "y = y' + (if mp + (if mp < 10 then 3 else -9) \<le> 2 then 1 else 0)"
      "m = nat (mp + (if mp < 10 then 3 else -9))" "d = nat dd"
      using a(1) assms(2) by simp_all
    show "y = y' + (if mp < 10 then 0 else 1)" unfolding eqs(1) using mp by simp
    show "int m = mp + (if mp < 10 then 3 else -9)" unfolding eqs(2) using mp by simp
    show "int d = dd" unfolding eqs(3) using dd(1) by simp
  qed
  have y0: "1970 \<le> y" using civil_from_days_year [OF assms] .
  have leap: "nat y mod 4 = 0 \<and> (nat y mod 100 \<noteq> 0 \<or> nat y mod 400 = 0)" if "e = 365" "mp = 11"
  proof -
    have y1: "y = (yoe + 1) + era * 400" using y a(2) that by simp
    have "y = (yoe + 1) + (era * 100) * 4" "y = (yoe + 1) + (era * 4) * 100" using y1 by simp_all
    then have "y mod 4 = (yoe + 1) mod 4" "y mod 100 = (yoe + 1) mod 100"
      by (metis mod_mult_self1)+
    moreover have "yoe = 399 \<longrightarrow> y mod 400 = 0" 
    proof
      assume "yoe = 399"
      then have "y = (era + 1) * 400" using y1 by simp
      then show "y mod 400 = 0" by (simp only: mod_mult_self2_is_0)
    qed
    ultimately have "y mod 4 = 0 \<and> (y mod 100 \<noteq> 0 \<or> y mod 400 = 0)" using a(8) that by auto
    then show ?thesis using y0 by (auto simp: nat_mod_eq_0)
  qed
  have "mp = 0 \<or> mp = 1 \<or> mp = 2 \<or> mp = 3 \<or> mp = 4 \<or> mp = 5 \<or> mp = 6 \<or> mp = 7 \<or> mp = 8 \<or> mp = 9 \<or> mp = 10 \<or> mp = 11"
    using mp by presburger
  then have dim: "d \<le> days_in_month (nat y) m \<and> 1 \<le> m \<and> m \<le> 12"
  proof (elim disjE)
    assume "mp = 11"
    moreover have "m = 2" using m calculation by simp
    ultimately show ?thesis using dd(2) d leap by (cases "e = 365") (auto simp: days_in_month_def)
  next
    assume "mp = 0" then show ?thesis using m dd(2) d by (simp add: days_in_month_def)
  next
    assume "mp = 1" then show ?thesis using m dd(2) d by (simp add: days_in_month_def)
  next
    assume "mp = 2" then show ?thesis using m dd(2) d by (simp add: days_in_month_def)
  next
    assume "mp = 3" then show ?thesis using m dd(2) d by (simp add: days_in_month_def)
  next
    assume "mp = 4" then show ?thesis using m dd(2) d by (simp add: days_in_month_def)
  next
    assume "mp = 5" then show ?thesis using m dd(2) d by (simp add: days_in_month_def)
  next
    assume "mp = 6" then show ?thesis using m dd(2) d by (simp add: days_in_month_def)
  next
    assume "mp = 7" then show ?thesis using m dd(2) d by (simp add: days_in_month_def)
  next
    assume "mp = 8" then show ?thesis using m dd(2) d by (simp add: days_in_month_def)
  next
    assume "mp = 9" then show ?thesis using m dd(2) d by (simp add: days_in_month_def)
  next
    assume "mp = 10" then show ?thesis using m dd(2) d by (simp add: days_in_month_def)
  qed
  have yy: "int (nat y) - (if m \<le> 2 then 1 else 0) = yoe + era * 400"
    using y0 y a(2) m mp by auto
  have ee: "(yoe + era * 400) div 400 = era" using a(4,5) by simp
  have mm: "int m + (if m > 2 then - 3 else 9) = mp" using m mp by auto
  have "days_from_civil (nat y) m d =
      Some (era * 146097 + (yoe * 365 + yoe div 4 - yoe div 100 + ((153 * mp + 2) div 5 + dd - 1)) - 719468)"
    using dim d dd(1) yy ee mm by (simp add: days_from_civil_def Let_def)
  also have "\<dots> = Some n" using a(3,10) by simp
  finally show ?thesis using dim d dd days_in_month_le [of "nat y" m] by simp
qed






section \<open>Reading a rendered date\<close>

lemma strip_prefix_append [simp]: "strip_prefix p (p @ s) = Some s"
  by (simp add: strip_prefix_Some)

lemma strip_suffix_append [simp]: "strip_suffix p (s @ p) = Some s"
  by (simp add: strip_suffix_Some)

lemma parse_uint_digits:
  "ds \<noteq> [] \<Longrightarrow> list_all is_ascii_digit ds \<Longrightarrow> dec_val ds \<le> cap \<Longrightarrow> parse_uint cap ds = Some (dec_val ds)"
  by (cases ds) (auto simp: parse_uint_def is_ascii_digit_def)

lemma digits_padded:
  assumes "n < 10 ^ w" "0 < w" "n \<le> u16_max"
  shows "digits (padded w n) w = Some n"
proof -
  have "padded w n \<noteq> []" by (simp add: padded_def)
  then show ?thesis using assms padded_digits [of w n]
    by (simp add: digits_def length_padded parse_uint_digits)
qed

lemma day_name_DAYS: "w < 7 \<Longrightarrow> day_name (DAYS ! w @ s) DAYS = Some (DAYS ! w)"
proof -
  assume "w < 7"
  then have "w = 0 \<or> w = 1 \<or> w = 2 \<or> w = 3 \<or> w = 4 \<or> w = 5 \<or> w = 6" by linarith
  then show ?thesis by (elim disjE) (simp_all add: day_name_def DAYS_def starts_with_def)
qed

lemma hd_DAYS: "w < 7 \<Longrightarrow> DAYS ! w \<noteq> [] \<and> is_ascii_graphic (hd (DAYS ! w))"
proof -
  assume "w < 7"
  then have "w = 0 \<or> w = 1 \<or> w = 2 \<or> w = 3 \<or> w = 4 \<or> w = 5 \<or> w = 6" by linarith
  then show ?thesis by (elim disjE) (simp_all add: DAYS_def is_ascii_graphic_def)
qed

lemma month_cases:
  fixes m :: nat
  assumes "m < 12"
  shows "m = 0 \<or> m = 1 \<or> m = 2 \<or> m = 3 \<or> m = 4 \<or> m = 5 \<or>
         m = 6 \<or> m = 7 \<or> m = 8 \<or> m = 9 \<or> m = 10 \<or> m = 11"
  using assms by presburger

lemma month_number_MONTHS: "m < 12 \<Longrightarrow> month_number (MONTHS ! m) = Some (m + 1)"
proof -
  assume "m < 12"
  from month_cases [OF this] show ?thesis by (elim disjE) (simp_all add: month_number_def MONTHS_def u8_max_def)
qed

lemma length_MONTHS: "m < 12 \<Longrightarrow> length (MONTHS ! m) = 3"
proof -
  assume "m < 12"
  from month_cases [OF this] show ?thesis by (elim disjE) (simp_all add: MONTHS_def)
qed

lemma colon_not_digit: "list_all is_ascii_digit s \<Longrightarrow> CHR '':'' \<notin> set s"
  by (auto simp: list_all_iff is_ascii_digit_def)

lemma time_of_day_rendered:
  assumes "h < 24" "m < 60" "s < 60"
  shows "time_of_day (padded 2 h @ '':'' @ padded 2 m @ '':'' @ padded 2 s) = Some (h * 3600 + m * 60 + s)"
proof -
  have "split CHR '':'' (padded 2 h @ CHR '':'' # padded 2 m @ CHR '':'' # padded 2 s)
      = [padded 2 h, padded 2 m, padded 2 s]"
    by (simp add: split_append_sep split_none colon_not_digit padded_digits)
  then show ?thesis using assms
    by (simp add: time_of_day_def digits_padded u16_max_def)
qed

lemma imf_fixdate_rendered:
  assumes "w < 7" "d < 100" "1 \<le> m" "m \<le> 12" "y < 10000" "h < 24" "mi < 60" "s < 60"
    and "midnight y m d = Some start" "start + (h * 3600 + mi * 60 + s) \<le> u64_max"
  shows "imf_fixdate (DAYS ! w @ '', '' @ padded 2 d @ '' '' @ MONTHS ! (m - 1) @ '' '' @
           padded 4 y @ '' '' @ padded 2 h @ '':'' @ padded 2 mi @ '':'' @ padded 2 s @ '' GMT'')
         = Some (start + (h * 3600 + mi * 60 + s))"
proof -
  let ?time = "padded 2 h @ '':'' @ padded 2 mi @ '':'' @ padded 2 s"
  have l: "length (padded 2 d) = 2" "length (padded 4 y) = 4" "length (MONTHS ! (m - 1)) = 3"
    using assms by (simp_all add: length_padded length_MONTHS)
  have sp: "str_split_at n (a @ CHR '' '' # b) = Some (a, CHR '' '' # b)" if "length a = n" for a b n
    using that by (intro str_split_at_append) (auto simp: is_ascii_def)
  have t: "time_of_day ?time = Some (h * 3600 + mi * 60 + s)"
    by (rule time_of_day_rendered) (use assms in auto)
  have g: "strip_suffix '' GMT'' (?time @ '' GMT'') = Some ?time" by (rule strip_suffix_append)
  have z: "zoned y m d (?time @ '' GMT'') = Some (start + (h * 3600 + mi * 60 + s))"
    unfolding zoned_def g bind.bind_lunit using t assms(9,10) by (simp add: checked_add_def)
  have dg: "digits (padded 2 d) 2 = Some d" "digits (padded 4 y) 4 = Some y"
    using assms by (auto intro!: digits_padded simp: u16_max_def)
  have mn: "month_number (MONTHS ! (m - 1)) = Some m"
    using month_number_MONTHS [of "m - 1"] assms by simp
  show ?thesis
    unfolding imf_fixdate_def using z dg mn assms l
    by (simp add: day_name_DAYS sp as_u8_def u8_max_def)
qed

text \<open>The instants \<open>date_format\<close> renders exactly: whole seconds, not before the epoch, up to the
  year 9999.\<close>

definition renderable :: "int \<Rightarrow> bool" where
  "renderable t \<longleftrightarrow> t mod int nanos_per_sec = 0 \<and> date_format t \<noteq> None"

lemma days_from_civil_valid:
  "days_from_civil y m d = Some n \<Longrightarrow> 1 \<le> m \<and> m \<le> 12 \<and> 1 \<le> d \<and> d \<le> days_in_month y m"
  unfolding days_from_civil_def by (simp split: if_split_asm)

lemma days_from_civil_bound:
  assumes "days_from_civil y m d = Some n" "y \<le> 9999"
  shows "n \<le> 4000000"
proof -
  let ?y = "int y - (if m \<le> 2 then 1 else 0)"
  let ?era = "?y div 400"
  let ?yoe = "?y - ?era * 400"
  let ?mp = "int m + (if int m > 2 then - 3 else 9)"
  let ?doy = "(153 * ?mp + 2) div 5 + int d - 1"
  have m: "1 \<le> m" "m \<le> 12" "d \<le> 31"
    using days_from_civil_valid [OF assms(1)] days_in_month_le [of y m] by simp_all
  have n: "n = ?era * 146097 + (?yoe * 365 + ?yoe div 4 - ?yoe div 100 + ?doy) - 719468"
  proof -
    have v: "\<not> (\<not> (1 \<le> m \<and> m \<le> 12) \<or> d = 0 \<or> days_in_month y m < d)"
      using days_from_civil_valid [OF assms(1)] by simp
    from assms(1) show ?thesis
      unfolding days_from_civil_def Let_def if_not_P [OF v] option.inject by (rule sym)
  qed
  have yb: "?y \<le> 9999" using assms(2) by simp
  then have "?era \<le> 24" using zdiv_mono1 [of ?y 9999 400] by simp
  moreover have yoe: "0 \<le> ?yoe" "?yoe \<le> 399"
    unfolding minus_div_mult_eq_mod by simp_all
  moreover have "a div 4 \<le> 99 \<and> 0 \<le> a div 100" if "0 \<le> a" "a \<le> 399" for a :: int
    using that zdiv_mono1 [of a 399 4] by (simp add: pos_imp_zdiv_nonneg_iff)
  from this [OF yoe] have "?yoe div 4 \<le> 99" "0 \<le> ?yoe div 100" by blast+
  moreover have "?doy \<le> 367"
  proof -
    have doy: "(153 * k + 2) div 5 \<le> 337" if "k \<le> 11" for k :: int
      using zdiv_mono1 [of "153 * k + 2" 1685 5] that by simp
    have "?mp \<le> 11" using m by simp
    from doy [OF this] show ?thesis using m(3) by linarith
  qed
  moreover have sum: "E * 146097 + (Y * 365 + a - b + D) - 719468 \<le> 4000000"
    if "E \<le> 24" "Y \<le> 399" "a \<le> 99" "0 \<le> b" "D \<le> 367" for E Y a b D :: int
    using that by linarith
  ultimately show ?thesis unfolding n by (intro sum)
qed

lemma date_parse_format:
  assumes "date_format t = Some s"
  shows "date_parse s = Some (t div int nanos_per_sec * int nanos_per_sec)"
proof -
  define secs where "secs = nat t div nanos_per_sec"
  obtain y m d where c: "civil_from_days (int (secs div 86400)) = (y, m, d)"
    by (metis prod_cases3)
  define w where "w = nat ((int (secs div 86400) mod 7 + 3) mod 7)"
  let ?rest = "secs mod 86400"
  have t: "0 \<le> t" "y \<le> 9999" "int (secs div 86400) \<le> 9223372036854775807"
    and s: "s = DAYS ! w @ '', '' @ padded 2 d @ '' '' @ MONTHS ! (m - 1) @ '' '' @
        padded 4 (nat y) @ '' '' @ padded 2 (?rest div 3600) @ '':'' @
        padded 2 ((?rest mod 3600) div 60) @ '':'' @ padded 2 (?rest mod 60) @ '' GMT''"
    using assms unfolding date_format_def Let_def secs_def [symmetric] c prod.case w_def
    by (simp_all split: if_split_asm)
  have civ: "days_from_civil (nat y) m d = Some (int (secs div 86400))" "1 \<le> m" "m \<le> 12" "1 \<le> d" "d \<le> 31"
    using days_from_civil_from_days [OF _ c] by auto
  have y: "1970 \<le> y" using civil_from_days_year [OF _ c] by simp
  have db: "int (secs div 86400) \<le> 4000000"
    using days_from_civil_bound [OF civ(1)] t(2) by simp
  have start: "midnight (nat y) m d = Some (secs div 86400 * 86400)"
    using civ(1) db by (simp add: midnight_def nat_mult_distrib)
  have clock: "?rest div 3600 * 3600 + (?rest mod 3600) div 60 * 60 + ?rest mod 60 = ?rest"
  proof -
    have "?rest mod 3600 = (?rest mod 3600) div 60 * 60 + ?rest mod 3600 mod 60"
      by (rule div_mult_mod_eq [symmetric])
    moreover have "?rest mod 3600 mod 60 = ?rest mod 60" by (simp add: mod_mod_cancel)
    moreover have "X + B + C = R" if "A = B + D" "D = C" "X + A = R" for X A B C D R :: nat
      using that by simp
    ultimately show ?thesis using div_mult_mod_eq [of ?rest 3600] by blast
  qed
  have total: "secs div 86400 * 86400 + (?rest div 3600 * 3600 + (?rest mod 3600) div 60 * 60 + ?rest mod 60) = secs"
    unfolding clock by (rule div_mult_mod_eq)
  have small: "secs \<le> u64_max"
  proof -
    have "secs div 86400 \<le> 4000000" using db by simp
    moreover have "secs < 86400 + 86400 * (secs div 86400)" by (rule dividend_less_times_div) simp
    ultimately have "secs < 86400 + 86400 * 4000000" by (meson add_left_mono less_le_trans mult_le_mono2)
    then show ?thesis by (simp add: u64_max_def)
  qed
  have w: "w < 7" unfolding w_def by (simp add: nat_less_iff)
  have ny: "nat y < 10000" using t(2) by linarith
  have hm: "?rest div 3600 < 24" "(?rest mod 3600) div 60 < 60"
  proof -
    have "?rest < 24 * 3600" "?rest mod 3600 < 60 * 60" by simp_all
    then show "?rest div 3600 < 24" "(?rest mod 3600) div 60 < 60" by (simp_all only: less_mult_imp_div_less)
  qed
  have imf: "imf_fixdate s = Some secs"
    unfolding s
    by (subst imf_fixdate_rendered [OF w _ civ(2,3) _ _ _ _ start])
       (use civ ny total small hm in auto)
  have "hd s = hd (DAYS ! w)" "last s = CHR ''T''"
    using hd_DAYS [OF w] unfolding s by auto
  then have "trim s = s"
    by (intro trim_id) (use hd_DAYS [OF w] in \<open>simp add: is_ascii_graphic_def\<close>)
  then show ?thesis using imf t(1)
    by (simp add: date_parse_def Let_def or_else_def secs_def zdiv_int)
qed

section \<open>Properties\<close>

text \<open>C9: reading back a rendered date gives the instant it was rendered from, truncated to whole
  seconds, for every instant \<open>date_format\<close> renders at all.\<close>

theorem date_roundtrip:
  assumes "date_format t = Some s"
  shows "date_parse s = Some (t div int nanos_per_sec * int nanos_per_sec)"
  using assms by (rule date_parse_format)

theorem date_roundtrip_witness:
  "date_parse ''Sun, 06 Nov 1994 08:49:37 GMT'' = Some 784111777000000000"
proof -
  have c: "civil_from_days 9075 = (1994, 11, 6)"
    unfolding civil_from_days_def Let_def by simp
  have "nat 784111777000000000 div nanos_per_sec = 784111777" by (simp add: nanos_per_sec_def)
  then have "date_format 784111777000000000 = Some ''Sun, 06 Nov 1994 08:49:37 GMT''"
    by (simp add: date_format_def c DAYS_def MONTHS_def padded_def std_simps)
  from date_roundtrip [OF this] show ?thesis by (simp add: nanos_per_sec_def)
qed

text \<open>The calendar conversions agree: the civil date computed for any day from the epoch on is a
  valid date, and converting it back gives that day.\<close>

theorem civil_days_inverse:
  assumes "0 \<le> n" "civil_from_days n = (y, m, d)"
  shows "days_from_civil (nat y) m d = Some n \<and> 1 \<le> m \<and> m \<le> 12 \<and> 1 \<le> d \<and>
         d \<le> days_in_month (nat y) m"
  using days_from_civil_from_days [OF assms] days_from_civil_valid by blast

theorem civil_days_inverse_witness: "days_from_civil 2024 2 29 = Some 19782"
proof -
  have c: "civil_from_days 19782 = (2024, 2, 29)"
    unfolding civil_from_days_def Let_def by simp
  have "(0 :: int) \<le> 19782" by simp
  from civil_days_inverse [OF this c] show ?thesis unfolding nat_numeral by blast
qed

section \<open>The codec of dates\<close>

interpretation http_date: codec "\<lambda>t. the (date_format t)" date_parse renderable
proof
  fix t
  assume t: "renderable t"
  then obtain s where s: "date_format t = Some s" by (auto simp: renderable_def)
  have "t div int nanos_per_sec * int nanos_per_sec = t"
    using t unfolding renderable_def by (metis add_0_right div_mult_mod_eq)
  then show "date_parse (the (date_format t)) = Some t" using date_parse_format [OF s] s by simp
qed

text \<open>Two renderable instants with the same rendering are the same instant.\<close>

lemma date_format_inject:
  "renderable t \<Longrightarrow> renderable u \<Longrightarrow> date_format t = date_format u \<Longrightarrow> t = u"
  using http_date.enc_inject [of t u] by simp

end
