(* ===== verification/Served.thy ===== *)
theory Served
  imports Byte_Source Response_Head Http_Date
begin

text \<open>
  \<open>src/crates/kynos/src/response/range/served.rs\<close>: answering a conditional range request from a byte
  source. The preconditions are evaluated in the order of RFC 9110 section 13.2.2, then the \<open>Range\<close>
  field is read, and the head is built before any content. The lemmas fix the precedence: a failed
  precondition is a 412 whatever else was sent, a validated cache is a 304 before any range is read,
  and only what is left reaches the range.
\<close>

section \<open>Definitions\<close>

record served =
  etag :: "etag option"
  last_modified :: "int option"
  cache_control :: "string option"
  served_disposition :: "content_disposition option"

record 'h conditions =
  cond_method :: string
  cond_fields :: 'h

definition READ :: "string list" where
  "READ = [''range'', ''if-range'', ''if-match'', ''if-unmodified-since'', ''if-none-match'',
           ''if-modified-since'']"

definition conditions_of :: "('h, 'x) header_map_scheme \<Rightarrow> string \<Rightarrow> 'h \<Rightarrow> 'h conditions" where
  "conditions_of H method hs =
     \<lparr>cond_method = method,
      cond_fields = foldl (\<lambda>fs name.
          foldl (\<lambda>fs value. append_field H fs name value) fs (get_all H hs name))
        (new_map H) READ\<rparr>"

definition validated :: "string \<Rightarrow> bool" where
  "validated method \<longleftrightarrow> method = ''GET'' \<or> method = ''HEAD'' \<or> method = ''QUERY''"

definition time_seconds :: "int \<Rightarrow> nat" where
  "time_seconds t = (if t < 0 then 0 else nat t div nanos_per_sec)"

definition single_date :: "('h, 'x) header_map_scheme \<Rightarrow> 'h \<Rightarrow> string \<Rightarrow> int option" where
  "single_date H hs name =
     (case get_all H hs name of
        [line] \<Rightarrow> Option.bind (to_str H line) date_parse
      | _ \<Rightarrow> None)"

definition precondition_failed ::
  "('h, 'x) header_map_scheme \<Rightarrow> served \<Rightarrow> 'h conditions \<Rightarrow> string option \<Rightarrow> bool" where
  "precondition_failed H sv cond current =
     (case if_match H (cond_fields cond) current of
        Some holds \<Rightarrow> \<not> holds
      | None \<Rightarrow>
          (case (last_modified sv, single_date H (cond_fields cond) ''if-unmodified-since'') of
             (Some modified, Some since) \<Rightarrow> time_seconds modified > time_seconds since
           | _ \<Rightarrow> False))"

definition unmodified ::
  "('h, 'x) header_map_scheme \<Rightarrow> served \<Rightarrow> 'h conditions \<Rightarrow> string option \<Rightarrow> bool" where
  "unmodified H sv cond current =
     (case if_none_match H (cond_fields cond) current of
        Some named \<Rightarrow> named
      | None \<Rightarrow>
          if \<not> validated (cond_method cond) then False
          else (case (last_modified sv, single_date H (cond_fields cond) ''if-modified-since'') of
                  (Some modified, Some since) \<Rightarrow> time_seconds modified \<le> time_seconds since
                | _ \<Rightarrow> False))"

definition accept_ranges_group :: group where
  "accept_ranges_group = \<lparr>encoded = Some [(''accept-ranges'', UNIT)], repeatable = False, varies = []\<rparr>"

definition content_range_group :: "('h, 'x) header_map_scheme \<Rightarrow> content_range \<Rightarrow> group" where
  "content_range_group H r =
     \<lparr>encoded = map_option (\<lambda>v. [(''content-range'', v)]) (from_bytes H (field_value r)),
      repeatable = False, varies = []\<rparr>"

definition write_selection ::
  "('h, 'x) header_map_scheme \<Rightarrow> 'h response \<Rightarrow> selection \<Rightarrow> 'h response option" where
  "write_selection H r sel =
     (case write_group H (headers r) accept_ranges_group of
        None \<Rightarrow> None
      | Some hs \<Rightarrow>
          (case sel of
             Whole _ \<Rightarrow> Some (r\<lparr>headers := hs\<rparr>)
           | Part first final n \<Rightarrow>
               (case write_group H hs (content_range_group H (Satisfied first final n)) of
                  None \<Rightarrow> None
                | Some hs \<Rightarrow> Some (r\<lparr>headers := hs, status := 206\<rparr>))))"

definition insert_some :: "('h, 'x) header_map_scheme \<Rightarrow> string \<Rightarrow> string option \<Rightarrow> 'h \<Rightarrow> 'h" where
  "insert_some H name v hs = (case v of None \<Rightarrow> hs | Some value \<Rightarrow> insert_field H hs name value)"

definition head_described ::
  "('h, 'x) header_map_scheme \<Rightarrow> (string \<Rightarrow> string) \<Rightarrow> served \<Rightarrow> string option \<Rightarrow> 'h \<Rightarrow> 'h option" where
  "head_described H ext sv content_type hs =
     (case content_type of
        None \<Rightarrow> None
      | Some ct \<Rightarrow>
          let hs = insert_field H hs ''content-type'' ct
          in (case served_disposition sv of
                None \<Rightarrow> Some hs
              | Some d \<Rightarrow> write_group H hs (disposition_group H ext d)))"

definition served_head ::
  "('h, 'x) header_map_scheme \<Rightarrow> (string \<Rightarrow> string) \<Rightarrow> served \<Rightarrow> selection option \<Rightarrow> nat \<Rightarrow>
   string option \<Rightarrow> string option \<Rightarrow> 'h response option" where
  "served_head H ext sv sel complete_length tag content_type =
     (let r = \<lparr>status = 200, headers = new_map H, body = Empty\<rparr>
      in case (case sel of Some s \<Rightarrow> write_selection H r s | None \<Rightarrow> Some (r\<lparr>status := 304\<rparr>)) of
           None \<Rightarrow> None
         | Some r \<Rightarrow>
             (case (if sel \<noteq> None then head_described H ext sv content_type (headers r)
                    else Some (headers r)) of
                None \<Rightarrow> None
              | Some hs \<Rightarrow>
                  let hs = insert_some H ''etag'' tag hs;
                      hs = insert_some H ''last-modified''
                             (Option.bind (Option.bind (last_modified sv) date_format) (from_bytes H)) hs
                  in (case (case cache_control sv of
                              None \<Rightarrow> Some hs
                            | Some v \<Rightarrow> map_option (\<lambda>v. insert_field H hs ''cache-control'' v) (from_bytes H v)) of
                        None \<Rightarrow> None
                      | Some hs \<Rightarrow>
                          let hs = (case sel of
                                      Some (Part first final _) \<Rightarrow>
                                        insert_field H hs ''content-length'' (decimal (final - first + 1))
                                    | Some (Whole _) \<Rightarrow>
                                        insert_field H hs ''content-length'' (decimal complete_length)
                                    | None \<Rightarrow> hs)
                          in Some (r\<lparr>headers := hs\<rparr>))))"

definition rejection_response :: "('h, 'x) header_map_scheme \<Rightarrow> range_rejection \<Rightarrow> 'h response" where
  "rejection_response H e =
     write_or_refuse H (problem_response H 416 ''no requested range is satisfiable'')
       (content_range_group H (rejection_content_range e))"

definition with_body :: "string \<Rightarrow> nat \<Rightarrow> selection \<Rightarrow> 'h response \<Rightarrow> 'h response" where
  "with_body method complete_length sel r =
     (let (first, final) =
        (case sel of Whole _ \<Rightarrow> (0, complete_length - 1) | Part first final _ \<Rightarrow> (first, final))
      in if method \<noteq> ''HEAD'' \<and> complete_length > 0 then r\<lparr>body := Span first final\<rparr> else r)"

definition served_answer ::
  "('h, 'x) header_map_scheme \<Rightarrow> (string \<Rightarrow> string) \<Rightarrow> served \<Rightarrow> 'h conditions \<Rightarrow> 'e + nat \<Rightarrow>
   string option \<Rightarrow> 'e + 'h response" where
  "served_answer H ext sv cond source_length content_type =
     (case map_option (etag_encode H) (etag sv) of
        Some None \<Rightarrow> Inr (refused H)
      | tagged \<Rightarrow>
          let tag = Option.bind tagged (\<lambda>t. t);
              current = Option.bind tag (to_str H)
          in (case source_length of
                Inl e \<Rightarrow> Inl e
              | Inr complete_length \<Rightarrow>
                  if precondition_failed H sv cond current then Inr (bodiless H 412)
                  else if unmodified H sv cond current then
                    (if \<not> validated (cond_method cond) then Inr (bodiless H 412)
                     else (case served_head H ext sv None complete_length tag content_type of
                             None \<Rightarrow> Inr (refused H)
                           | Some r \<Rightarrow> Inr r))
                  else
                    (case range_select (range_read H (cond_method cond) (cond_fields cond) current)
                            complete_length of
                       Inl rejection \<Rightarrow> Inr (rejection_response H rejection)
                     | Inr sel \<Rightarrow>
                         (case served_head H ext sv (Some sel) complete_length tag content_type of
                            None \<Rightarrow> Inr (refused H)
                          | Some r \<Rightarrow> Inr (with_body (cond_method cond) complete_length sel r)))))"

section \<open>Lemmas\<close>

lemma served_head_status:
  "served_head H ext sv sel n tag ct = Some r \<Longrightarrow>
   status r = (case sel of None \<Rightarrow> 304 | Some s \<Rightarrow> selection_status s) \<and> body r = Empty"
  by (auto simp: served_head_def write_selection_def Let_def split: option.splits if_splits selection.splits)

lemma write_group_plain:
  assumes "header_map_laws H" "list_all is_visible v"
  shows "write_group H hs \<lparr>encoded = map_option (\<lambda>v. [(n, v)]) (from_bytes H v), repeatable = False, varies = []\<rparr>
     = Some (insert_field H hs n v)"
  using assms by (simp add: write_group_def header_map_lawsD(7) write_encoded_single)

lemma decimal_visible: "list_all is_visible (decimal n)"
proof -
  have "list_all is_ascii_digit (decimal n)" using decimal_digits by (simp add: list_all_iff)
  then show ?thesis by (rule list.pred_mono_strong) (simp add: bytes_simps)
qed

lemma field_value_visible: "list_all is_visible (field_value r)"
  by (cases r) (simp_all add: decimal_visible, simp_all add: is_visible_def)

lemma write_group_accept:
  "write_group H hs accept_ranges_group = Some (insert_field H hs ''accept-ranges'' UNIT)"
  by (simp add: write_group_def accept_ranges_group_def write_encoded_single)

text \<open>The length a response announces, where it carries a representation.\<close>

lemma head_described_length:
  assumes "header_map_laws H" "head_described H ext sv ct hs = Some hs'"
  shows "get_all H hs' ''content-range'' = get_all H hs ''content-range''"
  using assms(2)
  by (auto simp: head_described_def Let_def write_group_def disposition_group_def write_encoded_single
      header_map_lawsD(1) [OF assms(1)] split: option.splits)

lemma served_head_part:
  assumes laws: "header_map_laws H" and head: "served_head H ext sv (Some sel) n tag ct = Some r"
  shows "get_all H (headers r) ''content-length''
      = [decimal (case sel of Whole _ \<Rightarrow> n | Part first final _ \<Rightarrow> final - first + 1)]"
    and "get_all H (headers r) ''content-range''
      = (case sel of Whole _ \<Rightarrow> [] | Part first final m \<Rightarrow> [field_value (Satisfied first final m)])"
proof -
  note L = header_map_lawsD [OF laws]
  obtain r0 hs where w: "write_selection H \<lparr>status = 200, headers = new_map H, body = Empty\<rparr> sel = Some r0"
    and d: "head_described H ext sv ct (headers r0) = Some hs"
    using head by (auto simp: served_head_def Let_def split: option.splits)
  have r0: "get_all H (headers r0) ''content-range''
      = (case sel of Whole _ \<Rightarrow> [] | Part first final m \<Rightarrow> [field_value (Satisfied first final m)])"
    using w write_group_plain [OF laws field_value_visible]
    by (auto simp: write_selection_def accept_ranges_group_def content_range_group_def write_group_def
        write_encoded_single L split: selection.splits option.splits)
  have same: "get_all H (insert_some H m v h) ''content-range'' = get_all H h ''content-range''"
    if "m \<noteq> ''content-range''" for m v h
    using that by (simp add: insert_some_def L split: option.splits)
  have d': "get_all H hs ''content-range'' = get_all H (headers r0) ''content-range''"
    by (rule head_described_length [OF laws d])
  show "get_all H (headers r) ''content-length''
      = [decimal (case sel of Whole _ \<Rightarrow> n | Part first final _ \<Rightarrow> final - first + 1)]"
    using head by (auto simp: served_head_def Let_def L split: option.splits selection.splits if_splits)
  show "get_all H (headers r) ''content-range''
      = (case sel of Whole _ \<Rightarrow> [] | Part first final m \<Rightarrow> [field_value (Satisfied first final m)])"
    using head w d d' r0 same
    by (auto simp: served_head_def Let_def L split: option.splits selection.splits if_splits)
qed

section \<open>Properties\<close>

text \<open>C2: the order of precedence of a conditional range request. Unless a header could not be
  encoded (500), the status is decided by the lost-update preconditions first (412), the cache
  validators next (304, or 412 for a method that cannot be validated), and the \<open>Range\<close> field last:
  no range, satisfiable or not, outranks a 304.\<close>

theorem served_precedence:
  assumes "served_answer H ext sv cond (Inr n :: 'e + nat) ct = Inr r" "status r \<noteq> 500"
    and "tag = Option.bind (map_option (etag_encode H) (etag sv)) (\<lambda>t. t)"
    and "current = Option.bind tag (to_str H)"
  shows "status r =
     (if precondition_failed H sv cond current then 412
      else if unmodified H sv cond current then (if validated (cond_method cond) then 304 else 412)
      else (case range_select (range_read H (cond_method cond) (cond_fields cond) current) n of
              Inl _ \<Rightarrow> 416
            | Inr sel \<Rightarrow> selection_status sel))"
proof -
  have refused: "status (refused H) = 500" by (simp add: refused_def problem_response_def)
  have gone: "status (bodiless H 412) = 412" by (simp add: bodiless_def)
  have rej: "status (rejection_response H e) = 416 \<or> status (rejection_response H e) = 500" for e
    by (auto simp: rejection_response_def write_or_refuse_def refused problem_response_def
        split: option.splits)
  have body: "status (with_body m n sel q) = status q" for m sel q
    by (simp add: with_body_def Let_def split: prod.splits)
  have enc: "map_option (etag_encode H) (etag sv) \<noteq> Some None"
    using assms(1,2) refused
    by (cases "etag sv"; cases "etag_encode H (the (etag sv))") (auto simp: served_answer_def)
  have eq: "served_answer H ext sv cond (Inr n :: 'e + nat) ct =
      (if precondition_failed H sv cond current then Inr (bodiless H 412)
       else if unmodified H sv cond current then
         (if \<not> validated (cond_method cond) then Inr (bodiless H 412)
          else (case served_head H ext sv None n tag ct of None \<Rightarrow> Inr (refused H) | Some r \<Rightarrow> Inr r))
       else (case range_select (range_read H (cond_method cond) (cond_fields cond) current) n of
               Inl rejection \<Rightarrow> Inr (rejection_response H rejection)
             | Inr sel \<Rightarrow> (case served_head H ext sv (Some sel) n tag ct of
                             None \<Rightarrow> Inr (refused H)
                           | Some r \<Rightarrow> Inr (with_body (cond_method cond) n sel r))))"
  proof (cases "etag sv")
    case None
    then have tg: "tag = None" "current = None" using assms(3,4) by simp_all
    show ?thesis unfolding tg by (simp add: served_answer_def None)
  next
    case (Some t)
    then obtain s where s: "etag_encode H t = Some s" using enc by auto
    then have tg: "tag = Some s" "current = to_str H s" using Some assms(3,4) by simp_all
    show ?thesis unfolding tg by (simp add: served_answer_def Some s)
  qed
  note eq = eq [unfolded assms(1)]
  show ?thesis
  proof (cases "precondition_failed H sv cond current")
    case True then show ?thesis using eq gone by simp
  next
    case False
    note pf = this
    show ?thesis
    proof (cases "unmodified H sv cond current")
      case True
      then show ?thesis using assms(2) eq pf gone refused
        by (auto dest: served_head_status split: if_splits option.splits)
    next
      case False
      then show ?thesis
        using assms(2) eq pf refused rej
        by (cases "range_select (range_read H (cond_method cond) (cond_fields cond) current) n")
           (auto simp: body dest!: served_head_status split: option.splits)
    qed
  qed
qed

theorem served_precedence_witness:
  "\<exists>r. served_answer fun_headers (\<lambda>s. [])
       \<lparr>etag = None, last_modified = None, cache_control = None, served_disposition = None\<rparr>
       \<lparr>cond_method = ''GET'', cond_fields = (\<lambda>_. [])(''if-match'' := [[dquote, dquote]], ''range'' := [''bytes=0-1''])\<rparr>
       (Inr 6 :: unit + nat) (Some ''text/plain'') = Inr r \<and> status r = 412"
proof -
  let ?sv = "\<lparr>etag = None, last_modified = None, cache_control = None, served_disposition = None\<rparr>"
  let ?cond = "\<lparr>cond_method = ''GET'', cond_fields = (\<lambda>_. [])(''if-match'' := [[dquote, dquote]], ''range'' := [''bytes=0-1''])\<rparr>"
  have t: "trim [dquote, dquote] = [dquote, dquote]"
    by (rule trim_id) (simp add: is_ascii_graphic_def)
  have pf: "precondition_failed fun_headers ?sv ?cond None"
    using t by (simp add: precondition_failed_def if_match_def matches_strongly_def fun_headers_def
        is_visible_def ANY_def)
  have a: "served_answer fun_headers (\<lambda>s. []) ?sv ?cond (Inr 6 :: unit + nat) (Some ''text/plain'')
      = Inr (bodiless fun_headers 412)"
    using pf by (simp add: served_answer_def)
  have "status (bodiless fun_headers 412) \<noteq> 500" by (simp add: bodiless_def)
  from served_precedence [OF a this refl refl] show ?thesis using a pf by simp
qed

text \<open>C3: a 206 describes exactly the content it carries. Its \<open>Content-Range\<close> names a part inside the
  source, its \<open>Content-Length\<close> is that part's length, and the body streams that very part.\<close>

theorem served_partial_exact:
  assumes "header_map_laws H" "served_answer H ext sv cond (Inr n) ct = Inr r" "status r = 206"
  shows "\<exists>first final. first \<le> final \<and> final < n \<and>
     get_all H (headers r) ''content-range'' = [field_value (Satisfied first final n)] \<and>
     get_all H (headers r) ''content-length'' = [decimal (final - first + 1)] \<and>
     body r = Span first final"
proof -
  have other: "status (refused H) = 500" "status (bodiless H 412) = 412"
    "\<And>e. status (rejection_response H e) \<noteq> 206"
    by (auto simp: refused_def problem_response_def bodiless_def rejection_response_def
        write_or_refuse_def split: option.splits)
  obtain tag current sel r0 where
    sel: "range_select (range_read H (cond_method cond) (cond_fields cond) current) n = Inr sel"
    and head: "served_head H ext sv (Some sel) n tag ct = Some r0"
    and r: "r = with_body (cond_method cond) n sel r0"
    using assms(2,3) other unfolding served_answer_def
    by (auto simp: Let_def dest!: served_head_status split: option.splits sum.splits if_splits)
  have "status r = status r0" by (simp add: r with_body_def Let_def split: prod.splits)
  then obtain first final m where part: "sel = Part first final m"
    using served_head_status [OF head] assms(3) by (cases sel) auto
  have get: "cond_method cond = ''GET''" and wf: "range_read H (cond_method cond) (cond_fields cond) current = Inr specs \<Longrightarrow> list_all spec_wf specs" for specs
    using sel part range_parse_wf
    by (auto simp: range_read_def range_select_def applicable_def split: list.splits if_splits option.splits)
  have b: "m = n \<and> first \<le> final \<and> final < n"
    using range_select_bounds [of _ n first final m] sel part wf by blast
  have "headers r = headers r0" "body r = Span first final"
    using b part get by (auto simp: r with_body_def)
  then show ?thesis using served_head_part [OF assms(1) head] part b by auto
qed

theorem served_partial_exact_witness:
  "\<exists>r first final. served_answer fun_headers (\<lambda>s. [])
       \<lparr>etag = None, last_modified = None, cache_control = None, served_disposition = None\<rparr>
       \<lparr>cond_method = ''GET'', cond_fields = (\<lambda>_. [])(''range'' := [''bytes=-1''])\<rparr>
       (Inr 6 :: unit + nat) (Some ''text/plain'') = Inr r \<and> status r = 206 \<and>
     first \<le> final \<and> final < 6 \<and> body r = Span first final"
proof -
  let ?sv = "\<lparr>etag = None, last_modified = None, cache_control = None, served_disposition = None\<rparr>"
  let ?cond = "\<lparr>cond_method = ''GET'', cond_fields = (\<lambda>_. [])(''range'' := [''bytes=-1''])\<rparr>"
  have "trim ''bytes=-1'' = ''bytes=-1''" "trim ''bytes'' = ''bytes''"
    by (rule trim_id, simp add: is_ascii_graphic_def)+
  then have p: "range_parse ''bytes=-1'' = Inr [Suffix 1]"
    by (simp add: range_parse_def UNIT_def trim_with_def trim_end_with_def is_sp_or_tab_def
        range_spec_def range_digits_def is_ascii_digit_def digit_val_def u64_max_def MAX_RANGES_def)
  have rr: "range_read fun_headers ''GET'' (cond_fields ?cond) None = Inr [Suffix 1]"
    using p by (simp add: range_read_def fun_headers_def get_first_def is_visible_def)
  have sel: "range_select (Inr [Suffix 1]) 6 = Inr (Part 5 5 6)"
    by (simp add: range_select_def applicable_def resolve_one_def)
  have un: "\<not> precondition_failed fun_headers ?sv ?cond None" "\<not> unmodified fun_headers ?sv ?cond None"
    by (simp_all add: precondition_failed_def unmodified_def if_match_def if_none_match_def
        if_none_match_lines_def fun_headers_def)
  have w: "\<exists>r. write_selection fun_headers \<lparr>status = 200, headers = new_map fun_headers, body = Empty\<rparr> (Part 5 5 6) = Some r"
    using write_group_plain [OF fun_headers_laws field_value_visible]
    by (simp add: write_selection_def write_group_accept content_range_group_def del: field_value.simps)
  then obtain r0 where h: "served_head fun_headers (\<lambda>s. []) ?sv (Some (Part 5 5 6)) 6 None (Some ''text/plain'') = Some r0"
    by (auto simp: served_head_def head_described_def insert_some_def Let_def)
  obtain r where a: "served_answer fun_headers (\<lambda>s. []) ?sv ?cond (Inr 6 :: unit + nat) (Some ''text/plain'') = Inr r"
      and st: "status r = 206"
    using h un rr sel served_head_status [OF h] by (auto simp: served_answer_def with_body_def)
  show ?thesis using served_partial_exact [OF fun_headers_laws a st] a st by blast
qed

end
