(* ===== verification/Framing.thy ===== *)
theory Framing
  imports Byte_Source
begin

text \<open>
  \<open>src/crates/kynos/src/response/framing.rs\<close> and the renderer of \<open>range/parts.rs\<close>: the framing of a
  multipart body. A boundary is the prefix and sixteen hexadecimal digits of a counter, the first one
  no part contains; parts are written to a sink twice, once to measure the body and once to build it.
  The lemmas show that the search for a boundary ends, and that the measured length is the built one.
\<close>

section \<open>Boundaries\<close>

definition BOUNDARY_PREFIX :: string where "BOUNDARY_PREFIX = ''kynos-boundary-''"
definition CRLF :: string where "CRLF = [CHR 0x0D, CHR 0x0A]"
definition COUNTER_DIGITS :: nat where "COUNTER_DIGITS = 16"

definition hex_digits :: string where "hex_digits = ''0123456789abcdef''"

definition boundary_new :: "nat \<Rightarrow> string" where
  "boundary_new counter =
     BOUNDARY_PREFIX @
     map (\<lambda>index. hex_digits ! ((counter div 2 ^ (4 * (COUNTER_DIGITS - 1 - index))) mod 16))
         [0..<COUNTER_DIGITS]"

fun contains :: "string \<Rightarrow> string \<Rightarrow> bool" where
  "contains [] needle = (needle = [])"
| "contains (c # haystack) needle =
     (take (length needle) (c # haystack) = needle \<or> contains haystack needle)"

text \<open>The search; the fuel bounds the number of candidates tried.\<close>

fun boundary_from :: "nat \<Rightarrow> nat \<Rightarrow> string list \<Rightarrow> string option" where
  "boundary_from 0 counter bodies = None"
| "boundary_from (Suc fuel) counter bodies =
     (let candidate = boundary_new counter
      in if \<not> list_ex (\<lambda>body. contains body candidate) bodies then Some candidate
         else boundary_from fuel (counter + 1) bodies)"

definition boundary :: "nat \<Rightarrow> string list \<Rightarrow> string option" where
  "boundary fuel bodies = boundary_from fuel 0 bodies"

section \<open>Rendering\<close>

definition encapsulate ::
  "(string \<Rightarrow> 's \<Rightarrow> 's) \<Rightarrow> string \<times> string \<Rightarrow> string \<Rightarrow> 's \<Rightarrow> 's" where
  "encapsulate put part b sink =
     (let sink = put ''--'' sink;
          sink = put b sink;
          sink = put CRLF sink;
          sink = put (fst part) sink;
          sink = put CRLF sink;
          sink = put (snd part) sink
      in put CRLF sink)"

definition close :: "(string \<Rightarrow> 's \<Rightarrow> 's) \<Rightarrow> string \<Rightarrow> 's \<Rightarrow> 's" where
  "close put b sink = put CRLF (put ''--'' (put b (put ''--'' sink)))"

definition put_vec :: "string \<Rightarrow> string \<Rightarrow> string" where "put_vec octets v = v @ octets"
definition put_len :: "string \<Rightarrow> nat \<Rightarrow> nat" where "put_len octets n = n + length octets"

definition render_length :: "(string \<times> string) list \<Rightarrow> string \<Rightarrow> nat" where
  "render_length parts b = close put_len b (foldl (\<lambda>n part. encapsulate put_len part b n) 0 parts)"

definition render :: "(string \<times> string) list \<Rightarrow> string \<Rightarrow> string" where
  "render parts b = close put_vec b (foldl (\<lambda>v part. encapsulate put_vec part b v) [] parts)"

definition put_unfolded :: "(string \<Rightarrow> 's \<Rightarrow> 's) \<Rightarrow> string \<Rightarrow> 's \<Rightarrow> 's" where
  "put_unfolded put value sink =
     foldl (\<lambda>sink piece. put piece sink) sink
       (split_on (\<lambda>octet. octet = CHR 0x0D \<or> octet = CHR 0x0A) value)"

text \<open>\<open>multipart\<close> of \<open>parts.rs\<close>: one part per range, its two header lines and its octets.\<close>

definition part_headers :: "string \<Rightarrow> nat \<Rightarrow> nat \<Rightarrow> nat \<Rightarrow> string" where
  "part_headers media_type first final complete_length =
     put_unfolded put_vec media_type ''Content-Type: '' @ CRLF @ ''Content-Range: '' @
     field_value (Satisfied first final complete_length) @ CRLF"

definition multipart_parts :: "string \<Rightarrow> string \<Rightarrow> (nat \<times> nat) list \<Rightarrow> nat \<Rightarrow> (string \<times> string) list" where
  "multipart_parts media_type octets ranges complete_length =
     map (\<lambda>(first, final). (part_headers media_type first final complete_length,
                            clamped octets first final)) ranges"

definition multipart :: "nat \<Rightarrow> string \<Rightarrow> string \<Rightarrow> (nat \<times> nat) list \<Rightarrow> nat \<Rightarrow> (string \<times> string) option" where
  "multipart fuel media_type octets ranges complete_length =
     (let parts = multipart_parts media_type octets ranges complete_length
      in map_option (\<lambda>b. (''multipart/byteranges; boundary='' @ b, render parts b))
           (boundary fuel (map snd parts)))"

section \<open>Lemmas\<close>

lemma contains_iff: "contains s n \<longleftrightarrow> (\<exists>a b. s = a @ n @ b)"
proof (induction s)
  case (Cons c s)
  have "(take (length n) (c # s) = n) = (\<exists>b. c # s = n @ b)"
    by (metis append_eq_conv_conj append_take_drop_id)
  then show ?case using Cons by (auto simp: Cons_eq_append_conv)
qed auto

lemma render_length_exact: "length (render parts b) = render_length parts b"
proof -
  have "length (foldl (\<lambda>v part. encapsulate put_vec part b v) v parts)
      = foldl (\<lambda>n part. encapsulate put_len part b n) (length v) parts" for v
    by (induction parts arbitrary: v) (simp_all add: encapsulate_def put_vec_def put_len_def add.assoc)
  from this [of "[]"] show ?thesis
    by (simp add: render_def render_length_def close_def put_vec_def put_len_def)
qed

lemma put_unfolded_vec: "set (put_unfolded put_vec v s) \<subseteq> set s \<union> (set v - {CHR 0x0D, CHR 0x0A})"
proof -
  have "set (foldl (\<lambda>sink piece. put_vec piece sink) s ps) = set s \<union> \<Union> (set ` set ps)" for ps
    by (induction ps arbitrary: s) (auto simp: put_vec_def)
  then show ?thesis
    unfolding put_unfolded_def using split_on_pieces split_on_subset by fastforce
qed

text \<open>Distinct counters below \<open>2 ^ 64\<close> give distinct boundaries.\<close>

lemma hex_digit_inject: "i < 16 \<Longrightarrow> j < 16 \<Longrightarrow> hex_digits ! i = hex_digits ! j \<longleftrightarrow> i = j"
proof -
  have "distinct hex_digits" "length hex_digits = 16" by (simp_all add: hex_digits_def)
  then show "i < 16 \<Longrightarrow> j < 16 \<Longrightarrow> ?thesis" by (simp add: nth_eq_iff_index_eq)
qed

lemma boundary_new_inject:
  assumes "boundary_new a = boundary_new b" "a < 2 ^ 64" "b < 2 ^ 64"
  shows "a = b"
proof -
  have nib: "(a div 2 ^ (4 * (15 - i))) mod 16 = (b div 2 ^ (4 * (15 - i))) mod 16" if "i < 16" for i
  proof -
    have "hex_digits ! ((a div 2 ^ (4 * (15 - i))) mod 16) = hex_digits ! ((b div 2 ^ (4 * (15 - i))) mod 16)"
      using assms(1) that
      by (auto simp: boundary_new_def COUNTER_DIGITS_def map_eq_conv simp del: upt_rec_numeral)
    then show ?thesis using hex_digit_inject by simp
  qed
  have "a mod 16 ^ k = b mod 16 ^ k" if "k \<le> 16" for k
    using that
  proof (induction k)
    case (Suc k)
    have "(a div 2 ^ (4 * k)) mod 16 = (b div 2 ^ (4 * k)) mod 16"
      using nib [of "15 - k"] Suc.prems by simp
    moreover have "(2 :: nat) ^ (4 * k) = 16 ^ k" by (simp add: power_mult)
    ultimately have "(a div 16 ^ k) mod 16 = (b div 16 ^ k) mod 16" by simp
    moreover have "n mod 16 ^ Suc k = 16 ^ k * ((n div 16 ^ k) mod 16) + n mod 16 ^ k" for n :: nat
      by (metis mod_mult2_eq power_Suc2)
    ultimately show ?case using Suc by simp
  qed simp
  from this [of 16] show ?thesis using assms(2,3) by simp
qed

lemma length_boundary: "length (boundary_new n) = 31"
  by (simp add: boundary_new_def BOUNDARY_PREFIX_def COUNTER_DIGITS_def)

text \<open>A body holds at most one boundary per position, so some candidate among one more than the
  octets of all bodies is in none.\<close>

lemma contains_occurs:
  assumes "contains s (boundary_new n)"
  shows "\<exists>i<length s. take 31 (drop i s) = boundary_new n"
proof -
  obtain a b where s: "s = a @ boundary_new n @ b" using assms by (auto simp: contains_iff)
  have "take 31 (boundary_new n @ b) = boundary_new n" by (simp add: length_boundary)
  moreover have "length a < length s" using s length_boundary [of n] by simp
  ultimately show ?thesis using s by (intro exI [of _ "length a"]) simp
qed

definition taken :: "string list \<Rightarrow> nat set" where
  "taken bodies = {n. n < 2 ^ 64 \<and> (\<exists>s\<in>set bodies. contains s (boundary_new n))}"

lemma finite_taken: "finite (taken bodies)"
  by (rule finite_subset [of _ "{..<2 ^ 64}"]) (auto simp: taken_def)

lemma card_occurrences: "card (taken [s]) \<le> length s"
proof -
  have inj: "inj_on boundary_new (taken [s])"
    by (rule inj_onI) (auto simp: taken_def dest: boundary_new_inject)
  have "boundary_new ` taken [s] \<subseteq> (\<lambda>i. take 31 (drop i s)) ` {..<length s}"
  proof
    fix x assume "x \<in> boundary_new ` taken [s]"
    then obtain n where "x = boundary_new n" "contains s (boundary_new n)" by (auto simp: taken_def)
    then obtain i where "i < length s" "take 31 (drop i s) = x" using contains_occurs by blast
    then show "x \<in> (\<lambda>i. take 31 (drop i s)) ` {..<length s}" by blast
  qed
  then have "card (boundary_new ` taken [s]) \<le> card ((\<lambda>i. take 31 (drop i s)) ` {..<length s})"
    by (intro card_mono) auto
  also have "\<dots> \<le> length s" using card_image_le [of "{..<length s}"] by simp
  finally show ?thesis using card_image [OF inj] by simp
qed

lemma card_taken: "card (taken bodies) \<le> sum_list (map length bodies)"
proof (induction bodies)
  case Nil show ?case by (simp add: taken_def)
next
  case (Cons s bodies)
  have "taken (s # bodies) = taken [s] \<union> taken bodies" by (auto simp: taken_def)
  then have "card (taken (s # bodies)) \<le> card (taken [s]) + card (taken bodies)"
    by (simp add: card_Un_le)
  then show ?case using Cons card_occurrences [of s] by simp
qed

lemma free_boundary:
  assumes "sum_list (map length bodies) < 2 ^ 64"
  shows "\<exists>n\<le> sum_list (map length bodies). \<not> list_ex (\<lambda>s. contains s (boundary_new n)) bodies"
proof (rule ccontr)
  assume neg: "\<not> ?thesis"
  have "{..sum_list (map length bodies)} \<subseteq> taken bodies"
  proof
    fix n assume n: "n \<in> {..sum_list (map length bodies)}"
    then have "list_ex (\<lambda>s. contains s (boundary_new n)) bodies" using neg by simp
    moreover have "n < 2 ^ 64" using n assms by simp
    ultimately show "n \<in> taken bodies" unfolding taken_def list_ex_iff by blast
  qed
  then have "card {..sum_list (map length bodies)} \<le> card (taken bodies)"
    by (rule card_mono [OF finite_taken])
  then show False using card_taken [of bodies] by simp
qed

lemma boundary_from_finds:
  assumes "n \<ge> counter" "n - counter < fuel" "\<not> list_ex (\<lambda>s. contains s (boundary_new n)) bodies"
  shows "\<exists>m. boundary_from fuel counter bodies = Some (boundary_new m) \<and>
             \<not> list_ex (\<lambda>s. contains s (boundary_new m)) bodies"
  using assms
proof (induction fuel arbitrary: counter)
  case (Suc fuel)
  show ?case
  proof (cases "list_ex (\<lambda>s. contains s (boundary_new counter)) bodies")
    case True
    then have "counter \<noteq> n" using Suc.prems(3) by auto
    then show ?thesis using Suc.IH [of "counter + 1"] Suc.prems True by (simp add: Let_def)
  qed (auto simp: Let_def)
qed simp

section \<open>Properties\<close>

text \<open>C10: the search for a boundary ends. Among one more candidate than the bodies have octets there
  is one no body contains, and the search returns such a one.\<close>

theorem boundary_found:
  assumes "sum_list (map length bodies) < 2 ^ 64" "sum_list (map length bodies) < fuel"
  shows "\<exists>b. boundary fuel bodies = Some b \<and> list_all (\<lambda>body. \<not> contains body b) bodies"
proof -
  obtain n where "n \<le> sum_list (map length bodies)" "\<not> list_ex (\<lambda>s. contains s (boundary_new n)) bodies"
    using free_boundary [OF assms(1)] by blast
  then show ?thesis
    using boundary_from_finds [of 0 n fuel bodies] assms(2)
    by (auto simp: boundary_def list_ex_iff list_all_iff)
qed

theorem boundary_found_witness:
  "\<exists>b. boundary 6 [''abc'', ''de''] = Some b \<and> list_all (\<lambda>body. \<not> contains body b) [''abc'', ''de'']"
  by (rule boundary_found) simp_all

end
