(* ===== verification/Media.thy ===== *)
theory Media
  imports Http_Text
begin

text \<open>
  Media types (\<open>src/crates/kynos/src/http/media.rs\<close>) and the structured-field items of
  \<open>Accept-Query\<close> (\<open>src/crates/kynos/src/http/accept_query.rs\<close>): splitting a media type, its
  parameters, which declared ranges admit a value, and the escaping of a structured-field string,
  which the rate-limit fields share. The lemmas show that an escaped item reads back as the text it
  was made from.
\<close>

section \<open>Media types\<close>

definition split_essence :: "string \<Rightarrow> string \<times> string" where
  "split_essence media_type =
     (let (essence, parameters) = split_at_byte media_type CHR '';'' in (trim_ascii essence, parameters))"

definition is_json :: "string \<Rightarrow> bool" where
  "is_json media_type =
     (let suffix = ''+json''; essence = fst (split_essence media_type)
      in eq_ignore_ascii_case essence ''application/json'' \<or>
         (length essence \<ge> length suffix \<and>
          eq_ignore_ascii_case (drop (length essence - length suffix) essence) suffix))"

definition is_text :: "string \<Rightarrow> bool" where
  "is_text media_type =
     (let (type', subtype) = split_at_byte (fst (split_essence media_type)) CHR ''/''
      in eq_ignore_ascii_case (trim_ascii type') ''text'' \<and> trim_ascii subtype \<noteq> [])"

text \<open>One step of the parameter loops: the text up to the next semicolon outside quotes, and the rest.\<close>

definition next_parameter :: "string \<Rightarrow> string \<times> string" where
  "next_parameter parameters =
     (case unquoted_position parameters CHR '';'' of
        Some at \<Rightarrow> (take at parameters, drop (at + 1) parameters)
      | None \<Rightarrow> (parameters, []))"

lemma next_parameter_less: "ps \<noteq> [] \<Longrightarrow> length (snd (next_parameter ps)) < length ps"
  by (auto simp: next_parameter_def dest: unquoted_position_less split: option.splits)

lemma next_parameter_rest: "(a, b) = next_parameter ps \<Longrightarrow> ps \<noteq> [] \<Longrightarrow> length b < length ps"
  using next_parameter_less [of ps] by (metis snd_conv)

function charset_in :: "string \<Rightarrow> string option" where
  "charset_in parameters =
     (if parameters = [] then None
      else
        let (parameter, rest) = next_parameter parameters;
            (name, value) = split_at_byte parameter CHR ''=''
        in if eq_ignore_ascii_case (trim_ascii name) ''charset'' then Some (unquoted (trim_ascii value))
           else charset_in rest)"
  by auto
termination
  by (relation "measure length") (auto intro: next_parameter_rest)

declare charset_in.simps [simp del]

definition charset :: "string \<Rightarrow> string option" where
  "charset media_type = charset_in (snd (split_essence media_type))"

definition is_utf8_or_unstated :: "string \<Rightarrow> bool" where
  "is_utf8_or_unstated media_type =
     (case charset media_type of
        Some c \<Rightarrow> eq_ignore_ascii_case c ''utf-8''
      | None \<Rightarrow> True)"

definition is_media_type :: "string \<Rightarrow> bool" where
  "is_media_type media_type =
     (if \<not> is_field_value media_type then False
      else
        let (type', subtype) = split_at_byte (fst (split_essence media_type)) CHR ''/''
        in is_token type' \<and> is_token subtype)"

definition type_and_subtype :: "string \<Rightarrow> string \<times> string" where
  "type_and_subtype media_type = split_at_byte (fst (split_essence media_type)) CHR ''/''"

fun quoted_scan :: "bool \<Rightarrow> string \<Rightarrow> bool" where
  "quoted_scan escaped [] = (\<not> escaped)"
| "quoted_scan escaped (b # bs) =
     (if escaped then quoted_scan False bs
      else if b = bslash then quoted_scan True bs
      else if b = dquote then False
      else quoted_scan False bs)"

definition is_quoted_string :: "string \<Rightarrow> bool" where
  "is_quoted_string value =
     (if 2 \<le> length value \<and> hd value = dquote \<and> List.last value = dquote
      then quoted_scan False (butlast (tl value)) else False)"

function well_formed_from :: "string \<Rightarrow> bool" where
  "well_formed_from parameters =
     (if parameters = [] then True
      else
        let (parameter, rest) = next_parameter parameters;
            parameter = trim_ascii parameter;
            (name, value) = split_at_byte parameter CHR ''=''
        in if parameter \<noteq> [] \<and> (\<not> is_token name \<or> \<not> (is_token value \<or> is_quoted_string value)) then False
           else well_formed_from rest)"
  by auto
termination
  by (relation "measure length") (auto intro: next_parameter_rest)

declare well_formed_from.simps [simp del]

definition has_well_formed_parameters :: "string \<Rightarrow> bool" where
  "has_well_formed_parameters media_type = well_formed_from (snd (split_essence media_type))"

definition is_strict_media_type :: "string \<Rightarrow> bool" where
  "is_strict_media_type value \<longleftrightarrow>
     is_media_type value \<and> length (trim_ascii value) = length value \<and> has_well_formed_parameters value"

definition is_media_range :: "string \<Rightarrow> bool" where
  "is_media_range rng =
     (let (type', subtype) = type_and_subtype rng
      in is_strict_media_type rng \<and> (type' \<noteq> ''*'' \<or> subtype = ''*''))"

definition sp_or_tab :: "char \<Rightarrow> bool" where
  "sp_or_tab c \<longleftrightarrow> c = CHR '' '' \<or> byte c = 9"

definition ranges_well_formed :: "string list \<Rightarrow> bool" where
  "ranges_well_formed ranges \<longleftrightarrow> ranges \<noteq> [] \<and> list_all is_media_range ranges"

definition parameters :: "string \<Rightarrow> (string \<times> string) list" where
  "parameters media_type =
     (let after_essence = (case split_once CHR '';'' media_type of Some (_, rest) \<Rightarrow> rest | None \<Rightarrow> [])
      in filter_map (\<lambda>parameter. split_once CHR ''='' (trim_with sp_or_tab parameter))
           (unquoted_split after_essence CHR '';''))"

definition is_sendable :: "string \<Rightarrow> bool" where
  "is_sendable value =
     (let (type', subtype) = type_and_subtype value
      in is_strict_media_type value \<and> type' \<noteq> ''*'' \<and> subtype \<noteq> ''*'')"

definition admits :: "string \<Rightarrow> string \<Rightarrow> bool" where
  "admits rng value =
     (let (range_type, range_subtype) = type_and_subtype rng;
          (type', subtype) = type_and_subtype value
      in (range_type = ''*'' \<or>
          (eq_ignore_ascii_case range_type type' \<and>
           (range_subtype = ''*'' \<or> eq_ignore_ascii_case range_subtype subtype))) \<and>
         list_all (\<lambda>(name, stated).
           list_ex (\<lambda>(carried, sent).
             eq_nocase name carried \<and> eq_ignore_ascii_case (unquoted stated) (unquoted sent))
           (parameters value))
         (parameters rng))"

definition admitted :: "('h, 'x) header_map_scheme \<Rightarrow> string list \<Rightarrow> string \<Rightarrow> string option" where
  "admitted H ranges value =
     (if \<not> is_sendable value \<or> \<not> list_ex (\<lambda>rng. admits rng value) ranges then None
      else from_bytes H value)"

section \<open>Structured-field items\<close>

definition sf_string :: "string \<Rightarrow> string option" where
  "sf_string name =
     (if \<not> list_all (\<lambda>b. 0x20 \<le> byte b \<and> byte b < 0x7F) name then None
      else
        let escaped = replace_char dquote [bslash, dquote] (replace_char bslash [bslash, bslash] name)
        in Some ([dquote] @ escaped @ [dquote]))"

definition is_sf_token :: "string \<Rightarrow> bool" where
  "is_sf_token value =
     (case value of
        [] \<Rightarrow> False
      | first # rest \<Rightarrow>
          (is_ascii_alpha first \<or> first = CHR ''*'') \<and>
          list_all (\<lambda>b. b = CHR '':'' \<or> b = CHR ''/'' \<or> is_token [b]) rest)"

definition bare_item :: "string \<Rightarrow> string option" where
  "bare_item value = (if is_sf_token value then Some value else sf_string value)"

definition is_key :: "string \<Rightarrow> bool" where
  "is_key name =
     (case name of
        [] \<Rightarrow> False
      | first # rest \<Rightarrow>
          (is_ascii_lower first \<or> first = CHR ''*'') \<and>
          list_all (\<lambda>b. is_ascii_lower b \<or> is_ascii_digit b \<or> b \<in> set ''_-.*'') rest)"

fun unescape :: "string \<Rightarrow> string" where
  "unescape [] = []"
| "unescape [c] = [c]"
| "unescape (c # d # cs) = (if c = bslash then d # unescape cs else c # unescape (d # cs))"

definition unescaped :: "string \<Rightarrow> string" where
  "unescaped value =
     (case Option.bind (strip_prefix [dquote] value) (strip_suffix [dquote]) of
        None \<Rightarrow> value
      | Some inner \<Rightarrow> unescape inner)"

fun write_members :: "string \<Rightarrow> (string \<times> string) list \<Rightarrow> string option" where
  "write_members member [] = Some member"
| "write_members member ((name, value) # ps) =
     (let name = to_lower name
      in if \<not> is_key name then None
         else (case bare_item (unescaped value) of
                 None \<Rightarrow> None
               | Some item \<Rightarrow> write_members (member @ '';'' @ name @ ''='' @ item) ps))"

definition query_member :: "string \<Rightarrow> string option" where
  "query_member key =
     (if \<not> is_media_range key then None
      else
        let essence = trim_end_with sp_or_tab
              (case split_once CHR '';'' key of Some (e, _) \<Rightarrow> e | None \<Rightarrow> key)
        in case split_once CHR ''/'' essence of
             None \<Rightarrow> None
           | Some (type', subtype) \<Rightarrow>
               let wildcard = (\<lambda>half. half \<noteq> ''*'' \<and> CHR ''*'' \<in> set half)
               in if wildcard type' \<or> wildcard subtype \<or> (type' = ''*'' \<and> subtype \<noteq> ''*'') then None
                  else (case bare_item essence of
                          None \<Rightarrow> None
                        | Some member \<Rightarrow> write_members member (parameters key)))"

fun collect_members :: "string list \<Rightarrow> string list \<Rightarrow> string list" where
  "collect_members members [] = members"
| "collect_members members (key # keys) =
     (case query_member key of
        Some member \<Rightarrow>
          collect_members (if member \<in> set members then members else members @ [member]) keys
      | None \<Rightarrow> collect_members members keys)"

definition from_request_body :: "('h, 'x) header_map_scheme \<Rightarrow> string list \<Rightarrow> string option" where
  "from_request_body H keys = join_names H (collect_members [] keys)"

section \<open>Lemmas\<close>

fun escape :: "string \<Rightarrow> string" where
  "escape [] = []"
| "escape (c # cs) = (if c = bslash \<or> c = dquote then [bslash, c] else [c]) @ escape cs"

lemma sf_string_escape:
  "sf_string name = (if list_all (\<lambda>b. 0x20 \<le> byte b \<and> byte b < 0x7F) name
                     then Some (dquote # escape name @ [dquote]) else None)"
proof -
  have "replace_char dquote [bslash, dquote] (replace_char bslash [bslash, bslash] s) = escape s" for s
  proof (induction s)
    case (Cons c s)
    have "replace_char bslash [bslash, bslash] (c # s)
        = (if c = bslash then [bslash, bslash] else [c]) @ replace_char bslash [bslash, bslash] s"
      by (simp add: replace_char_def)
    then show ?case using Cons by (simp add: replace_char_def)
  qed (simp add: replace_char_def)
  then show ?thesis by (simp add: sf_string_def Let_def)
qed

lemma unescape_plain: "c \<noteq> bslash \<Longrightarrow> unescape (c # cs) = c # unescape cs"
  by (cases cs) simp_all

lemma unescape_escape: "unescape (escape s) = s"
  by (induction s) (auto simp: unescape_plain)

lemma unescaped_sf_string: "sf_string v = Some s \<Longrightarrow> unescaped s = v"
proof -
  assume "sf_string v = Some s"
  then have s: "s = dquote # escape v @ [dquote]" by (simp add: sf_string_escape split: if_splits)
  have "strip_suffix [dquote] (escape v @ [dquote]) = Some (escape v)" by (simp add: strip_suffix_Some)
  then show ?thesis by (simp add: s unescaped_def unescape_escape)
qed

lemma escape_quotes: "unquoted_scan True False d (escape v @ dquote # t)
    = map_option (\<lambda>n. n + (length (escape v) + 1)) (unquoted_scan False False d t)"
  by (induction v) (auto simp: option.map_comp comp_def)

text \<open>A structured-field string is one piece of any list it is written into.\<close>

lemma sf_string_scan:
  assumes "sf_string v = Some s" "d \<noteq> dquote"
  shows "unquoted_scan False False d (s @ t) = map_option (\<lambda>n. n + length s) (unquoted_scan False False d t)"
proof -
  have s: "s = dquote # escape v @ [dquote]" using assms(1) by (simp add: sf_string_escape split: if_splits)
  show ?thesis unfolding s using escape_quotes [of d v t] by (simp add: option.map_comp comp_def)
qed

section \<open>Properties\<close>

text \<open>A structured-field item reads back as the text it was made from: whichever of its two forms
  (a token, or a string with quotes and backslashes escaped) \<open>bare_item\<close> chooses, \<open>unescaped\<close> undoes it.\<close>

theorem bare_item_roundtrip:
  assumes "bare_item v = Some s"
  shows "unescaped s = v"
proof (cases "is_sf_token v")
  case True
  then have "s = v" using assms by (simp add: bare_item_def)
  moreover have "strip_prefix [dquote] v = None"
    using True by (cases v) (auto simp: is_sf_token_def bytes_simps)
  ultimately show ?thesis by (simp add: unescaped_def)
next
  case False
  then show ?thesis using assms unescaped_sf_string by (simp add: bare_item_def)
qed

theorem bare_item_roundtrip_witness: "unescaped [dquote, CHR ''a'', bslash, dquote, dquote] = [CHR ''a'', dquote]"
proof -
  have "bare_item [CHR ''a'', dquote] = Some [dquote, CHR ''a'', bslash, dquote, dquote]"
    by (simp add: bare_item_def is_sf_token_def sf_string_def replace_char_def is_token_def
        is_token_byte_def delimiters_def)
  then show ?thesis by (rule bare_item_roundtrip)
qed

end
