(* ===== verification/Rate_Limit.thy ===== *)
theory Rate_Limit
  imports Media
begin

text \<open>
  \<open>src/crates/kynos/src/middleware/rate_limit/\<close>: sliding-window quotas. The counter store is the
  interface \<open>rate_limit_store\<close> (the trait \<open>RateLimitStore\<close>); the in-process store of
  \<open>src/crates/kynos-profile/src/app/interceptors.rs\<close> is an instance. A \<open>Duration\<close> is a number of
  nanoseconds. \<open>rate_check\<close> returns the decision and the store it leaves.
\<close>

section \<open>Quotas\<close>

definition u128_max :: nat where "u128_max = 2 ^ 128 - 1"

definition nanos_per_milli :: nat where "nanos_per_milli = 1000000"
definition as_millis :: "nat \<Rightarrow> nat" where "as_millis d = d div nanos_per_milli"
definition from_millis :: "nat \<Rightarrow> nat" where "from_millis ms = ms * nanos_per_milli"
definition to_u64 :: "nat \<Rightarrow> nat" where "to_u64 n = min n u64_max"

record quota =
  quota_name :: string
  limit :: nat
  window :: nat
  burst :: nat

definition quota_new :: "string \<Rightarrow> nat \<Rightarrow> nat \<Rightarrow> quota" where
  "quota_new name lim win = \<lparr>quota_name = name, limit = lim, window = win, burst = 0\<rparr>"

definition with_burst :: "nat \<Rightarrow> quota \<Rightarrow> quota" where
  "with_burst extra q = q\<lparr>burst := extra\<rparr>"

definition ceiling :: "quota \<Rightarrow> nat" where
  "ceiling q = sat_add (limit q) (burst q)"

datatype quota_unit = Requests | ContentBytes

fun unit_str :: "quota_unit \<Rightarrow> string" where
  "unit_str Requests = ''requests''"
| "unit_str ContentBytes = ''content-bytes''"

record quota_policy =
  policy_name :: string
  policy_quota :: nat
  policy_window :: "nat option"
  policy_unit :: quota_unit

definition policy :: "quota \<Rightarrow> quota_policy" where
  "policy q = \<lparr>policy_name = quota_name q, policy_quota = ceiling q, policy_window = Some (window q),
               policy_unit = Requests\<rparr>"

record service_limit =
  limit_name :: string
  limit_quota :: nat
  remaining :: nat
  reset :: nat

datatype decision =
  Allow (limits: "service_limit list")
| Deny (retry_after: nat) (limits: "service_limit list")

definition estimate :: "nat \<Rightarrow> nat \<Rightarrow> nat \<Rightarrow> nat \<Rightarrow> nat" where
  "estimate previous current elapsed win =
     (if win = 0 then current
      else
        let window_ms = max (as_millis win) 1;
            elapsed_ms = min (as_millis elapsed) window_ms;
            weight = window_ms - elapsed_ms;
            carried = min u128_max (previous * weight) div window_ms
        in sat_add current (to_u64 carried))"

definition recovers_in :: "nat \<Rightarrow> nat \<Rightarrow> nat \<Rightarrow> nat \<Rightarrow> nat" where
  "recovers_in current headroom elapsed win =
     (let remaining_window = win - elapsed
      in if current \<le> headroom then remaining_window
         else
           let excess = current - headroom;
               window_ms = as_millis win;
               decay_ms = min u128_max (window_ms * excess) div max current 1;
               decay = from_millis (to_u64 decay_ms)
           in min duration_max (remaining_window + decay))"

section \<open>Deciding\<close>

datatype store_failure = Failure_allow | Failure_deny

datatype outcome =
  Unread nat
| Unreachable nat
| Refused nat
| Within nat nat string

definition quota_key :: "string \<Rightarrow> quota \<Rightarrow> nat \<Rightarrow> string" where
  "quota_key part q index = part @ ''|'' @ quota_name q @ ''|'' @ decimal index"

definition window_index :: "quota \<Rightarrow> nat \<Rightarrow> nat" where
  "window_index q now = as_millis now div max (as_millis (window q)) 1"

definition decide ::
  "(string \<Rightarrow> 'e + nat) \<Rightarrow> store_failure \<Rightarrow> quota \<Rightarrow> string \<Rightarrow> nat \<Rightarrow> outcome" where
  "decide read on_failure q part now =
     (let window_ms = max (as_millis (window q)) 1;
          index = window_index q now;
          elapsed = from_millis (to_u64 (as_millis now mod window_ms));
          current_key = quota_key part q index;
          previous_key = quota_key part q (index - 1)
      in case (read current_key, read previous_key) of
           (Inr current, Inr previous) \<Rightarrow>
             let counted = estimate previous current elapsed (window q)
             in if counted \<ge> ceiling q
                then Refused (recovers_in counted (ceiling q - 1) elapsed (window q))
                else Within counted elapsed current_key
         | _ \<Rightarrow>
             (case on_failure of
                Failure_allow \<Rightarrow> Unread elapsed
              | Failure_deny \<Rightarrow> Unreachable (window q - elapsed)))"

fun outcome_wait :: "outcome \<Rightarrow> nat option" where
  "outcome_wait (Refused wait) = Some wait"
| "outcome_wait (Unreachable wait) = Some wait"
| "outcome_wait _ = None"

text \<open>\<open>denial = Some(denial.map_or(wait, |existing| existing.max(wait)))\<close> over the outcomes.\<close>

definition denial_of :: "outcome list \<Rightarrow> nat option" where
  "denial_of outcomes =
     foldl (\<lambda>denial outcome.
        case outcome_wait outcome of
          None \<Rightarrow> denial
        | Some wait \<Rightarrow> Some (case denial of None \<Rightarrow> wait | Some existing \<Rightarrow> max existing wait))
       None outcomes"

type_synonym 's increment = "'s \<Rightarrow> string \<Rightarrow> nat \<Rightarrow> nat \<Rightarrow> 's"

text \<open>The second pass: the limit reported for each quota, spending only where nothing denied. A failed
  increment is ignored, so the store's operation is modelled by the state it leaves.\<close>

fun spend ::
  "'s increment \<Rightarrow> bool \<Rightarrow> (quota \<times> outcome) list \<Rightarrow> 's \<Rightarrow> service_limit list \<times> 's" where
  "spend increment spends [] store = ([], store)"
| "spend increment spends ((q, outcome) # rest) store =
     (let (lim, store) =
        (case outcome of
           Unread elapsed \<Rightarrow>
             (\<lparr>limit_name = quota_name q, limit_quota = ceiling q, remaining = ceiling q,
               reset = window q - elapsed\<rparr>, store)
         | Refused wait \<Rightarrow>
             (\<lparr>limit_name = quota_name q, limit_quota = ceiling q, remaining = 0, reset = wait\<rparr>, store)
         | Unreachable wait \<Rightarrow>
             (\<lparr>limit_name = quota_name q, limit_quota = ceiling q, remaining = 0, reset = wait\<rparr>, store)
         | Within counted elapsed current_key \<Rightarrow>
             (\<lparr>limit_name = quota_name q, limit_quota = ceiling q,
               remaining = ceiling q - counted - (if spends then 1 else 0),
               reset = window q - elapsed\<rparr>,
              if spends then increment store current_key 1 (min duration_max (2 * window q)) else store));
          (lims, store) = spend increment spends rest store
      in (lim # lims, store))"

definition rate_check ::
  "('s \<Rightarrow> string \<Rightarrow> 'e + nat) \<Rightarrow> 's increment \<Rightarrow> store_failure \<Rightarrow> quota list \<Rightarrow>
   string option \<Rightarrow> nat \<Rightarrow> 's \<Rightarrow> decision \<times> 's" where
  "rate_check read increment on_failure enforced part now store =
     (case part of
        None \<Rightarrow>
          (Allow (map (\<lambda>q. \<lparr>limit_name = quota_name q, limit_quota = ceiling q,
                            remaining = ceiling q, reset = window q\<rparr>) enforced), store)
      | Some part \<Rightarrow>
          let outcomes = map (\<lambda>q. decide (read store) on_failure q part now) enforced;
              denial = denial_of outcomes;
              (lims, store) = spend increment (denial = None) (zip enforced outcomes) store
          in (case denial of
                Some retry \<Rightarrow> (Deny retry lims, store)
              | None \<Rightarrow> (Allow lims, store)))"

text \<open>The interceptor: what it answers is the next response with the headers of the allowance, or the
  denial. A request no route matched is neither counted nor told.\<close>

datatype 'r intercepted = Unrouted 'r | Continued 'r "service_limit list" | Denied nat "service_limit list"

definition rate_intercept ::
  "('s \<Rightarrow> string \<Rightarrow> 'e + nat) \<Rightarrow> 's increment \<Rightarrow> store_failure \<Rightarrow> quota list \<Rightarrow>
   ('route \<Rightarrow> string option) \<Rightarrow> 'route option \<Rightarrow> nat \<Rightarrow> 'r \<Rightarrow> 's \<Rightarrow> 'r intercepted \<times> 's" where
  "rate_intercept read increment on_failure enforced key route now next store =
     (case route of
        None \<Rightarrow> (Unrouted next, store)
      | Some route \<Rightarrow>
          (case rate_check read increment on_failure enforced (key route) now store of
             (Allow lims, store) \<Rightarrow> (Continued next lims, store)
           | (Deny retry lims, store) \<Rightarrow> (Denied retry lims, store)))"

section \<open>Header fields\<close>

definition refused_limit :: "service_limit list \<Rightarrow> service_limit option" where
  "refused_limit ls =
     (case max_by_key reset (rev (filter (\<lambda>l. remaining l = 0) ls)) of
        Some l \<Rightarrow> Some l
      | None \<Rightarrow> (case ls of [] \<Rightarrow> None | l # _ \<Rightarrow> Some l))"

record rate_limit_headers =
  headers_limit :: nat
  headers_remaining :: nat
  headers_reset :: nat

definition from_limits :: "service_limit list \<Rightarrow> rate_limit_headers" where
  "from_limits ls =
     (case ls of
        [] \<Rightarrow> \<lparr>headers_limit = 0, headers_remaining = 0, headers_reset = 0\<rparr>
      | l # _ \<Rightarrow> \<lparr>headers_limit = limit_quota l, headers_remaining = remaining l, headers_reset = reset l\<rparr>)"

definition rate_limit_encode :: "rate_limit_headers \<Rightarrow> (string \<times> string) list" where
  "rate_limit_encode h =
     [(''x-ratelimit-limit'', decimal (headers_limit h)),
      (''x-ratelimit-remaining'', decimal (headers_remaining h)),
      (''x-ratelimit-reset'', decimal (whole_seconds (headers_reset h)))]"

definition SF_INTEGER_MAX :: nat where "SF_INTEGER_MAX = 999999999999999"

definition sf_integer :: "nat \<Rightarrow> nat option" where
  "sf_integer n = (if n \<le> SF_INTEGER_MAX then Some n else None)"

definition render_limit :: "service_limit \<Rightarrow> string option" where
  "render_limit l =
     (case sf_string (limit_name l) of
        None \<Rightarrow> None
      | Some name \<Rightarrow>
          let member = name @ '';r='' @ decimal (min (remaining l) SF_INTEGER_MAX)
          in Some (case sf_integer (whole_seconds (reset l)) of
                     Some secs \<Rightarrow> member @ '';t='' @ decimal secs
                   | None \<Rightarrow> member))"

definition render_limits :: "('h, 'x) header_map_scheme \<Rightarrow> service_limit list \<Rightarrow> string option" where
  "render_limits H ls = join_names H (filter_map render_limit ls)"

definition render_policy :: "quota_policy \<Rightarrow> string option" where
  "render_policy p =
     (case sf_string (policy_name p) of
        None \<Rightarrow> None
      | Some name \<Rightarrow>
          let member = name @ '';q='' @ decimal (min (policy_quota p) SF_INTEGER_MAX);
              member = (case Option.bind (policy_window p)
                               (\<lambda>w. if whole_seconds w > 0 then sf_integer (whole_seconds w) else None) of
                          Some w \<Rightarrow> member @ '';w='' @ decimal w
                        | None \<Rightarrow> member);
              member = (if policy_unit p \<noteq> Requests
                        then (case sf_string (unit_str (policy_unit p)) of
                                Some u \<Rightarrow> member @ '';qu='' @ u
                              | None \<Rightarrow> member)
                        else member)
          in Some member)"

definition render_policies :: "('h, 'x) header_map_scheme \<Rightarrow> quota_policy list \<Rightarrow> string option" where
  "render_policies H ps = join_names H (filter_map render_policy ps)"

definition rate_limit_fields ::
  "('h, 'x) header_map_scheme \<Rightarrow> service_limit list \<Rightarrow> quota_policy list \<Rightarrow> (string \<times> string) list" where
  "rate_limit_fields H ls ps =
     (case render_limits H ls of Some v \<Rightarrow> [(''ratelimit'', v)] | None \<Rightarrow> []) @
     (case render_policies H ps of Some v \<Rightarrow> [(''ratelimit-policy'', v)] | None \<Rightarrow> [])"

section \<open>The store\<close>

text \<open>Checks one after the other, each at its time, for one client and one quota: the decisions and the
  store they leave.\<close>

fun rate_run ::
  "('s \<Rightarrow> string \<Rightarrow> 'e + nat) \<Rightarrow> 's increment \<Rightarrow> store_failure \<Rightarrow> quota \<Rightarrow> string \<Rightarrow>
   nat list \<Rightarrow> 's \<Rightarrow> decision list \<times> 's" where
  "rate_run read increment f q part [] s = ([], s)"
| "rate_run read increment f q part (t # ts) s =
     (let (d, s) = rate_check read increment f [q] (Some part) t s;
          (ds, s) = rate_run read increment f q part ts s
      in (d # ds, s))"

definition admissions :: "quota \<Rightarrow> nat \<Rightarrow> nat list \<Rightarrow> decision list \<Rightarrow> nat" where
  "admissions q i ts ds =
     length (filter (\<lambda>(t, d). window_index q t = i \<and> (case d of Allow _ \<Rightarrow> True | Deny _ _ \<Rightarrow> False)) (zip ts ds))"

lemma spend_nothing: "snd (spend increment False qs s) = s"
proof (induction qs arbitrary: s)
  case (Cons x qs)
  obtain q out where x: "x = (q, out)" by (cases x)
  show ?case using Cons [of s] unfolding x
    by (cases out) (simp_all add: case_prod_beta Let_def)
qed simp

lemma ceiling_le: "ceiling q \<le> u64_max"
  by (simp add: ceiling_def sat_add_def)

lemma le_sat_add: "min a u64_max \<le> sat_add a b"
  by (simp add: sat_add_def)

lemma estimate_le: "min c u64_max \<le> estimate p c e w"
  unfolding estimate_def Let_def using le_sat_add by simp

lemma estimate_below_ceiling: "estimate p c e w < ceiling q \<Longrightarrow> c < ceiling q"
  using estimate_le [of c p e w] ceiling_le [of q] by linarith

lemma quota_key_inject: "quota_key part q i = quota_key part q j \<longleftrightarrow> i = j"
  by (simp add: quota_key_def)

text \<open>What a policy relies on: an increment by one raises the counter it names and no other, and every
  counter is readable.\<close>

locale rate_limit_store =
  fixes read :: "'s \<Rightarrow> string \<Rightarrow> 'e + nat"
    and increment :: "'s increment"
  assumes readable: "\<exists>n. read s k = Inr n"
    and read_increment: "read s k = Inr n \<Longrightarrow> n < u64_max \<Longrightarrow>
      read (increment s k 1 ttl) k' = (if k' = k then Inr (n + 1) else read s k')"
begin

lemma check_single:
  obtains r ls where "rate_check read increment f [q] (Some part) t s = (Deny r ls, s)"
  | n ls ttl where "rate_check read increment f [q] (Some part) t s
        = (Allow ls, increment s (quota_key part q (window_index q t)) 1 ttl)"
      "read s (quota_key part q (window_index q t)) = Inr n" "n < ceiling q"
proof -
  let ?k = "quota_key part q (window_index q t)" and ?k' = "quota_key part q (window_index q t - 1)"
  obtain c p where c: "read s ?k = Inr c" "read s ?k' = Inr p" using readable by meson
  let ?e = "from_millis (to_u64 (as_millis t mod max (as_millis (window q)) 1))"
  show thesis
  proof (cases "estimate p c ?e (window q) \<ge> ceiling q")
    case True
    then show thesis
      using c that(1) by (simp add: rate_check_def decide_def denial_of_def Let_def)
  next
    case False
    then have "c < ceiling q" using estimate_below_ceiling by (meson not_le)
    then show thesis
      using False c that(2) by (simp add: rate_check_def decide_def denial_of_def Let_def)
  qed
qed

lemma run_within:
  assumes "read s (quota_key part q i) = Inr n" "n \<le> ceiling q"
  shows "n + admissions q i ts (fst (rate_run read increment f q part ts s)) \<le> ceiling q"
  using assms
proof (induction ts arbitrary: s n)
  case Nil then show ?case by (simp add: admissions_def)
next
  case (Cons t ts)
  have step: "fst (rate_run read increment f q part (t # ts) s)
      = d # fst (rate_run read increment f q part ts s')"
    if "rate_check read increment f [q] (Some part) t s = (d, s')" for d s'
    using that by (simp split: prod.splits)
  show ?case
  proof (rule check_single [of f q part t s])
    fix r ls assume c: "rate_check read increment f [q] (Some part) t s = (Deny r ls, s)"
    show ?thesis using Cons step [OF c] by (simp add: admissions_def)
  next
    fix m ls ttl
    let ?s = "increment s (quota_key part q (window_index q t)) 1 ttl"
    assume c: "rate_check read increment f [q] (Some part) t s = (Allow ls, ?s)"
      and m: "read s (quota_key part q (window_index q t)) = Inr m" "m < ceiling q"
    have "m < u64_max" using m(2) ceiling_le by (rule less_le_trans)
    then have r: "read ?s k = (if k = quota_key part q (window_index q t) then Inr (m + 1) else read s k)" for k
      using read_increment m(1) by blast
    show ?thesis
    proof (cases "window_index q t = i")
      case True
      then have "read ?s (quota_key part q i) = Inr (n + 1)" "n + 1 \<le> ceiling q"
        using r m Cons.prems(1) by auto
      then show ?thesis using Cons.IH step [OF c] True by (fastforce simp: admissions_def)
    next
      case False
      then have "read ?s (quota_key part q i) = Inr n" using r Cons.prems(1) quota_key_inject by auto
      then show ?thesis using Cons.IH Cons.prems(2) step [OF c] False by (fastforce simp: admissions_def)
    qed
  qed
qed

end

text \<open>The in-process store: a map from keys to counts, \<open>*counted += by\<close> in 64 bits.\<close>

definition counters_read :: "(string \<Rightarrow> nat option) \<Rightarrow> string \<Rightarrow> 'e + nat" where
  "counters_read s k = Inr (case s k of Some n \<Rightarrow> n | None \<Rightarrow> 0)"

definition counters_increment :: "(string \<Rightarrow> nat option) \<Rightarrow> string \<Rightarrow> nat \<Rightarrow> nat \<Rightarrow> (string \<Rightarrow> nat option)" where
  "counters_increment s k by' ttl =
     s(k := Some (case s k of Some n \<Rightarrow> (n + by') mod 2 ^ 64 | None \<Rightarrow> by'))"

interpretation counters: rate_limit_store counters_read counters_increment
  by unfold_locales
     (auto simp: counters_read_def counters_increment_def u64_max_def split: option.splits)

lemma denial_of_max:
  "denial_of os = (if filter_map outcome_wait os = [] then None
                   else Some (Max (set (filter_map outcome_wait os))))"
proof (induction os rule: rev_induct)
  case (snoc x os)
  have "denial_of (os @ [x]) = (case outcome_wait x of None \<Rightarrow> denial_of os
      | Some w \<Rightarrow> Some (case denial_of os of None \<Rightarrow> w | Some e \<Rightarrow> max e w))"
    unfolding denial_of_def by simp
  then show ?case using snoc
    by (cases "outcome_wait x") (simp_all add: filter_map_append Max_insert max.commute split: option.splits)
qed (simp add: denial_of_def)

lemma filter_middle:
  "filter P xs = as @ y # bs \<Longrightarrow> \<exists>us vs. xs = us @ y # vs \<and> as = filter P us \<and> P y"
proof (induction xs arbitrary: as)
  case (Cons x xs)
  show ?case
  proof (cases "P x \<and> as = []")
    case True
    then show ?thesis using Cons.prems by (intro exI [of _ "[]"] exI [of _ xs]) auto
  next
    case False
    then obtain as' where as: "filter P xs = as' @ y # bs" "as = (if P x then x # as' else as')"
      using Cons.prems by (cases as) (auto split: if_splits)
    then obtain us vs where "xs = us @ y # vs" "as' = filter P us" "P y" using Cons.IH by blast
    then show ?thesis using as(2) by (intro exI [of _ "x # us"] exI [of _ vs]) simp
  qed
qed simp

section \<open>Properties\<close>


text \<open>C15: a refused request spends nothing: when any quota denies it, the store is left as it was, for
  every other quota too, and the wait told is the longest any of them asks for.\<close>

theorem denied_spends_nothing:
  assumes "rate_check read increment f enforced (Some part) now s = (Deny wait ls, s')"
  shows "s' = s \<and>
         (let waits = filter_map outcome_wait (map (\<lambda>q. decide (read s) f q part now) enforced)
          in waits \<noteq> [] \<and> wait = Max (set waits))"
proof -
  let ?os = "map (\<lambda>q. decide (read s) f q part now) enforced"
  have d: "denial_of ?os = Some wait" and sp: "s' = snd (spend increment (denial_of ?os = None) (zip enforced ?os) s)"
    using assms by (auto simp: rate_check_def Let_def split: prod.splits option.splits)
  have "s' = s" unfolding sp d by (simp add: spend_nothing)
  then show ?thesis using d by (auto simp: denial_of_max Let_def split: if_splits)
qed

theorem denied_spends_nothing_witness:
  "\<exists>wait ls. rate_check (counters_read :: _ \<Rightarrow> _ \<Rightarrow> unit + nat) counters_increment Failure_allow
      [quota_new ''day'' 5 86400000000000, quota_new ''none'' 0 1000000000] (Some ''p'') 0 (\<lambda>_. None)
    = (Deny wait ls, \<lambda>_. None)"
proof -
  let ?s = "(\<lambda>_. None) :: string \<Rightarrow> nat option"
  let ?qs = "[quota_new ''day'' 5 86400000000000, quota_new ''none'' 0 1000000000]"
  let ?c = "rate_check (counters_read :: _ \<Rightarrow> _ \<Rightarrow> unit + nat) counters_increment Failure_allow ?qs (Some ''p'') 0 ?s"
  have "\<exists>wait ls s'. ?c = (Deny wait ls, s')"
    by (simp add: rate_check_def decide_def denial_of_def counters_read_def estimate_def ceiling_def
        quota_new_def sat_add_def as_millis_def nanos_per_milli_def Let_def split: prod.split)
  then obtain wait ls s' where c: "?c = (Deny wait ls, s')" by blast
  from denied_spends_nothing [OF c] have "s' = ?s" by blast
  then show ?thesis using c by blast
qed

text \<open>The limit a refusal reports is one that was exhausted, with the longest reset of those, and the
  first such in the order the quotas were consulted.\<close>

theorem refused_limit_longest:
  assumes "\<exists>l\<in>set ls. remaining l = 0"
  shows "\<exists>l pre post. refused_limit ls = Some l \<and> remaining l = 0 \<and> ls = pre @ l # post \<and>
           (\<forall>m\<in>set ls. remaining m = 0 \<longrightarrow> reset m \<le> reset l) \<and>
           (\<forall>m\<in>set pre. remaining m = 0 \<longrightarrow> reset m < reset l)"
proof -
  let ?zs = "filter (\<lambda>l. remaining l = 0) ls"
  have "rev ?zs \<noteq> []" using assms by (auto simp: filter_empty_conv)
  then obtain l where l: "max_by_key reset (rev ?zs) = Some l" by (metis max_by_key_None option.exhaust)
  obtain post pre where split: "rev ?zs = post @ l # pre"
    "\<forall>m\<in>set post. reset m \<le> reset l" "\<forall>m\<in>set pre. reset m < reset l"
    using max_by_key_last [OF l] by blast
  then have zs: "?zs = rev pre @ l # rev post"
    by (metis append.assoc append_Cons append_Nil rev.simps(2) rev_append rev_rev_ident)
  obtain us vs where ls: "ls = us @ l # vs" "rev pre = filter (\<lambda>l. remaining l = 0) us" "remaining l = 0"
    using filter_middle [OF zs] by blast
  have "reset m \<le> reset l" if "m \<in> set ls" "remaining m = 0" for m
  proof -
    have "m \<in> set ?zs" using that by simp
    then show ?thesis unfolding zs using split(2,3) by auto
  qed
  moreover have "reset m < reset l" if "m \<in> set us" "remaining m = 0" for m
  proof -
    have "m \<in> set (rev pre)" unfolding ls(2) using that by simp
    then show ?thesis using split(3) by simp
  qed
  moreover have "refused_limit ls = Some l" unfolding refused_limit_def l by simp
  ultimately show ?thesis using ls(1,3) by blast
qed

theorem refused_limit_longest_witness:
  "\<exists>l. refused_limit [\<lparr>limit_name = ''a'', limit_quota = 3, remaining = 0, reset = 5\<rparr>] = Some l \<and> remaining l = 0"
  using refused_limit_longest [of "[\<lparr>limit_name = ''a'', limit_quota = 3, remaining = 0, reset = 5\<rparr>]"]
  by auto

end
