(* ===== verification/Negotiation.thy ===== *)
theory Negotiation
  imports Media
begin

text \<open>
  Content negotiation: the \<open>q\<close> parameter (\<open>src/crates/kynos/src/http/quality.rs\<close>), content codings
  (\<open>src/crates/kynos/src/http/coding.rs\<close>) and media types
  (\<open>src/crates/kynos/src/response/negotiate/\<close>). A weight is a number of thousandths. The lemmas say
  exactly which texts are weights and that each choice is the best offer, the earliest of equals.
\<close>

section \<open>Weights\<close>

definition quality_parse :: "string \<Rightarrow> nat option" where
  "quality_parse v =
     (let (whole, fraction) = (case split_once CHR ''.'' v of Some parts \<Rightarrow> parts | None \<Rightarrow> (v, []))
      in if length fraction > 3 \<or> \<not> list_all is_ascii_digit fraction then None
         else if whole = ''0'' then
           Some (sum_list (map (\<lambda>(d, place). digit_val d * place) (zip fraction [100, 10, 1])))
         else if whole = ''1'' then
           (if list_all (\<lambda>b. b = CHR ''0'') fraction then Some 1000 else None)
         else None)"

fun weight_from :: "nat \<Rightarrow> string list \<Rightarrow> nat option" where
  "weight_from q [] = Some q"
| "weight_from q (parameter # params) =
     (case split_once CHR ''='' (trim parameter) of
        None \<Rightarrow> None
      | Some (name, v) \<Rightarrow>
          if eq_nocase (trim name) ''q''
          then (case quality_parse (trim v) of None \<Rightarrow> None | Some q \<Rightarrow> weight_from q params)
          else weight_from q params)"

definition quality_weight :: "string list \<Rightarrow> nat option" where
  "quality_weight params = weight_from 1000 params"

section \<open>Content codings\<close>

definition coding_aliases :: "string \<Rightarrow> string list" where
  "coding_aliases token = (if token = ''gzip'' then [''x-gzip''] else [])"

definition coding_names :: "string \<Rightarrow> string \<Rightarrow> bool" where
  "coding_names name token \<longleftrightarrow>
     eq_nocase name token \<or> list_ex (\<lambda>alias. eq_nocase alias name) (coding_aliases token)"

datatype coding_weight = Qvalue nat | Malformed_weight

definition entry_weight :: "string list \<Rightarrow> coding_weight" where
  "entry_weight parts =
     (case find_map (\<lambda>parameter.
             let parameter = trim parameter
             in case strip_prefix ''q='' parameter of
                  Some w \<Rightarrow> Some w
                | None \<Rightarrow> strip_prefix ''Q='' parameter) parts of
        None \<Rightarrow> Qvalue 1000
      | Some w \<Rightarrow> (case quality_parse (trim w) of None \<Rightarrow> Malformed_weight | Some q \<Rightarrow> Qvalue q))"

fun weight_in :: "string \<Rightarrow> coding_weight option \<Rightarrow> string list \<Rightarrow> coding_weight option" where
  "weight_in token wildcard [] = wildcard"
| "weight_in token wildcard (entry # entries) =
     (let parts = split CHR '';'' entry; name = trim (hd parts); w = entry_weight (tl parts)
      in if coding_names name token then Some w
         else weight_in token (if name = ''*'' then Some w else wildcard) entries)"

definition coding_weight_of :: "string \<Rightarrow> string \<Rightarrow> coding_weight option" where
  "coding_weight_of accept token = weight_in token None (split CHR '','' accept)"

definition coding_quality :: "string \<Rightarrow> string \<Rightarrow> nat option" where
  "coding_quality accept token =
     map_option (\<lambda>w. case w of Qvalue q \<Rightarrow> q | Malformed_weight \<Rightarrow> 0) (coding_weight_of accept token)"

definition identity_quality :: "string \<Rightarrow> nat" where
  "identity_quality accept =
     (case coding_weight_of accept ''identity'' of Some (Qvalue q) \<Rightarrow> q | _ \<Rightarrow> 1000)"

fun best_coding :: "string \<Rightarrow> (string \<times> nat) option \<Rightarrow> string list \<Rightarrow> (string \<times> nat) option" where
  "best_coding accept best [] = best"
| "best_coding accept best (token # available) =
     (case coding_quality accept token of
        None \<Rightarrow> best_coding accept best available
      | Some w \<Rightarrow>
          if w = 0 then best_coding accept best available
          else best_coding accept
                 (if (case best of None \<Rightarrow> True | Some (_, b) \<Rightarrow> w > b) then Some (token, w) else best)
                 available)"

definition preferred :: "string \<Rightarrow> string list \<Rightarrow> string option" where
  "preferred accept available =
     (case best_coding accept None available of
        None \<Rightarrow> None
      | Some (token, w) \<Rightarrow> if identity_quality accept \<le> w then Some token else None)"

section \<open>Media types\<close>

record preference =
  pref_type :: string
  pref_subtype :: string
  quality :: nat
  order :: nat

datatype negotiation_rejection = MalformedAccept string | NotAcceptable

definition invalid_accept :: negotiation_rejection where
  "invalid_accept = MalformedAccept ''expected comma-separated media ranges with q values from 0 to 1''"

fun accept_items :: "nat \<Rightarrow> string list \<Rightarrow> negotiation_rejection + preference list" where
  "accept_items ord [] = Inr []"
| "accept_items ord (item # items) =
     (let item = trim item
      in if item = [] then accept_items (ord + 1) items
         else
           let segments = unquoted_split item CHR '';''; rng = trim (hd segments)
           in (case split_once CHR ''/'' rng of
                 None \<Rightarrow> Inl invalid_accept
               | Some (type', subtype) \<Rightarrow>
                   if type' = [] \<or> subtype = [] \<or> (type' = ''*'' \<and> subtype \<noteq> ''*'') then Inl invalid_accept
                   else (case quality_weight (tl segments) of
                           None \<Rightarrow> Inl invalid_accept
                         | Some q \<Rightarrow>
                             (case accept_items (ord + 1) items of
                                Inl e \<Rightarrow> Inl e
                              | Inr ps \<Rightarrow>
                                  Inr (\<lparr>pref_type = to_lower type', pref_subtype = to_lower subtype,
                                        quality = q, order = ord\<rparr> # ps)))))"

definition accept_parse :: "string \<Rightarrow> negotiation_rejection + preference list" where
  "accept_parse v = accept_items 0 (unquoted_split v CHR '','')"

definition offer_halves :: "string \<Rightarrow> (string \<times> string) option" where
  "offer_halves media_type =
     map_option (\<lambda>(type', subtype). (trim_ascii type', trim_ascii subtype))
       (split_once CHR ''/'' (fst (split_essence media_type)))"

definition same_media_type :: "string \<Rightarrow> string \<Rightarrow> bool" where
  "same_media_type left right =
     (case (offer_halves left, offer_halves right) of
        (Some (left_type, left_subtype), Some (right_type, right_subtype)) \<Rightarrow>
          eq_ignore_ascii_case left_type right_type \<and> eq_ignore_ascii_case left_subtype right_subtype
      | (None, None) \<Rightarrow> eq_ignore_ascii_case (fst (split_essence left)) (fst (split_essence right))
      | _ \<Rightarrow> False)"

definition distinct_offers :: "string list \<Rightarrow> bool" where
  "distinct_offers ms \<longleftrightarrow>
     list_all (\<lambda>first. list_all (\<lambda>second. \<not> same_media_type (ms ! first) (ms ! second))
       [first + 1..<length ms]) [0..<length ms]"

definition specificity :: "preference \<Rightarrow> string \<Rightarrow> string \<Rightarrow> nat option" where
  "specificity p type' subtype =
     (if pref_type p = ''*'' \<and> pref_subtype p = ''*'' then Some 0
      else if eq_nocase (pref_type p) type' \<and> pref_subtype p = ''*'' then Some 1
      else if eq_nocase (pref_type p) type' \<and> eq_nocase (pref_subtype p) subtype then Some 2
      else None)"

type_synonym media_score = "nat \<times> nat \<times> nat reverse"

definition media_score :: "preference list \<Rightarrow> string \<Rightarrow> media_score option" where
  "media_score preferences media_type =
     (case offer_halves media_type of
        None \<Rightarrow> None
      | Some (type', subtype) \<Rightarrow>
          (case max_by_key (\<lambda>(spec, ord, _). (spec, ord))
                  (filter_map (\<lambda>p. case specificity p type' subtype of
                                      None \<Rightarrow> None
                                    | Some spec \<Rightarrow> Some (spec, Reverse (order p), quality p)) preferences) of
             None \<Rightarrow> None
           | Some (spec, ord, q) \<Rightarrow> if q \<noteq> 0 then Some (q, spec, ord) else None))"

text \<open>\<open>max_by\<close> over the scored offers, equal scores compared by the reversed index.\<close>

definition best_scored :: "('a \<Rightarrow> 'k::linorder option) \<Rightarrow> 'a list \<Rightarrow> nat option" where
  "best_scored score offers =
     map_option snd
       (max_by_key (\<lambda>(s, index). (s, Reverse index))
         (filter_map (\<lambda>(index, offer). map_option (\<lambda>s. (s, index)) (score offer))
           (zip [0..<length offers] offers)))"

definition media_choose :: "preference list \<Rightarrow> string list \<Rightarrow> negotiation_rejection + nat" where
  "media_choose preferences offers =
     (case best_scored (media_score preferences) offers of
        Some index \<Rightarrow> Inr index
      | None \<Rightarrow> Inl NotAcceptable)"

text \<open>The extractor: no field accepts everything; repeated lines are one list.\<close>

fun accept_lines :: "('h, 'x) header_map_scheme \<Rightarrow> string \<Rightarrow> string list \<Rightarrow> negotiation_rejection + string" where
  "accept_lines H line [] = Inr line"
| "accept_lines H line (v # vs) =
     (case to_str H v of
        None \<Rightarrow> Inl invalid_accept
      | Some v \<Rightarrow> accept_lines H ((if line \<noteq> [] then line @ '','' else line) @ v) vs)"

definition accept_from_request ::
  "('h, 'x) header_map_scheme \<Rightarrow> 'h \<Rightarrow> negotiation_rejection + preference list" where
  "accept_from_request H headers =
     (case get_all H headers ''accept'' of
        [] \<Rightarrow> accept_parse ''*/*''
      | first # others \<Rightarrow>
          (case accept_lines H [] (first # others) of Inl e \<Rightarrow> Inl e | Inr line \<Rightarrow> accept_parse line))"

text \<open>A negotiated response varies on Accept; the producers are the application's.\<close>

definition respond_with ::
  "('h, 'x) header_map_scheme \<Rightarrow> preference list \<Rightarrow> string list \<Rightarrow> (nat \<Rightarrow> 'h \<times> 'b) \<Rightarrow>
   negotiation_rejection + 'h \<times> 'b" where
  "respond_with H preferences offers produce =
     (case media_choose preferences offers of
        Inl e \<Rightarrow> Inl e
      | Inr selected \<Rightarrow>
          (case produce selected of (hs, b) \<Rightarrow> Inr (vary_on H hs [''accept''], b)))"

section \<open>Lemmas\<close>

lemma scored_mem:
  "(s, i) \<in> set (filter_map (\<lambda>(index, offer). map_option (\<lambda>s. (s, index)) (score offer))
      (zip [0..<length offers] offers)) \<longleftrightarrow> i < length offers \<and> score (offers ! i) = Some s"
  by (auto simp: set_filter_map set_zip) force

lemma best_scored_None: "best_scored score offers = None \<longleftrightarrow> (\<forall>x\<in>set offers. score x = None)"
proof -
  let ?l = "filter_map (\<lambda>(index, offer). map_option (\<lambda>s. (s, index)) (score offer))
      (zip [0..<length offers] offers)"
  have "best_scored score offers = None \<longleftrightarrow> ?l = []" by (simp add: best_scored_def)
  also have "\<dots> \<longleftrightarrow> (\<forall>s i. (s, i) \<notin> set ?l)" by (cases ?l) auto
  also have "\<dots> \<longleftrightarrow> (\<forall>x\<in>set offers. score x = None)"
    unfolding scored_mem by (metis in_set_conv_nth not_None_eq)
  finally show ?thesis .
qed

lemma best_scored_Some:
  assumes "best_scored score offers = Some i"
  shows "i < length offers \<and> (\<exists>s. score (offers ! i) = Some s \<and>
    (\<forall>j<length offers. \<forall>t. score (offers ! j) = Some t \<longrightarrow> t < s \<or> (t = s \<and> i \<le> j)))"
proof -
  let ?l = "filter_map (\<lambda>(index, offer). map_option (\<lambda>s. (s, index)) (score offer))
      (zip [0..<length offers] offers)"
  let ?k = "\<lambda>(s, index). (s, Reverse index)"
  obtain s where m: "max_by_key ?k ?l = Some (s, i)" using assms by (auto simp: best_scored_def)
  have i: "i < length offers" "score (offers ! i) = Some s"
    using max_by_key_mem [OF m] unfolding scored_mem by simp_all
  have "t < s \<or> (t = s \<and> i \<le> j)" if "j < length offers" "score (offers ! j) = Some t" for j t
    using max_by_key_ge [OF m, of "(t, j)"] that unfolding scored_mem by (auto simp: less_eq_prod_def)
  then show ?thesis using i by blast
qed

lemma fraction_value:
  assumes "length f \<le> 3"
  shows "sum_list (map (\<lambda>(d, place). digit_val d * place) (zip f [100, 10, 1])) = dec_val f * 10 ^ (3 - length f)"
proof -
  have "length f < 4" using assms by simp
  then consider "f = []" | a where "f = [a]" | a b where "f = [a, b]" | a b c where "f = [a, b, c]"
    by (cases f; cases "tl f"; cases "tl (tl f)"; cases "tl (tl (tl f))") auto
  then show ?thesis by cases (simp_all add: dec_val_def)
qed

lemma fraction_below: "list_all is_ascii_digit f \<Longrightarrow> length f \<le> 3 \<Longrightarrow> dec_val f * 10 ^ (3 - length f) < 1000"
proof -
  assume f: "list_all is_ascii_digit f" "length f \<le> 3"
  then have "dec_val f < 10 ^ length f" by (intro dec_val_less) (simp add: list_all_iff)
  then have "dec_val f * 10 ^ (3 - length f) < 10 ^ length f * 10 ^ (3 - length f)" by simp
  also have "\<dots> = 10 ^ 3" using f(2) by (simp flip: power_add)
  finally show ?thesis by simp
qed

definition at_most :: "string \<Rightarrow> nat \<Rightarrow> string \<Rightarrow> bool" where
  "at_most accept w t \<longleftrightarrow> (case coding_quality accept t of None \<Rightarrow> True | Some x \<Rightarrow> x \<le> w)"

lemma at_most_mono: "at_most accept v t \<Longrightarrow> v \<le> w \<Longrightarrow> at_most accept w t"
  by (auto simp: at_most_def split: option.splits)

lemma best_coding_None: "best_coding accept best av = None \<longleftrightarrow> best = None \<and> list_all (at_most accept 0) av"
proof (induction av arbitrary: best)
  case (Cons t av)
  show ?case
    using Cons.IH by (cases "coding_quality accept t") (auto simp: at_most_def split: option.splits if_splits)
qed simp

lemma best_coding_Some:
  assumes "best_coding accept best av = Some (t, w)"
  shows "(best = Some (t, w) \<and> list_all (at_most accept w) av) \<or>
    (\<exists>pre post. av = pre @ t # post \<and> coding_quality accept t = Some w \<and> 0 < w \<and>
       list_all (at_most accept (w - 1)) pre \<and> list_all (at_most accept w) post \<and>
       (case best of None \<Rightarrow> True | Some (_, b) \<Rightarrow> b < w))"
  using assms
proof (induction av arbitrary: best)
  case (Cons u av)
  let ?step = "if (case best of None \<Rightarrow> True | Some (_, b) \<Rightarrow> the (coding_quality accept u) > b)
    then Some (u, the (coding_quality accept u)) else best"
  consider (skip) "at_most accept 0 u" "best_coding accept best av = Some (t, w)"
    | (take) x where "coding_quality accept u = Some x" "0 < x"
        "best_coding accept (if (case best of None \<Rightarrow> True | Some (_, b) \<Rightarrow> x > b) then Some (u, x) else best) av
         = Some (t, w)"
    using Cons.prems by (auto simp: at_most_def split: option.splits if_splits)
  then show ?case
  proof cases
    case skip
    then have le: "at_most accept w u" "at_most accept (w - 1) u" using at_most_mono by blast+
    from Cons.IH [OF skip(2)] show ?thesis
    proof (elim disjE exE conjE)
      fix pre post assume "av = pre @ t # post" "coding_quality accept t = Some w" "0 < w"
        "list_all (at_most accept (w - 1)) pre" "list_all (at_most accept w) post"
        "case best of None \<Rightarrow> True | Some (_, b) \<Rightarrow> b < w"
      then show ?thesis using le(2) by (intro disjI2 exI [of _ "u # pre"] exI [of _ post]) simp
    qed (use le(1) in simp)
  next
    case take
    show ?thesis
    proof (cases "case best of None \<Rightarrow> True | Some (_, b) \<Rightarrow> x > b")
      case True
      then have "best_coding accept (Some (u, x)) av = Some (t, w)" using take(3) by simp
      from Cons.IH [OF this] show ?thesis
      proof (elim disjE exE conjE)
        assume "Some (u, x) = Some (t, w)" "list_all (at_most accept w) av"
        then have "u # av = [] @ t # av \<and> coding_quality accept t = Some w \<and> 0 < w \<and>
            list_all (at_most accept (w - 1)) [] \<and> list_all (at_most accept w) av \<and>
            (case best of None \<Rightarrow> True | Some (_, b) \<Rightarrow> b < w)"
          using take(1,2) True by auto
        then show ?thesis by blast
      next
        fix pre post assume r: "av = pre @ t # post" "coding_quality accept t = Some w" "0 < w"
          "list_all (at_most accept (w - 1)) pre" "list_all (at_most accept w) post"
          "case Some (u, x) of None \<Rightarrow> True | Some (_, b) \<Rightarrow> b < w"
        then have "at_most accept (w - 1) u" using take(1) by (simp add: at_most_def)
        moreover have "case best of None \<Rightarrow> True | Some (_, b) \<Rightarrow> b < w"
          using True r(6) by (auto split: option.splits)
        ultimately show ?thesis using r by (intro disjI2 exI [of _ "u # pre"] exI [of _ post]) simp
      qed
    next
      case False
      then obtain v b where b: "best = Some (v, b)" "x \<le> b" by (auto split: option.splits)
      then have "best_coding accept best av = Some (t, w)" using take(3) False by simp
      from Cons.IH [OF this] show ?thesis
      proof (elim disjE exE conjE)
        assume "best = Some (t, w)" "list_all (at_most accept w) av"
        moreover have "at_most accept w u" using calculation(1) b take(1) by (simp add: at_most_def)
        ultimately show ?thesis by simp
      next
        fix pre post assume r: "av = pre @ t # post" "coding_quality accept t = Some w" "0 < w"
          "list_all (at_most accept (w - 1)) pre" "list_all (at_most accept w) post"
          "case best of None \<Rightarrow> True | Some (_, b) \<Rightarrow> b < w"
        then have "at_most accept (w - 1) u" using take(1) b by (simp add: at_most_def)
        then show ?thesis using r by (intro disjI2 exI [of _ "u # pre"] exI [of _ post]) simp
      qed
    qed
  qed
qed simp

section \<open>Properties\<close>

text \<open>Which texts are weights and what they are worth. A weight is 0 with at most three decimals,
  worth those decimals in thousandths, or 1 with at most three zeros; so it is never above 1000, and
  nothing else is read as one.\<close>

theorem quality_exact:
  "quality_parse v = Some n \<longleftrightarrow> n \<le> 1000 \<and> (\<exists>f. length f \<le> 3 \<and>
     ((v = ''0'' \<and> f = [] \<or> v = ''0.'' @ f) \<and> list_all is_ascii_digit f \<and>
        n = dec_val f * 10 ^ (3 - length f) \<or>
      (v = ''1'' \<and> f = [] \<or> v = ''1.'' @ f) \<and> list_all (\<lambda>b. b = CHR ''0'') f \<and>
        n = 1000))" (is "_ \<longleftrightarrow> ?rhs")
proof
  assume q: "quality_parse v = Some n"
  obtain whole f where wf: "(case split_once CHR ''.'' v of Some parts \<Rightarrow> parts | None \<Rightarrow> (v, [])) = (whole, f)"
    by fastforce
  then have v: "v = whole \<and> f = [] \<or> v = whole @ ''.'' @ f"
    by (cases "split_once CHR ''.'' v") (auto simp: split_once_Some)
  have f: "length f \<le> 3" "list_all is_ascii_digit f"
    using q by (auto simp: quality_parse_def wf Let_def split: if_splits)
  consider "whole = ''0''" "n = dec_val f * 10 ^ (3 - length f)"
    | "whole = ''1''" "list_all (\<lambda>b. b = CHR ''0'') f" "n = 1000"
    using q fraction_value [OF f(1)] by (auto simp: quality_parse_def wf Let_def split: if_splits)
  then show ?rhs
  proof cases
    case 1
    then have "n \<le> 1000" using fraction_below [OF f(2,1)] by simp
    then show ?thesis using 1 v f by auto
  next
    case 2 then show ?thesis using v f by auto
  qed
next
  assume ?rhs
  then obtain f d where f: "length f \<le> 3" and d: "v = [d] \<and> f = [] \<or> v = [d] @ ''.'' @ f"
    and n: "d = CHR ''0'' \<and> list_all is_ascii_digit f \<and> n = dec_val f * 10 ^ (3 - length f) \<or>
      d = CHR ''1'' \<and> list_all (\<lambda>b. b = CHR ''0'') f \<and> n = 1000" by auto
  have zero: "is_ascii_digit b" if "b = CHR ''0''" for b using that by (simp add: is_ascii_digit_def)
  have dig: "list_all is_ascii_digit f" 
  proof -
    have "list_all is_ascii_digit f \<or> list_all (\<lambda>b. b = CHR ''0'') f" using n by blast
    then show ?thesis
    proof
      assume "list_all (\<lambda>b. b = CHR ''0'') f"
      then show ?thesis by (rule list.pred_mono_strong) (rule zero)
    qed
  qed
  have "(case split_once CHR ''.'' v of Some parts \<Rightarrow> parts | None \<Rightarrow> (v, [])) = ([d], f)"
  proof -
    have "d \<noteq> CHR ''.''" using n by auto
    then show ?thesis using d by (elim disjE conjE) simp_all
  qed
  then show "quality_parse v = Some n"
    using n f dig fraction_value [OF f] by (elim disjE conjE) (simp_all add: quality_parse_def Let_def)
qed

text \<open>C18: the coding chosen for a response. It is one of those available, the client gave it a positive
  weight no lower than identity's, no available coding has a higher weight, and of equals it is the first.
  None is chosen only when every available coding is unnamed, refused or worth less than identity.\<close>

theorem preferred_best:
  "case preferred accept available of
     Some token \<Rightarrow> (\<exists>pre post w. available = pre @ token # post \<and> coding_quality accept token = Some w \<and>
        0 < w \<and> identity_quality accept \<le> w \<and>
        list_all (at_most accept (w - 1)) pre \<and> list_all (at_most accept w) post)
   | None \<Rightarrow> list_all (\<lambda>t. at_most accept 0 t \<or>
        (0 < identity_quality accept \<and> at_most accept (identity_quality accept - 1) t)) available"
proof (cases "best_coding accept None available")
  case None
  then have "list_all (at_most accept 0) available" unfolding best_coding_None by simp
  then show ?thesis unfolding preferred_def None by (simp add: list_all_iff)
next
  case (Some tw)
  obtain t w where tw: "tw = (t, w)" by (cases tw)
  from best_coding_Some [OF Some [unfolded tw]]
  obtain pre post where p: "available = pre @ t # post" "coding_quality accept t = Some w" "0 < w"
    "list_all (at_most accept (w - 1)) pre" "list_all (at_most accept w) post" by auto
  show ?thesis
  proof (cases "identity_quality accept \<le> w")
    case True
    then have "preferred accept available = Some t" unfolding preferred_def Some tw by simp
    then show ?thesis using p True by auto
  next
    case False
    then have n: "preferred accept available = None" unfolding preferred_def Some tw by simp
    have "list_all (at_most accept w) available"
      using p at_most_mono [of accept "w - 1" _ w] by (auto simp: list_all_iff at_most_def)
    then show ?thesis
      unfolding n using False at_most_mono [of accept w _ "identity_quality accept - 1"]
      by (auto simp: list_all_iff)
  qed
qed

text \<open>The representation negotiated. It is an offer the client's most specific matching range does
  not refuse; no offer has a higher weight, of equal weights none is matched more specifically, of
  those none by an earlier range, and of those it is the first. Nothing is acceptable only when every
  offer is unmatched or refused.\<close>

theorem media_choose_best:
  "case media_choose ps offers of
     Inr i \<Rightarrow> i < length offers \<and> (\<exists>s. media_score ps (offers ! i) = Some s \<and> 0 < fst s \<and>
        list_all (\<lambda>j. case media_score ps (offers ! j) of None \<Rightarrow> True
           | Some t \<Rightarrow> t < s \<or> (t = s \<and> i \<le> j)) [0..<length offers])
   | Inl e \<Rightarrow> e = NotAcceptable \<and> list_all (\<lambda>m. media_score ps m = None) offers"
proof (cases "best_scored (media_score ps) offers")
  case None
  then have "\<forall>m\<in>set offers. media_score ps m = None" by (simp add: best_scored_None)
  then show ?thesis unfolding media_choose_def None by (simp add: list_all_iff)
next
  case (Some i)
  obtain s where i: "i < length offers" "media_score ps (offers ! i) = Some s"
    "\<And>j t. j < length offers \<Longrightarrow> media_score ps (offers ! j) = Some t \<Longrightarrow> t < s \<or> (t = s \<and> i \<le> j)"
    using best_scored_Some [OF Some] by blast
  have "0 < fst s" using i(2) by (auto simp: media_score_def split: option.splits if_splits)
  then show ?thesis
    unfolding media_choose_def Some using i by (auto simp: list_all_iff split: option.split)
qed

end
