(* ===== verification/Language.thy ===== *)
theory Language
  imports Negotiation Response_Head
begin

text \<open>
  Language negotiation (\<open>src/crates/kynos/src/response/language/\<close>): the well-formedness walk over a
  tag's bytes (\<open>tag/grammar.rs\<close>), its case normalization (\<open>tag/mod.rs\<close>), the matching of ranges
  against offered tags (\<open>matching.rs\<close>, RFC 4647) and the choice (\<open>mod.rs\<close>). The lemmas show that a
  parsed tag is a well-formed tag in normal form, that matching is RFC 4647's truncation and
  filtering, and that the choice is the best scored offer.
\<close>

section \<open>Tags\<close>

datatype tag_defect = Empty_tag | MalformedSubtag | PrimaryLanguage | Misplaced | DanglingSingleton

definition IRREGULAR :: "string list" where
  "IRREGULAR =
     [''en-GB-oed'', ''i-ami'', ''i-bnn'', ''i-default'', ''i-enochian'', ''i-hak'', ''i-klingon'',
      ''i-lux'', ''i-mingo'', ''i-navajo'', ''i-pwn'', ''i-tao'', ''i-tay'', ''i-tsu'',
      ''sgn-BE-FR'', ''sgn-BE-NL'', ''sgn-CH-DE'']"

abbreviation hyphen :: char where "hyphen \<equiv> CHR ''-''"

function subtag_end :: "string \<Rightarrow> nat \<Rightarrow> nat" where
  "subtag_end bytes end_at =
     (if end_at < length bytes \<and> bytes ! end_at \<noteq> hyphen then subtag_end bytes (end_at + 1) else end_at)"
  by auto
termination by (relation "measure (\<lambda>(bytes, i). length bytes - i)") auto

declare subtag_end.simps [simp del]

definition all_between :: "(char \<Rightarrow> bool) \<Rightarrow> string \<Rightarrow> nat \<Rightarrow> nat \<Rightarrow> bool" where
  "all_between P bytes start to \<longleftrightarrow> list_all (\<lambda>i. P (bytes ! i)) [start..<to]"

abbreviation "all_alpha \<equiv> all_between is_ascii_alpha"
abbreviation "all_digit \<equiv> all_between is_ascii_digit"
abbreviation "all_alphanum \<equiv> all_between is_ascii_alnum"

definition subtag_matches :: "string \<Rightarrow> nat \<Rightarrow> nat \<Rightarrow> string \<Rightarrow> bool" where
  "subtag_matches bytes start to other = eq_ignore_ascii_case (drop start (take to bytes)) other"

lemma subtag_end_ge: "i \<le> subtag_end bytes i"
proof (induction bytes i rule: subtag_end.induct)
  case (1 bytes i)
  then show ?case by (subst subtag_end.simps) auto
qed

lemma subtag_end_le: "i \<le> length bytes \<Longrightarrow> subtag_end bytes i \<le> length bytes"
proof (induction bytes i rule: subtag_end.induct)
  case (1 bytes i)
  then show ?case by (subst subtag_end.simps) auto
qed

function check_shape :: "string \<Rightarrow> nat \<Rightarrow> tag_defect option" where
  "check_shape bytes cursor =
     (if cursor \<le> length bytes then
        let stop = subtag_end bytes cursor
        in if stop = cursor \<or> stop - cursor > 8 \<or> \<not> all_alphanum bytes cursor stop then Some MalformedSubtag
           else if stop = length bytes then None
           else check_shape bytes (stop + 1)
      else None)"
  by auto
termination
proof (relation "measure (\<lambda>(bytes, cursor). length bytes + 1 - cursor)", goal_cases)
  case (2 bytes cursor stop)
  then show ?case using subtag_end_ge [of cursor bytes] by simp
qed simp

declare check_shape.simps [simp del]

function langtag :: "string \<Rightarrow> nat \<Rightarrow> bool \<Rightarrow> nat \<Rightarrow> bool \<Rightarrow> bool \<Rightarrow> bool \<Rightarrow> tag_defect option" where
  "langtag bytes cursor extlang_allowed extlangs seen_script seen_region in_extensions =
     (if cursor < length bytes then
        let start = cursor + 1; stop = subtag_end bytes start; len = stop - start
        in if subtag_matches bytes start stop ''x'' then
             (if stop = length bytes then Some DanglingSingleton else None)
           else if len = 1 then
             (if stop = length bytes then Some DanglingSingleton
              else if subtag_end bytes (stop + 1) - (stop + 1) < 2 then Some DanglingSingleton
              else langtag bytes stop extlang_allowed extlangs seen_script seen_region True)
           else if in_extensions then
             langtag bytes stop extlang_allowed extlangs seen_script seen_region in_extensions
           else if extlang_allowed \<and> \<not> seen_script \<and> \<not> seen_region \<and> extlangs < 3 \<and> len = 3 \<and>
                   all_alpha bytes start stop then
             langtag bytes stop extlang_allowed (extlangs + 1) seen_script seen_region in_extensions
           else if \<not> seen_script \<and> \<not> seen_region \<and> len = 4 \<and> all_alpha bytes start stop then
             langtag bytes stop extlang_allowed extlangs True seen_region in_extensions
           else if \<not> seen_region \<and> ((len = 2 \<and> all_alpha bytes start stop) \<or>
                                   (len = 3 \<and> all_digit bytes start stop)) then
             langtag bytes stop extlang_allowed extlangs True True in_extensions
           else if len \<ge> 5 \<or> (len = 4 \<and> is_ascii_digit (bytes ! start)) then
             langtag bytes stop extlang_allowed extlangs True True in_extensions
           else Some Misplaced
      else None)"
  by auto
termination
  by (relation "measure (\<lambda>(bytes, cursor, _). length bytes - cursor)")
    (use subtag_end_ge [of "Suc cursor" bytes for cursor bytes] in \<open>auto simp: Suc_le_eq intro!: diff_less_mono2\<close>)

declare langtag.simps [simp del]

definition tag_check :: "string \<Rightarrow> tag_defect option" where
  "tag_check bytes =
     (if bytes = [] then Some Empty_tag
      else if list_ex (\<lambda>t. eq_ignore_ascii_case bytes t) IRREGULAR then None
      else (case check_shape bytes 0 of
              Some e \<Rightarrow> Some e
            | None \<Rightarrow>
                let first = subtag_end bytes 0
                in if subtag_matches bytes 0 first ''x'' then
                     (if first = length bytes then Some DanglingSingleton else None)
                   else if first < 2 \<or> first > 8 \<or> \<not> all_alpha bytes 0 first then Some PrimaryLanguage
                   else langtag bytes first (first \<le> 3) 0 False False False))"

text \<open>\<open>normalize\<close>: subtags before the first singleton are titlecased at four letters, uppercased at
  two; everything else is lowercased.\<close>

fun normalize_from :: "nat \<Rightarrow> bool \<Rightarrow> string list \<Rightarrow> string" where
  "normalize_from pos after_singleton [] = []"
| "normalize_from pos after_singleton (subtag # subtags) =
     (let titlecase = pos > 0 \<and> \<not> after_singleton \<and> length subtag = 4;
          uppercase = pos > 0 \<and> \<not> after_singleton \<and> length subtag = 2
      in (if pos > 0 then [hyphen] else []) @
         map (\<lambda>(offset, c). if uppercase \<or> (titlecase \<and> offset = 0) then ascii_upper c else ascii_lower c)
           (zip [0..<length subtag] subtag) @
         normalize_from (pos + 1) (after_singleton \<or> length subtag = 1) subtags)"

definition tag_normalize :: "string \<Rightarrow> string" where
  "tag_normalize v = normalize_from 0 False (split hyphen v)"

definition tag_parse :: "string \<Rightarrow> tag_defect + string" where
  "tag_parse v = (case tag_check v of Some e \<Rightarrow> Inl e | None \<Rightarrow> Inr (tag_normalize v))"

definition is_well_formed :: "string \<Rightarrow> bool" where
  "is_well_formed v \<longleftrightarrow> tag_check v = None"

definition every_tag_is_well_formed :: "string list \<Rightarrow> bool" where
  "every_tag_is_well_formed tags \<longleftrightarrow> list_all is_well_formed tags"

definition checked_offer :: "string list \<Rightarrow> bool" where
  "checked_offer tags \<longleftrightarrow> tags \<noteq> [] \<and> every_tag_is_well_formed tags"

section \<open>Matching\<close>

datatype match_kind = Wildcard | Extends | Truncates | Exact

primrec match_rank :: "match_kind \<Rightarrow> nat" where
  "match_rank Wildcard = 0"
| "match_rank Extends = 1"
| "match_rank Truncates = 2"
| "match_rank Exact = 3"

instantiation match_kind :: linorder
begin

definition less_eq_match_kind :: "match_kind \<Rightarrow> match_kind \<Rightarrow> bool" where
  "less_eq_match_kind a b \<longleftrightarrow> match_rank a \<le> match_rank b"

definition less_match_kind :: "match_kind \<Rightarrow> match_kind \<Rightarrow> bool" where
  "less_match_kind a b \<longleftrightarrow> match_rank a < match_rank b"

instance
proof
  fix a b :: match_kind
  assume "a \<le> b" "b \<le> a"
  then show "a = b" by (cases a; cases b) (simp_all add: less_eq_match_kind_def)
qed (auto simp: less_eq_match_kind_def less_match_kind_def)

end

text \<open>The truncation walk: a singleton goes together with the subtag after it.\<close>

function truncate_to :: "string list \<Rightarrow> nat \<Rightarrow> nat \<Rightarrow> nat" where
  "truncate_to subtags len tag_length =
     (if len > tag_length then
        let dropped = len - 1
        in truncate_to subtags (if length (subtags ! (dropped - 1)) = 1 then dropped - 1 else dropped) tag_length
      else len)"
  by auto
termination by (relation "measure (\<lambda>(_, len, _). len)") auto

declare truncate_to.simps [simp del]

definition classify :: "string \<Rightarrow> string \<Rightarrow> (match_kind \<times> nat) option" where
  "classify rng tag =
     (if rng = ''*'' then Some (Wildcard, 0)
      else
        let range_subtags = split hyphen rng; tag_subtags = split hyphen tag;
            range_length = length range_subtags; tag_length = length tag_subtags;
            shared = length (takeWhile (\<lambda>(a, b). eq_nocase a b) (zip range_subtags tag_subtags))
        in if shared \<noteq> min range_length tag_length then None
           else if range_length = tag_length then Some (Exact, shared)
           else if range_length < tag_length then Some (Extends, shared)
           else if truncate_to range_subtags range_length tag_length = tag_length
                then Some (Truncates, shared) else None)"

datatype range_defect = Empty_range | PrimarySubtag | Subtag | Weight

record language_preference =
  lang_range :: string
  lang_quality :: nat
  lang_order :: nat

definition language_entry :: "string \<Rightarrow> nat \<Rightarrow> range_defect + language_preference" where
  "language_entry entry ord =
     (let segments = split CHR '';'' (trim entry); rng = trim (hd segments);
          subtags = split hyphen rng; primary = hd subtags
      in if rng = [] then Inl Empty_range
         else if rng \<noteq> ''*'' \<and> (primary = [] \<or> length primary > 8 \<or> \<not> list_all is_ascii_alpha primary)
              then Inl PrimarySubtag
         else if rng \<noteq> ''*'' \<and> list_ex (\<lambda>s. s = [] \<or> length s > 8 \<or> \<not> list_all is_ascii_alnum s) (tl subtags)
              then Inl Subtag
         else (case quality_weight (tl segments) of
                 None \<Rightarrow> Inl Weight
               | Some q \<Rightarrow> Inr \<lparr>lang_range = to_lower rng, lang_quality = q, lang_order = ord\<rparr>))"

type_synonym language_score = "nat \<times> nat reverse \<times> match_kind \<times> nat"

definition language_score :: "language_preference list \<Rightarrow> string \<Rightarrow> language_score option" where
  "language_score preferences tag =
     (case max_by_key
             (\<lambda>(kind, depth, p). (kind, length (split hyphen (lang_range p)), Reverse (lang_order p)))
             (filter_map (\<lambda>p. map_option (\<lambda>(kind, depth). (kind, depth, p)) (classify (lang_range p) tag))
               preferences) of
        None \<Rightarrow> None
      | Some (kind, depth, p) \<Rightarrow>
          if lang_quality p \<noteq> 0 then Some (lang_quality p, Reverse (lang_order p), kind, depth) else None)"

definition language_select :: "language_preference list \<Rightarrow> string list \<Rightarrow> nat option" where
  "language_select preferences offered = best_scored (language_score preferences) offered"

section \<open>The choice\<close>

definition accept_language_parse :: "string \<Rightarrow> language_preference list" where
  "accept_language_parse v =
     filter_map (\<lambda>(ord, entry). case language_entry entry ord of Inl _ \<Rightarrow> None | Inr p \<Rightarrow> Some p)
       (zip [0..<length (split CHR '','' v)] (split CHR '','' v))"

definition accept_language_from ::
  "('h, 'x) header_map_scheme \<Rightarrow> 'h \<Rightarrow> language_preference list" where
  "accept_language_from H hs =
     accept_language_parse (case field_lines H hs ''accept-language'' of Some v \<Rightarrow> v | None \<Rightarrow> [])"

definition language_choose :: "language_preference list \<Rightarrow> string list \<Rightarrow> string" where
  "language_choose preferences tags =
     tags ! (case language_select preferences tags of Some index \<Rightarrow> index | None \<Rightarrow> 0)"

text \<open>\<open>Content-Language\<close>; \<open>None\<close> where the value could not be a field's, which the code expects never.\<close>

definition content_language_group :: "('h, 'x) header_map_scheme \<Rightarrow> string \<Rightarrow> group option" where
  "content_language_group H tag =
     map_option (\<lambda>v. \<lparr>encoded = Some [(''content-language'', v)], repeatable = False,
                      varies = [''accept-language'']\<rparr>) (from_bytes H tag)"

definition localized_response ::
  "('h, 'x) header_map_scheme \<Rightarrow> language_preference list \<Rightarrow> string list \<Rightarrow> (string \<Rightarrow> 'h response) \<Rightarrow>
   'h response option" where
  "localized_response H preferences tags produce =
     (let language = language_choose preferences tags
      in map_option (write_or_refuse H (produce language)) (content_language_group H language))"

section \<open>Tags: letter case does not matter\<close>

lemma ascii_lower_kinds:
  assumes "ascii_lower c = ascii_lower d"
  shows "c = hyphen \<longleftrightarrow> d = hyphen" "is_ascii_alpha c = is_ascii_alpha d" "is_ascii_digit c = is_ascii_digit d"
    "is_ascii_alnum c = is_ascii_alnum d" "ascii_upper c = ascii_upper d"
proof -
  have b: "(if is_ascii_upper c then byte c + 32 else byte c) = (if is_ascii_upper d then byte d + 32 else byte d)"
    using arg_cong [OF assms, of byte] unfolding byte_ascii_lower .
  have "c = hyphen \<longleftrightarrow> byte c = 45" "d = hyphen \<longleftrightarrow> byte d = 45"
    using byte_inject [of _ hyphen] by simp_all
  then show "c = hyphen \<longleftrightarrow> d = hyphen" using b by (auto simp: is_ascii_upper_def split: if_splits)
  show alpha: "is_ascii_alpha c = is_ascii_alpha d"
    using b by (auto simp: is_ascii_alpha_def is_ascii_upper_def is_ascii_lower_def split: if_splits)
  show digit: "is_ascii_digit c = is_ascii_digit d"
    using b by (auto simp: is_ascii_digit_def is_ascii_upper_def split: if_splits)
  show "is_ascii_alnum c = is_ascii_alnum d" using alpha digit by (simp add: is_ascii_alnum_def)
  have u: "ascii_upper x = ascii_upper (ascii_lower x)" for x
    by (cases "is_ascii_upper x") (auto simp: ascii_lower_def ascii_upper_def bytes_simps)
  show "ascii_upper c = ascii_upper d" unfolding u [of c] u [of d] assms ..
qed

lemma eq_nocase_nth:
  assumes "eq_nocase a b" "i < length a"
  shows "ascii_lower (a ! i) = ascii_lower (b ! i)"
proof -
  have "to_lower a ! i = to_lower b ! i" using assms(1) by (simp add: eq_nocase_def)
  then show ?thesis using assms(2) eq_nocase_length [OF assms(1)] by simp
qed

lemma eq_nocase_slice: "eq_nocase a b \<Longrightarrow> eq_nocase (drop i (take j a)) (drop i (take j b))"
  unfolding eq_nocase_def drop_map [symmetric] take_map [symmetric] by simp

lemma subtag_end_nocase:
  assumes "eq_nocase a b"
  shows "subtag_end b i = subtag_end a i"
proof (induction "length a - i" arbitrary: i rule: less_induct)
  case less
  have same: "i < length b \<and> b ! i \<noteq> hyphen \<longleftrightarrow> i < length a \<and> a ! i \<noteq> hyphen"
    using eq_nocase_length [OF assms] ascii_lower_kinds(1) [OF eq_nocase_nth [OF assms]] by metis
  show ?case
  proof (cases "i < length a \<and> a ! i \<noteq> hyphen")
    case True
    then have "subtag_end b (i + 1) = subtag_end a (i + 1)" by (intro less) auto
    then show ?thesis using True same by (simp add: subtag_end.simps [of _ i])
  next
    case False
    then show ?thesis by (simp only: subtag_end.simps [of b i] subtag_end.simps [of a i] same if_False)
  qed
qed

lemma subtag_matches_nocase: "eq_nocase a b \<Longrightarrow> subtag_matches b i j s = subtag_matches a i j s"
  using eq_nocase_slice [of a b i j]
  unfolding subtag_matches_def eq_ignore_ascii_case_iff by (simp add: eq_nocase_def)

lemma all_between_nocase:
  assumes "eq_nocase a b" "\<And>c d. ascii_lower c = ascii_lower d \<Longrightarrow> P c = P d" "j \<le> length a"
  shows "all_between P b i j = all_between P a i j"
proof -
  have "P (b ! k) = P (a ! k)" if "k < j" for k
    using assms(2) [OF eq_nocase_nth [OF assms(1)]] that assms(3) by simp
  then show ?thesis unfolding all_between_def list_all_iff by auto
qed

lemma check_shape_nocase:
  assumes "eq_nocase a b"
  shows "check_shape b i = check_shape a i"
proof (induction "length a + 1 - i" arbitrary: i rule: less_induct)
  case less
  note len = eq_nocase_length [OF assms]
  let ?s = "subtag_end a i"
  show ?case
  proof (cases "i \<le> length a")
    case True
    have an: "all_alphanum b i ?s = all_alphanum a i ?s"
      using all_between_nocase [OF assms ascii_lower_kinds(4) subtag_end_le [OF True]] .
    have ih: "check_shape b (?s + 1) = check_shape a (?s + 1)"
      by (rule less) (use subtag_end_ge [of i a] True in simp)
    show ?thesis
      unfolding check_shape.simps [of b i] check_shape.simps [of a i]
      by (simp only: len [symmetric] subtag_end_nocase [OF assms] an ih Let_def)
  next
    case False
    then show ?thesis using len by (simp add: check_shape.simps [of _ i])
  qed
qed

lemma langtag_nocase:
  assumes "eq_nocase a b"
  shows "langtag b i e n s r x = langtag a i e n s r x"
proof (induction "length a - i" arbitrary: i n s r x rule: less_induct)
  case less
  note len = eq_nocase_length [OF assms]
  let ?s = "subtag_end a (i + 1)"
  show ?case
  proof (cases "i < length a")
    case True
    have le: "?s \<le> length a" "i + 1 \<le> ?s" using True subtag_end_le subtag_end_ge by auto
    have an: "all_alpha b (i + 1) ?s = all_alpha a (i + 1) ?s" "all_digit b (i + 1) ?s = all_digit a (i + 1) ?s"
      using all_between_nocase [OF assms _ le(1)] ascii_lower_kinds(2,3) by blast+
    have ih: "langtag b ?s e n s r x = langtag a ?s e n s r x" for n s r x
      by (rule less) (use le True in simp)
    have d: "(length_4 = 4 \<and> is_ascii_digit (b ! (i + 1))) = (length_4 = 4 \<and> is_ascii_digit (a ! (i + 1)))"
      if "length_4 = ?s - (i + 1)" for length_4
    proof (cases "length_4 = 4")
      case True
      then have "i + 1 < length a" using that le by linarith
      then show ?thesis using ascii_lower_kinds(3) [OF eq_nocase_nth [OF assms]] by simp
    qed simp
    show ?thesis
      unfolding langtag.simps [of b i] langtag.simps [of a i]
      by (simp only: len [symmetric] subtag_end_nocase [OF assms] subtag_matches_nocase [OF assms] an ih Let_def d)
  next
    case False
    then show ?thesis using len by (simp add: langtag.simps [of _ i])
  qed
qed

lemma tag_check_nocase:
  assumes "eq_nocase a b"
  shows "tag_check b = tag_check a"
proof -
  have irr: "eq_ignore_ascii_case b = eq_ignore_ascii_case a"
    using assms by (intro ext) (simp add: eq_ignore_ascii_case_iff eq_nocase_def)
  have len: "length b = length a" "b = [] \<longleftrightarrow> a = []" using eq_nocase_length [OF assms] by auto
  have al: "all_alpha b 0 (subtag_end a 0) = all_alpha a 0 (subtag_end a 0)"
    using all_between_nocase [OF assms _ subtag_end_le [of 0 a]] ascii_lower_kinds(2) by blast
  show ?thesis
    unfolding tag_check_def
    by (simp only: irr len subtag_end_nocase [OF assms] subtag_matches_nocase [OF assms] al
        check_shape_nocase [OF assms] langtag_nocase [OF assms] Let_def)
qed

section \<open>Tags: the normal form\<close>

lemma ascii_upper_lower [simp]: "ascii_lower (ascii_upper c) = ascii_lower c"
  by (cases "is_ascii_lower c") (auto simp: ascii_lower_def ascii_upper_def bytes_simps)

lemma normalize_from_nocase:
  "map to_lower ss = map to_lower ts \<Longrightarrow> normalize_from pos x ss = normalize_from pos x ts"
proof (induction ss arbitrary: pos x ts)
  case (Cons s ss)
  then obtain t ts' where t: "ts = t # ts'" "to_lower s = to_lower t" "map to_lower ss = map to_lower ts'" by auto
  have len: "length s = length t" using arg_cong [OF t(2), of length] by simp
  have "map (\<lambda>(i, c). if P i then ascii_upper c else ascii_lower c) (zip [0..<length s] s) =
      map (\<lambda>(i, c). if P i then ascii_upper c else ascii_lower c) (zip [0..<length t] t)" for P :: "nat \<Rightarrow> bool"
  proof (rule nth_equalityI)
    fix i assume "i < length (map (\<lambda>(i, c). if P i then ascii_upper c else ascii_lower c) (zip [0..<length s] s))"
    then have i: "i < length s" by simp
    have "ascii_lower (s ! i) = ascii_lower (t ! i)"
      by (rule eq_nocase_nth) (use i t(2) in \<open>simp_all add: eq_nocase_def\<close>)
    moreover have "ascii_upper (s ! i) = ascii_upper (t ! i)" by (rule ascii_lower_kinds(5)) fact
    ultimately show "map (\<lambda>(i, c). if P i then ascii_upper c else ascii_lower c) (zip [0..<length s] s) ! i =
      map (\<lambda>(i, c). if P i then ascii_upper c else ascii_lower c) (zip [0..<length t] t) ! i"
      using i len by simp
  qed (simp add: len)
  then show ?case using Cons.IH [OF t(3)] unfolding t(1) by (simp add: len Let_def)
qed simp

lemma split_to_lower: "split hyphen (to_lower s) = map to_lower (split hyphen s)"
proof -
  have h: "ascii_lower c = hyphen \<longleftrightarrow> c = hyphen" for c
    using ascii_lower_kinds(1) [of "ascii_lower c" c] by simp
  show ?thesis
    by (induction s) (auto simp: h split: list.splits)
qed

lemma to_lower_normalize:
  "to_lower (normalize_from pos x ss) = (if pos = 0 \<or> ss = [] then [] else [hyphen]) @ join [hyphen] (map to_lower ss)"
proof (induction ss arbitrary: pos x)
  case (Cons s ss)
  have m: "to_lower (map (\<lambda>(i, c). if P i then ascii_upper c else ascii_lower c) (zip [0..<length s] s)) = to_lower s"
    for P :: "nat \<Rightarrow> bool"
  proof -
    have "to_lower (map (\<lambda>(i, c). if P i then ascii_upper c else ascii_lower c) (zip [0..<length s] s))
        = map (ascii_lower \<circ> snd) (zip [0..<length s] s)" by auto
    also have "\<dots> = to_lower s" unfolding map_map [symmetric] by (simp add: map_snd_zip_take)
    finally show ?thesis .
  qed
  have h: "ascii_lower hyphen = hyphen" by (simp add: ascii_lower_def is_ascii_upper_def)
  show ?case
    using Cons.IH [of "pos + 1" "x \<or> length s = 1"] unfolding normalize_from.simps Let_def map_append m
    by (cases ss) (simp_all add: h)
qed simp

lemma tag_normalize_nocase: "eq_nocase a b \<Longrightarrow> tag_normalize a = tag_normalize b"
  unfolding tag_normalize_def by (rule normalize_from_nocase) (simp add: eq_nocase_def flip: split_to_lower)

lemma eq_nocase_normalize: "eq_nocase (tag_normalize v) v"
  unfolding eq_nocase_def tag_normalize_def to_lower_normalize
  by (simp add: join_split flip: split_to_lower)

section \<open>Matching: RFC 4647\<close>

text \<open>One step of section 3.4's truncation.\<close>

definition truncated :: "string list \<Rightarrow> string list" where
  "truncated ss = (let rest = butlast ss in
     if rest \<noteq> [] \<and> length (List.last rest) = 1 then butlast rest else rest)"

lemma truncated_take:
  assumes "2 \<le> n" "n \<le> length ss"
  shows "truncated (take n ss) =
    take (if length (ss ! (n - 1 - 1)) = 1 then n - 1 - 1 else n - 1) ss"
proof -
  have b: "butlast (take n ss) = take (n - 1) ss" using assms by (simp add: butlast_take)
  have "take (n - 1) ss \<noteq> []" using assms by auto
  moreover have "List.last (take (n - 1) ss) = ss ! (n - 1 - 1)"
    using assms by (subst last_conv_nth) auto
  moreover have "butlast (take (n - 1) ss) = take (n - 1 - 1) ss" using assms by (simp add: butlast_take)
  ultimately show ?thesis unfolding truncated_def b Let_def by simp
qed

lemma length_truncated: "length (truncated ss) \<le> length ss - 1"
  by (auto simp: truncated_def Let_def)

lemma truncate_to_iff:
  assumes "n \<le> length ss" "1 \<le> m"
  shows "truncate_to ss n m = m \<longleftrightarrow> (\<exists>k. length ((truncated ^^ k) (take n ss)) = m)"
  using assms(1)
proof (induction n rule: less_induct)
  case (less n)
  show ?case
  proof (cases "n > m")
    case True
    let ?n = "if length (ss ! (n - 1 - 1)) = 1 then n - 1 - 1 else n - 1"
    have t: "truncated (take n ss) = take ?n ss" by (rule truncated_take) (use True assms(2) less(2) in auto)
    have u: "truncate_to ss n m = truncate_to ss ?n m"
      using True by (subst truncate_to.simps) (simp add: Let_def)
    have "truncate_to ss ?n m = m \<longleftrightarrow> (\<exists>k. length ((truncated ^^ k) (take ?n ss)) = m)"
      by (rule less(1)) (use True less(2) in auto)
    also have "\<dots> \<longleftrightarrow> (\<exists>k. length ((truncated ^^ Suc k) (take n ss)) = m)"
      unfolding funpow_Suc_right comp_def t ..
    also have "\<dots> \<longleftrightarrow> (\<exists>k. length ((truncated ^^ k) (take n ss)) = m)"
    proof
      assume "\<exists>k. length ((truncated ^^ k) (take n ss)) = m"
      then obtain k where k: "length ((truncated ^^ k) (take n ss)) = m" by blast
      then have "k \<noteq> 0" using True less(2) by (intro notI) simp
      then show "\<exists>k. length ((truncated ^^ Suc k) (take n ss)) = m" using k by (metis not0_implies_Suc)
    qed blast
    finally show ?thesis unfolding u .
  next
    case False
    have le: "length ((truncated ^^ k) (take n ss)) \<le> n - k" for k
    proof (induction k)
      case (Suc k)
      then show ?case using length_truncated [of "(truncated ^^ k) (take n ss)"] by simp
    qed simp
    have "truncate_to ss n m = n" using False by (subst truncate_to.simps) simp
    moreover have "n = m \<longleftrightarrow> (\<exists>k. length ((truncated ^^ k) (take n ss)) = m)"
    proof
      assume "n = m" then show "\<exists>k. length ((truncated ^^ k) (take n ss)) = m"
        using less(2) by (intro exI [of _ 0]) simp
    next
      assume "\<exists>k. length ((truncated ^^ k) (take n ss)) = m"
      then obtain k where "m \<le> n - k" using le by metis
      then show "n = m" using False by simp
    qed
    ultimately show ?thesis by simp
  qed
qed

lemma truncated_prefix: "\<exists>n. (truncated ^^ k) ss = take n ss"
proof (induction k)
  case 0 show ?case by (intro exI [of _ "length ss"]) simp
next
  case (Suc k)
  then obtain n where n: "(truncated ^^ k) ss = take n ss" by blast
  have "\<exists>m. truncated xs = take m xs" for xs :: "string list"
    unfolding truncated_def Let_def butlast_conv_take by (metis take_take)
  then show ?case unfolding funpow.simps comp_def n by (metis take_take)
qed

lemma take_length_eq: "t = take n r \<Longrightarrow> take (length t) r = t"
  by (cases "n \<le> length r") simp_all

lemma truncated_to_lower: "map to_lower ((truncated ^^ k) ss) = (truncated ^^ k) (map to_lower ss)"
proof (induction k)
  case (Suc k)
  have "map to_lower (truncated xs) = truncated (map to_lower xs)" for xs :: "string list"
    by (cases "butlast xs = []") (simp_all add: truncated_def Let_def last_map flip: map_butlast)
  then show ?case using Suc by simp
qed simp

lemma shared_all:
  "length (takeWhile (\<lambda>(a, b). eq_nocase a b) (zip rs ts)) = min (length rs) (length ts) \<longleftrightarrow>
   take (length ts) (map to_lower rs) = take (length rs) (map to_lower ts)"
proof (induction rs ts rule: list_induct2')
  case (4 r rs t ts)
  then show ?case by (simp add: eq_nocase_def)
qed simp_all

section \<open>Properties\<close>



text \<open>C20: matching a range against a tag is RFC 4647's: the wildcard, the same tag, Basic Filtering where
  the range's subtags begin the tag's, Lookup where truncating the range step by step, a singleton
  together with the subtag after it, arrives at the tag; all in any letter case, and nothing else matches.\<close>

theorem classify_rfc4647:
  "classify rng tag =
     (let r = map to_lower (split hyphen rng); t = map to_lower (split hyphen tag)
      in if rng = ''*'' then Some (Wildcard, 0)
         else if r = t then Some (Exact, length t)
         else if take (length r) t = r then Some (Extends, length r)
         else if \<exists>k. (truncated ^^ k) r = t then Some (Truncates, length t)
         else None)"
proof -
  let ?rs = "split hyphen rng" and ?ts = "split hyphen tag"
  let ?r = "map to_lower ?rs" and ?t = "map to_lower ?ts"
  let ?shared = "length (takeWhile (\<lambda>(a, b). eq_nocase a b) (zip ?rs ?ts))"
  have ts: "1 \<le> length ?ts" by (cases ?ts) simp_all
  have sh: "?shared = min (length ?rs) (length ?ts) \<longleftrightarrow> take (length ?t) ?r = take (length ?r) ?t"
    unfolding shared_all by simp
  have up: "truncate_to ?rs (length ?rs) (length ?ts) = length ?ts \<longleftrightarrow> (\<exists>k. length ((truncated ^^ k) ?rs) = length ?ts)"
    using truncate_to_iff [OF _ ts, of "length ?rs" ?rs] by simp
  also have "\<dots> \<longleftrightarrow> (\<exists>k. length ((truncated ^^ k) ?r) = length ?t)"
    by (metis length_map truncated_to_lower)
  finally have tr: "truncate_to ?rs (length ?rs) (length ?ts) = length ?ts \<longleftrightarrow>
    (\<exists>k. length ((truncated ^^ k) ?r) = length ?t)" .
  have arrive: "(\<exists>k. (truncated ^^ k) ?r = ?t) \<longleftrightarrow>
      take (length ?t) ?r = ?t \<and> (\<exists>k. length ((truncated ^^ k) ?r) = length ?t)" (is "?L = ?R")
  proof
    assume ?L
    then obtain k where k: "(truncated ^^ k) ?r = ?t" by blast
    obtain n where "(truncated ^^ k) ?r = take n ?r" using truncated_prefix by blast
    then have "take (length ?t) ?r = ?t" unfolding k by (rule take_length_eq)
    moreover have "length ((truncated ^^ k) ?r) = length ?t" unfolding k ..
    ultimately show ?R by blast
  next
    assume R: ?R
    then obtain k where k: "length ((truncated ^^ k) ?r) = length ?t" by blast
    obtain n where n: "(truncated ^^ k) ?r = take n ?r" using truncated_prefix by blast
    from take_length_eq [OF this] have "(truncated ^^ k) ?r = take (length ?t) ?r" unfolding k ..
    then show ?L using R by metis
  qed
  have cl: "classify rng tag =
    (if rng = ''*'' then Some (Wildcard, 0)
     else if take (length ?t) ?r \<noteq> take (length ?r) ?t then None
     else if length ?r = length ?t then Some (Exact, length ?t)
     else if length ?r < length ?t then Some (Extends, length ?r)
     else if \<exists>k. length ((truncated ^^ k) ?r) = length ?t then Some (Truncates, length ?t) else None)"
  proof (cases "take (length ?t) ?r = take (length ?r) ?t")
    case True
    then have s: "?shared = min (length ?rs) (length ?ts)" using sh by simp
    show ?thesis unfolding classify_def Let_def tr s using True by (auto simp: min_def)
  next
    case False
    then have "?shared \<noteq> min (length ?rs) (length ?ts)" using sh by simp
    then show ?thesis unfolding classify_def Let_def using False by simp
  qed
  consider "length ?r = length ?t" | "length ?r < length ?t" | "length ?t < length ?r" by linarith
  then show ?thesis
  proof cases
    case 1
    then have "take (length ?t) ?r = ?r" "take (length ?r) ?t = ?t" by simp_all
    then show ?thesis unfolding cl Let_def arrive using 1 by (simp only: if_True if_False simp_thms) auto
  next
    case 2
    then have k: "take (length ?t) ?r = ?r" by simp
    have ne: "(?r = ?t) = False" "(?t = ?r) = False" using 2 by (auto dest: arg_cong [of _ _ length])
    show ?thesis unfolding cl Let_def arrive k ne using 2 by (auto simp: eq_commute [of ?r])
  next
    case 3
    then have k: "take (length ?r) ?t = ?t" by simp
    have ne: "(?r = ?t) = False" "(?t = ?r) = False" using 3 by (auto dest: arg_cong [of _ _ length])
    show ?thesis unfolding cl Let_def arrive k ne using 3 by auto
  qed
qed

text \<open>The language served is one of those offered. If any offered tag is worth something to the client,
  it is the one with the highest score, the first of equals; only if none is does the default stand.\<close>

theorem language_chosen:
  assumes "tags \<noteq> []"
  shows "\<exists>i<length tags. language_choose ps tags = tags ! i \<and>
    (case language_score ps (tags ! i) of
       None \<Rightarrow> i = 0 \<and> list_all (\<lambda>t. language_score ps t = None) tags
     | Some s \<Rightarrow> list_all (\<lambda>j. case language_score ps (tags ! j) of None \<Rightarrow> True
                   | Some t \<Rightarrow> t < s \<or> (t = s \<and> i \<le> j)) [0..<length tags])"
proof (cases "language_select ps tags")
  case None
  then have "list_all (\<lambda>t. language_score ps t = None) tags"
    by (simp add: language_select_def best_scored_None list_all_iff)
  then show ?thesis
    using assms None by (intro exI [of _ 0]) (auto simp: language_choose_def list_all_iff)
next
  case (Some i)
  obtain s where i: "i < length tags" "language_score ps (tags ! i) = Some s"
    "\<And>j t. j < length tags \<Longrightarrow> language_score ps (tags ! j) = Some t \<Longrightarrow> t < s \<or> (t = s \<and> i \<le> j)"
    using best_scored_Some [OF Some [unfolded language_select_def]] by blast
  then show ?thesis
    using Some by (intro exI [of _ i]) (auto simp: language_choose_def list_all_iff split: option.split)
qed

theorem language_chosen_witness:
  "language_choose [\<lparr>lang_range = ''fr'', lang_quality = 1000, lang_order = 0\<rparr>] [''en'', ''fr''] = ''fr''"
proof -
  let ?ps = "[\<lparr>lang_range = ''fr'', lang_quality = 1000, lang_order = 0\<rparr>]"
  have sc: "language_score ?ps ''en'' = None" "language_score ?ps ''fr'' = Some (1000, Reverse 0, Exact, 1)"
    by (simp_all add: language_score_def classify_def eq_nocase_def ascii_lower_def is_ascii_upper_def)
  obtain i where "i < 2" "language_choose ?ps [''en'', ''fr''] = [''en'', ''fr''] ! i"
    "case language_score ?ps ([''en'', ''fr''] ! i) of None \<Rightarrow> i = 0 \<and> list_all (\<lambda>t. language_score ?ps t = None) [''en'', ''fr'']
      | Some s \<Rightarrow> True"
    using language_chosen [of "[''en'', ''fr'']" ?ps] by (fastforce split: option.splits)
  then show ?thesis using sc by (auto simp: less_2_cases_iff)
qed

end
