(* ===== verification/Utf8.thy ===== *)
theory Utf8
  imports Prelude
begin

text \<open>
  \<open>str::from_utf8\<close> of the Rust standard library: the verdict on a byte sequence, with the
  distinction \<open>Utf8Error::error_len\<close> makes between bytes that can never be UTF-8 and a sequence
  that only ended too early.
\<close>

datatype utf8 = Utf8_ok | Utf8_incomplete | Utf8_bad

text \<open>How many bytes the character a lead byte begins takes; 0 for a byte that begins none.\<close>

definition utf8_width :: "char \<Rightarrow> nat" where
  "utf8_width b =
     (let n = byte b
      in if n < 0x80 then 1 else if 0xC2 \<le> n \<and> n \<le> 0xDF then 2
         else if 0xE0 \<le> n \<and> n \<le> 0xEF then 3 else if 0xF0 \<le> n \<and> n \<le> 0xF4 then 4 else 0)"

text \<open>The second byte's range: narrower after four lead bytes, which excludes overlong forms,
  surrogates and scalars past U+10FFFF.\<close>

definition utf8_second :: "char \<Rightarrow> char \<Rightarrow> bool" where
  "utf8_second a b =
     (let n = byte a; m = byte b
      in if n = 0xE0 then 0xA0 \<le> m \<and> m \<le> 0xBF
         else if n = 0xED then 0x80 \<le> m \<and> m \<le> 0x9F
         else if n = 0xF0 then 0x90 \<le> m \<and> m \<le> 0xBF
         else if n = 0xF4 then 0x80 \<le> m \<and> m \<le> 0x8F
         else is_utf8_continuation b)"

text \<open>The verdict on the continuation bytes after the second, \<open>k\<close> of them, and what follows them.\<close>

fun utf8_tail :: "nat \<Rightarrow> string \<Rightarrow> (string \<Rightarrow> utf8) \<Rightarrow> utf8" where
  "utf8_tail 0 bs rest = rest bs"
| "utf8_tail (Suc k) [] rest = Utf8_incomplete"
| "utf8_tail (Suc k) (b # bs) rest = (if is_utf8_continuation b then utf8_tail k bs rest else Utf8_bad)"

lemma utf8_tail_cong [fundef_cong]:
  "k = k' \<Longrightarrow> bs = bs' \<Longrightarrow> (\<And>cs. length cs \<le> length bs' \<Longrightarrow> f cs = g cs) \<Longrightarrow>
   utf8_tail k bs f = utf8_tail k' bs' g"
  by (induction k bs f arbitrary: k' bs' rule: utf8_tail.induct) auto

function utf8_check :: "string \<Rightarrow> utf8" where
  "utf8_check bytes =
     (case bytes of
        [] \<Rightarrow> Utf8_ok
      | a # rest \<Rightarrow>
          if utf8_width a = 0 then Utf8_bad
          else if utf8_width a = 1 then utf8_check rest
          else (case rest of
                  [] \<Rightarrow> Utf8_incomplete
                | b # rest \<Rightarrow>
                    if \<not> utf8_second a b then Utf8_bad
                    else utf8_tail (utf8_width a - 2) rest utf8_check))"
  by auto
termination by (relation "measure length") auto

declare utf8_check.simps [simp del]

definition from_utf8 :: "string \<Rightarrow> string option" where
  "from_utf8 bytes = (if utf8_check bytes = Utf8_ok then Some bytes else None)"

lemma utf8_check_Nil [simp]: "utf8_check [] = Utf8_ok"
  by (simp add: utf8_check.simps)

lemma utf8_check_ascii: "is_ascii b \<Longrightarrow> utf8_check (b # s) = utf8_check s"
  by (subst utf8_check.simps) (simp add: utf8_width_def bytes_simps Let_def)

lemma from_utf8_Nil [simp]: "from_utf8 [] = Some []"
  by (simp add: from_utf8_def)

lemma from_utf8_Some: "from_utf8 s = Some t \<Longrightarrow> t = s"
  by (simp add: from_utf8_def split: if_splits)

lemma from_utf8_ascii: "list_all is_ascii s \<Longrightarrow> from_utf8 s = Some s"
proof -
  have "list_all is_ascii s \<Longrightarrow> utf8_check s = Utf8_ok" by (induction s) (auto simp: utf8_check_ascii)
  then show "list_all is_ascii s \<Longrightarrow> ?thesis" by (simp add: from_utf8_def)
qed

section \<open>Cutting a text in two\<close>

lemma utf8_tail_eq:
  "utf8_tail k bs f =
     (if \<not> list_all is_utf8_continuation (take k bs) then Utf8_bad
      else if length bs < k then Utf8_incomplete else f (drop k bs))"
  by (induction k bs f rule: utf8_tail.induct) auto

lemma utf8_second_continuation: "utf8_second a b \<Longrightarrow> is_utf8_continuation b"
  by (auto simp: utf8_second_def is_utf8_continuation_def Let_def split: if_splits)

lemma utf8_check_Cons:
  "utf8_check (a # rest) =
     (if utf8_width a = 0 then Utf8_bad
      else if utf8_width a = 1 then utf8_check rest
      else case rest of
        [] \<Rightarrow> Utf8_incomplete
      | b # bs \<Rightarrow>
          if \<not> utf8_second a b \<or> \<not> list_all is_utf8_continuation (take (utf8_width a - 2) bs) then Utf8_bad
          else if length bs < utf8_width a - 2 then Utf8_incomplete
          else utf8_check (drop (utf8_width a - 2) bs))"
  by (subst utf8_check.simps) (auto simp: utf8_tail_eq split: list.split)

lemma utf8_check_append:
  "(utf8_check p = Utf8_ok \<longrightarrow> utf8_check (p @ x) = utf8_check x) \<and>
   (utf8_check p = Utf8_bad \<longrightarrow> utf8_check (p @ x) = Utf8_bad) \<and>
   (utf8_check p = Utf8_incomplete \<longrightarrow> x = [] \<or> \<not> is_utf8_continuation (hd x) \<longrightarrow> utf8_check (p @ x) \<noteq> Utf8_ok)"
proof (induction "length p" arbitrary: p rule: less_induct)
  case less
  show ?case
  proof (cases p)
    case (Cons a rest)
    consider "utf8_width a = 0" | "utf8_width a = 1" | "utf8_width a \<noteq> 0" "utf8_width a \<noteq> 1" by blast
    then show ?thesis
    proof cases
      case 1
      then show ?thesis by (simp add: Cons utf8_check_Cons)
    next
      case 2
      then show ?thesis using less [of rest] by (simp add: Cons utf8_check_Cons [of a])
    next
      case 3
      show ?thesis
      proof (cases rest)
        case Nil
        then show ?thesis
          using 3 utf8_second_continuation [of a] by (cases x) (auto simp: Cons utf8_check_Cons [of a])
      next
        case (Cons b bs)
        let ?k = "utf8_width a - 2"
        have p: "p = a # b # bs" using \<open>p = a # rest\<close> Cons by simp
        show ?thesis
        proof (cases "length bs < ?k")
          case True
          have "\<not> list_all is_utf8_continuation (take (?k - length bs) x)" if "x \<noteq> []" "\<not> is_utf8_continuation (hd x)"
            using that True by (cases x; cases "?k - length bs") auto
          then show ?thesis using 3 True by (cases "x = []") (auto simp: p utf8_check_Cons [of a])
        next
          case False
          then show ?thesis using 3 less [of "drop ?k bs"] by (simp add: p utf8_check_Cons [of a])
        qed
      qed
    qed
  qed simp
qed

lemma utf8_check_at_ascii:
  assumes "utf8_check (a @ c # b) = Utf8_ok" "is_ascii c"
  shows "utf8_check a = Utf8_ok" "utf8_check b = Utf8_ok"
proof -
  have "\<not> is_utf8_continuation c" using assms(2) by (simp add: bytes_simps)
  then show a: "utf8_check a = Utf8_ok"
    using utf8_check_append [of a "c # b"] assms(1) by (cases "utf8_check a") auto
  show "utf8_check b = Utf8_ok"
    using utf8_check_append [of a "c # b"] a assms by (simp add: utf8_check_ascii)
qed

section \<open>Lossy decoding\<close>

text \<open>\<open>String::from_utf8_lossy\<close>: each longest run of bytes that begins a character and does not
  complete it becomes U+FFFD.\<close>

definition replacement :: string where
  "replacement = map char_of [0xEF :: nat, 0xBF, 0xBD]"

function from_utf8_lossy :: "string \<Rightarrow> string" where
  "from_utf8_lossy bytes =
     (case bytes of
        [] \<Rightarrow> []
      | a # rest \<Rightarrow>
          if utf8_width a = 0 then replacement @ from_utf8_lossy rest
          else if utf8_width a = 1 then a # from_utf8_lossy rest
          else (case rest of
                  [] \<Rightarrow> replacement
                | b # rest' \<Rightarrow>
                    if \<not> utf8_second a b then replacement @ from_utf8_lossy rest
                    else
                      let k = utf8_width a - 2;
                          more_bytes = takeWhile is_utf8_continuation (take k rest')
                      in (if length more_bytes = k then a # b # more_bytes else replacement) @
                         from_utf8_lossy (drop (length more_bytes) rest')))"
  by auto
termination by (relation "measure length") auto

declare from_utf8_lossy.simps [simp del]

lemma from_utf8_lossy_ascii: "list_all is_ascii s \<Longrightarrow> from_utf8_lossy s = s"
  by (induction s) (simp_all add: from_utf8_lossy.simps [of "[]"] from_utf8_lossy.simps [of "_ # _"] utf8_width_def bytes_simps Let_def)

end
