(* ===== verification/Forwarded.thy ===== *)
theory Forwarded
  imports Utf8 Http_Text
begin

text \<open>
  \<open>src/crates/kynos/src/http/forwarded.rs\<close>: who sent a request that came through proxies. Addresses
  and the networks trusted, the elements of the forwarding fields read from the right, and the walk
  that resolves the client as far as trust reaches. Addresses are words of their width; reading and
  writing their text is the standard library's \<open>IpAddr\<close>, modelled in the first section.
\<close>

unbundle bit_operations_syntax

section \<open>Addresses\<close>

datatype ip_addr = V4 "32 word" | V6 "128 word"

fun is_ipv4 :: "ip_addr \<Rightarrow> bool" where
  "is_ipv4 (V4 _) = True"
| "is_ipv4 (V6 _) = False"

text \<open>\<open>Ipv6Addr::to_ipv4_mapped\<close>: the address embedded in \<open>::ffff:0:0/96\<close>.\<close>

definition to_ipv4_mapped :: "128 word \<Rightarrow> 32 word option" where
  "to_ipv4_mapped a = (if drop_bit 32 a = 0xFFFF then Some (ucast a) else None)"

fun to_canonical :: "ip_addr \<Rightarrow> ip_addr" where
  "to_canonical (V4 a) = V4 a"
| "to_canonical (V6 a) = (case to_ipv4_mapped a of Some v4 \<Rightarrow> V4 v4 | None \<Rightarrow> V6 a)"

text \<open>\<open>Ipv4Addr::from_str\<close>: four decimal numbers below 256, none with a leading zero.\<close>

definition octet_parse :: "string \<Rightarrow> nat option" where
  "octet_parse s =
     (if s = [] \<or> length s > 3 \<or> \<not> list_all is_ascii_digit s \<or> (hd s = CHR ''0'' \<and> length s > 1)
         \<or> dec_val s > 255
      then None else Some (dec_val s))"

definition ipv4_parse :: "string \<Rightarrow> nat option" where
  "ipv4_parse s =
     (case map octet_parse (split CHR ''.'' s) of
        [Some a, Some b, Some c, Some d] \<Rightarrow> Some (((a * 256 + b) * 256 + c) * 256 + d)
      | _ \<Rightarrow> None)"

definition hex_val :: "char \<Rightarrow> nat" where
  "hex_val c = (if is_ascii_digit c then byte c - 48 else byte (ascii_lower c) - 87)"

definition group_parse :: "string \<Rightarrow> nat option" where
  "group_parse s =
     (if s = [] \<or> length s > 4 \<or> \<not> list_all is_ascii_hexdigit s then None
      else Some (foldl (\<lambda>n c. n * 16 + hex_val c) 0 s))"

text \<open>\<open>Ipv6Addr::from_str\<close>: eight sixteen-bit groups in hexadecimal, the last two of which may be a
  dotted IPv4 address; or fewer around one \<open>::\<close>, which stands for at least one group of zeros.\<close>

fun groups_parse :: "string list \<Rightarrow> nat list option" where
  "groups_parse [] = Some []"
| "groups_parse [g] =
     (case ipv4_parse g of
        Some n \<Rightarrow> Some [n div 65536, n mod 65536]
      | None \<Rightarrow> map_option (\<lambda>n. [n]) (group_parse g))"
| "groups_parse (g # gs) =
     (case group_parse g of
        None \<Rightarrow> None
      | Some n \<Rightarrow> map_option ((#) n) (groups_parse gs))"

fun split_double_colon :: "string \<Rightarrow> (string \<times> string) option" where
  "split_double_colon (a # b # s) =
     (if a = CHR '':'' \<and> b = CHR '':'' then Some ([], s)
      else map_option (\<lambda>(x, y). (a # x, y)) (split_double_colon (b # s)))"
| "split_double_colon _ = None"

definition ipv6_groups :: "string \<Rightarrow> nat list option" where
  "ipv6_groups s =
     (case split_double_colon s of
        None \<Rightarrow>
          (case groups_parse (split CHR '':'' s) of
             Some gs \<Rightarrow> if length gs = 8 then Some gs else None
           | None \<Rightarrow> None)
      | Some (front, back) \<Rightarrow>
          (case (if front = [] then Some [] else try_map group_parse (split CHR '':'' front),
                 if back = [] then Some [] else groups_parse (split CHR '':'' back)) of
             (Some xs, Some ys) \<Rightarrow>
               if length xs + length ys \<le> 7 then Some (xs @ replicate (8 - length xs - length ys) 0 @ ys) else None
           | _ \<Rightarrow> None))"

definition ip_parse :: "string \<Rightarrow> ip_addr option" where
  "ip_parse s =
     (case ipv4_parse s of
        Some n \<Rightarrow> Some (V4 (of_nat n))
      | None \<Rightarrow> map_option (\<lambda>gs. V6 (of_nat (foldl (\<lambda>n g. n * 65536 + g) 0 gs))) (ipv6_groups s))"

section \<open>Networks\<close>

record network =
  net_address :: ip_addr
  net_prefix :: nat

datatype invalid_network = NoPrefix | Address | Prefix | PrefixTooLong nat | EveryAddress

text \<open>\<open>MAX.checked_shl(bits - prefix).unwrap_or(0)\<close> at either width.\<close>

definition leading_mask :: "nat \<Rightarrow> 'a::len word" where
  "leading_mask prefix' =
     (if LENGTH('a) - prefix' < LENGTH('a) then push_bit (LENGTH('a) - prefix') (- 1) else 0)"

definition masked :: "ip_addr \<Rightarrow> nat \<Rightarrow> network" where
  "masked address prefix' =
     \<lparr>net_address =
        (case address of
           V4 a \<Rightarrow> V4 (a AND leading_mask prefix')
         | V6 a \<Rightarrow> V6 (a AND leading_mask prefix')),
      net_prefix = prefix'\<rparr>"

definition network_new :: "ip_addr \<Rightarrow> nat \<Rightarrow> invalid_network + network" where
  "network_new address prefix' =
     (let bits = (if is_ipv4 address then 32 else 128)
      in if prefix' > bits then Inl (PrefixTooLong bits)
         else
           let (address, prefix') =
             (case address of
                V6 v6 \<Rightarrow>
                  if prefix' \<ge> 96 then
                    (case to_ipv4_mapped v6 of Some v4 \<Rightarrow> (V4 v4, prefix' - 96) | None \<Rightarrow> (address, prefix'))
                  else (address, prefix')
              | V4 _ \<Rightarrow> (address, prefix'))
           in if prefix' = 0 then Inl EveryAddress else Inr (masked address prefix'))"

definition network_every :: "ip_addr \<Rightarrow> network" where
  "network_every address = masked address 0"

definition network_contains :: "network \<Rightarrow> ip_addr \<Rightarrow> bool" where
  "network_contains n address =
     (let address = to_canonical address
      in is_ipv4 address = is_ipv4 (net_address n) \<and>
         net_address (masked address (net_prefix n)) = net_address n)"

definition network_parse :: "string \<Rightarrow> invalid_network + network" where
  "network_parse s =
     (case split_once CHR ''/'' s of
        None \<Rightarrow> Inl NoPrefix
      | Some (address, prefix') \<Rightarrow>
          (case ip_parse address of
             None \<Rightarrow> Inl Address
           | Some address \<Rightarrow>
               if prefix' = [] \<or> \<not> list_all is_ascii_digit prefix' \<or>
                  (length prefix' > 1 \<and> starts_with ''0'' prefix')
               then Inl Prefix
               else network_new address (case parse_uint u8_max prefix' of Some p \<Rightarrow> p | None \<Rightarrow> u8_max)))"

section \<open>The trust policy\<close>

datatype proxy_header = Header_forwarded | Header_x_forwarded

record trusted_proxies =
  proxy_header :: "proxy_header option"
  hops :: nat
  addresses :: "ip_addr list"
  networks :: "network list"

definition trust_none :: trusted_proxies where
  "trust_none = \<lparr>proxy_header = None, hops = 0, addresses = [], networks = []\<rparr>"

definition trust_hops :: "proxy_header \<Rightarrow> nat \<Rightarrow> trusted_proxies" where
  "trust_hops header count = trust_none\<lparr>proxy_header := Some header, hops := count\<rparr>"

definition trust_addresses :: "proxy_header \<Rightarrow> ip_addr list \<Rightarrow> trusted_proxies" where
  "trust_addresses header as = trust_none\<lparr>proxy_header := Some header, addresses := map to_canonical as\<rparr>"

definition trust_networks :: "proxy_header \<Rightarrow> network list \<Rightarrow> trusted_proxies" where
  "trust_networks header ns = trust_none\<lparr>proxy_header := Some header, networks := ns\<rparr>"

fun parse_entries :: "string list \<Rightarrow> string \<times> invalid_network + network list" where
  "parse_entries [] = Inr []"
| "parse_entries (entry # entries) =
     (case network_parse entry of
        Inl reason \<Rightarrow> Inl (entry, reason)
      | Inr n \<Rightarrow> (case parse_entries entries of Inl e \<Rightarrow> Inl e | Inr ns \<Rightarrow> Inr (n # ns)))"

definition parse_networks :: "proxy_header \<Rightarrow> string list \<Rightarrow> string \<times> invalid_network + trusted_proxies" where
  "parse_networks header entries =
     (case parse_entries entries of Inl e \<Rightarrow> Inl e | Inr ns \<Rightarrow> Inr (trust_networks header ns))"

definition trust_everyone :: "proxy_header \<Rightarrow> trusted_proxies" where
  "trust_everyone header =
     trust_none\<lparr>proxy_header := Some header, networks := map network_every [V4 0, V6 0]\<rparr>"

definition and_addresses :: "ip_addr list \<Rightarrow> trusted_proxies \<Rightarrow> trusted_proxies" where
  "and_addresses as t = t\<lparr>addresses := addresses t @ map to_canonical as\<rparr>"

definition and_networks :: "network list \<Rightarrow> trusted_proxies \<Rightarrow> trusted_proxies" where
  "and_networks ns t = t\<lparr>networks := networks t @ ns\<rparr>"

definition trusts_nobody :: "trusted_proxies \<Rightarrow> bool" where
  "trusts_nobody t \<longleftrightarrow> proxy_header t = None \<or> (hops t = 0 \<and> addresses t = [] \<and> networks t = [])"

definition policy_header :: "trusted_proxies \<Rightarrow> proxy_header option" where
  "policy_header t = (if trusts_nobody t then None else proxy_header t)"

definition trust_names :: "trusted_proxies \<Rightarrow> ip_addr \<Rightarrow> bool" where
  "trust_names t address \<longleftrightarrow>
     address \<in> set (addresses t) \<or> list_ex (\<lambda>n. network_contains n address) (networks t)"

section \<open>Reading the fields\<close>

record hop =
  hop_address :: "ip_addr option"
  hop_proto :: "string option"

text \<open>\<open>unquoted_rsplit\<close>: the last delimiter before \<open>stop\<close> outside any quoted string, scanning leftwards;
  a quote preceded by an odd run of backslashes does not close one.\<close>

fun unquoted_rfind :: "string \<Rightarrow> char \<Rightarrow> bool \<Rightarrow> nat \<Rightarrow> nat option" where
  "unquoted_rfind bytes d quoted 0 = None"
| "unquoted_rfind bytes d quoted (Suc i) =
     (let quoted =
        (if bytes ! i = dquote
         then (let escapes = length (takeWhile (\<lambda>b. b = bslash) (rev (take i bytes)))
               in quoted \<noteq> (\<not> quoted \<or> even escapes))
         else quoted)
      in if \<not> quoted \<and> bytes ! i = d then Some i else unquoted_rfind bytes d quoted i)"

lemma unquoted_rfind_less: "unquoted_rfind bytes d q stop = Some i \<Longrightarrow> i < stop"
  by (induction bytes d q stop rule: unquoted_rfind.induct)
     (auto simp: Let_def less_Suc_eq split: if_splits)

function rpieces :: "string \<Rightarrow> char \<Rightarrow> nat \<Rightarrow> string list" where
  "rpieces bytes d stop =
     (case unquoted_rfind bytes d False stop of
        None \<Rightarrow> [take stop bytes]
      | Some i \<Rightarrow> drop (i + 1) (take stop bytes) # rpieces bytes d i)"
  by auto
termination by (relation "measure (\<lambda>(_, _, stop). stop)") (auto intro: unquoted_rfind_less)

declare rpieces.simps [simp del]

definition unquoted_rsplit :: "string \<Rightarrow> char \<Rightarrow> string list" where
  "unquoted_rsplit bytes d = filter (\<lambda>p. trim_ascii p \<noteq> []) (rpieces bytes d (length bytes))"

definition node_address :: "string \<Rightarrow> ip_addr option" where
  "node_address node =
     (let node = trim node
      in case strip_prefix ''['' node of
           Some rest \<Rightarrow>
             (case split_once CHR '']'' rest of
                None \<Rightarrow> None
              | Some (address, _) \<Rightarrow> map_option to_canonical (ip_parse address))
         | None \<Rightarrow>
             (case ip_parse node of
                Some address \<Rightarrow> Some (to_canonical address)
              | None \<Rightarrow>
                  ip_parse (case split_once CHR '':'' node of Some (address, _) \<Rightarrow> address | None \<Rightarrow> node)))"

fun read_pairs ::
  "ip_addr option option \<Rightarrow> string option option \<Rightarrow> (string \<times> string option) list \<Rightarrow> hop" where
  "read_pairs address proto [] =
     \<lparr>hop_address = Option.bind address id, hop_proto = Option.bind proto id\<rparr>"
| "read_pairs address proto ((name, raw) # pairs) =
     (if eq_nocase name ''for'' then
        read_pairs (case address of None \<Rightarrow> Some (Option.bind raw node_address) | Some a \<Rightarrow> Some a) proto pairs
      else if eq_nocase name ''proto'' then
        read_pairs address (case proto of None \<Rightarrow> Some raw | Some p \<Rightarrow> Some p) pairs
      else read_pairs address proto pairs)"

definition forwarded_element :: "string \<Rightarrow> hop" where
  "forwarded_element element =
     read_pairs None None
       (filter_map (\<lambda>pair.
          case position (\<lambda>b. b = CHR ''='') pair of
            None \<Rightarrow> None
          | Some i \<Rightarrow>
              Some (trim_ascii (take i pair),
                    map_option (\<lambda>raw. unquoted_str (trim raw)) (from_utf8 (drop (i + 1) pair))))
         (unquoted_rsplit element CHR '';''))"

definition forwarded_elements :: "('h, 'x) header_map_scheme \<Rightarrow> 'h \<Rightarrow> hop list" where
  "forwarded_elements H hs =
     concat (map (\<lambda>v. rev (map forwarded_element (unquoted_rsplit v CHR '','')))
       (get_all H hs ''forwarded''))"

definition x_forwarded_hops :: "string \<Rightarrow> hop list" where
  "x_forwarded_hops v =
     map (\<lambda>address. \<lparr>hop_address = Option.bind (from_utf8 address) node_address, hop_proto = None\<rparr>)
       (filter (\<lambda>address. address \<noteq> []) (map trim_ascii (split CHR '','' v)))"

fun x_forwarded_proto :: "('h, 'x) header_map_scheme \<Rightarrow> string list \<Rightarrow> string option" where
  "x_forwarded_proto H [] = None"
| "x_forwarded_proto H (v # vs) =
     (case to_str H v of
        None \<Rightarrow> None
      | Some v \<Rightarrow>
          (case find (\<lambda>p. p \<noteq> []) (map trim (rev (split CHR '','' v))) of
             Some proto \<Rightarrow> Some proto
           | None \<Rightarrow> x_forwarded_proto H vs))"

definition x_forwarded_elements :: "('h, 'x) header_map_scheme \<Rightarrow> 'h \<Rightarrow> hop list \<times> string option" where
  "x_forwarded_elements H hs =
     (concat (map x_forwarded_hops (get_all H hs ''x-forwarded-for'')),
      x_forwarded_proto H (rev (get_all H hs ''x-forwarded-proto'')))"

definition elements :: "('h, 'x) header_map_scheme \<Rightarrow> 'h \<Rightarrow> proxy_header \<Rightarrow> hop list \<times> string option" where
  "elements H hs header =
     (case header of
        Header_forwarded \<Rightarrow> (forwarded_elements H hs, None)
      | Header_x_forwarded \<Rightarrow> x_forwarded_elements H hs)"

section \<open>Resolving the client\<close>

record forwarded =
  client :: "ip_addr option"
  proto :: "string option"

text \<open>The walk from the right: \<open>believed\<close> elements were taken, \<open>sender\<close> is the last one's address (the
  peer's at first), \<open>stop\<close> the last one.\<close>

fun walk :: "trusted_proxies \<Rightarrow> nat \<Rightarrow> ip_addr option \<Rightarrow> hop option \<Rightarrow> hop list \<Rightarrow> ip_addr option \<times> hop option" where
  "walk t believed sender stop [] = (sender, stop)"
| "walk t believed sender stop (h # chain) =
     (if (case sender of Some s \<Rightarrow> trust_names t s | None \<Rightarrow> False) \<or> believed < hops t
      then walk t (believed + 1) (hop_address h) (Some h) chain
      else (sender, stop))"

definition resolve_forwarded ::
  "('h, 'x) header_map_scheme \<Rightarrow> 'h \<Rightarrow> ip_addr option \<Rightarrow> trusted_proxies \<Rightarrow> forwarded" where
  "resolve_forwarded H hs peer t =
     (let peer_ip = map_option to_canonical peer
      in case policy_header t of
           None \<Rightarrow> \<lparr>client = peer_ip, proto = None\<rparr>
         | Some header \<Rightarrow>
             let (chain, peer_proto) = elements H hs header;
                 peer_is_trusted = hops t > 0 \<or> (case peer_ip of Some a \<Rightarrow> trust_names t a | None \<Rightarrow> False);
                 (addr, stop) = walk t 0 peer_ip None (rev chain);
                 stated = (case Option.bind stop hop_proto of
                             Some p \<Rightarrow> Some p
                           | None \<Rightarrow> if peer_is_trusted then peer_proto else None)
             in \<lparr>client = addr, proto = map_option to_lower stated\<rparr>)"

definition client_is_secure :: "forwarded \<Rightarrow> bool option" where
  "client_is_secure f = map_option (\<lambda>p. p = ''https'') (proto f)"

section \<open>Printing the policy\<close>

definition ipv4_display :: "32 word \<Rightarrow> string" where
  "ipv4_display a = join ''.'' (map (\<lambda>i. decimal (unat (drop_bit (8 * i) a AND 0xFF))) [3, 2, 1, 0])"

definition hex_digit_of :: "nat \<Rightarrow> char" where
  "hex_digit_of n = (if n < 10 then char_of (n + 48) else char_of (n + 87))"

fun hex_display :: "nat \<Rightarrow> string" where
  "hex_display n = (if n < 16 then [hex_digit_of n] else hex_display (n div 16) @ [hex_digit_of (n mod 16)])"

declare hex_display.simps [simp del]

text \<open>The first longest run of zero groups: where it starts and how long it is.\<close>

fun zero_run :: "nat \<Rightarrow> nat \<times> nat \<Rightarrow> nat \<times> nat \<Rightarrow> nat list \<Rightarrow> nat \<times> nat" where
  "zero_run i current longest [] = longest"
| "zero_run i current longest (g # gs) =
     (if g = 0 then
        let current = (if snd current = 0 then (i, 1) else (fst current, snd current + 1))
        in zero_run (i + 1) current (if snd current > snd longest then current else longest) gs
      else zero_run (i + 1) (0, 0) longest gs)"

definition ipv6_display :: "128 word \<Rightarrow> string" where
  "ipv6_display a =
     (case to_ipv4_mapped a of
        Some v4 \<Rightarrow> ''::ffff:'' @ ipv4_display v4
      | None \<Rightarrow>
          let groups = map (\<lambda>i. unat (drop_bit (16 * i) a AND 0xFFFF)) [7, 6, 5, 4, 3, 2, 1, 0];
              (start, len) = zero_run 0 (0, 0) (0, 0) groups;
              side = (\<lambda>gs. join '':'' (map hex_display gs))
          in if len > 1 then side (take start groups) @ ''::'' @ side (drop (start + len) groups)
             else side groups)"

fun ip_display :: "ip_addr \<Rightarrow> string" where
  "ip_display (V4 a) = ipv4_display a"
| "ip_display (V6 a) = ipv6_display a"

definition network_display :: "network \<Rightarrow> string" where
  "network_display n = ip_display (net_address n) @ ''/'' @ decimal (net_prefix n)"

definition trusted_display :: "trusted_proxies \<Rightarrow> string" where
  "trusted_display t =
     (case policy_header t of
        None \<Rightarrow> ''nobody''
      | Some header \<Rightarrow>
          (case header of
             Header_forwarded \<Rightarrow> ''Forwarded from ''
           | Header_x_forwarded \<Rightarrow> ''X-Forwarded-For from '') @
          (if hops t = 0 then []
           else if hops t = 1 then ''the nearest hop''
           else ''the '' @ decimal (hops t) @ '' nearest hops'') @
          (let named = map ip_display (addresses t) @ map network_display (networks t)
           in if hops t = 0 then join '', '' named else concat (map ((@) '', '') named)))"

section \<open>Networks: which addresses they hold\<close>

fun addr_bits :: "ip_addr \<Rightarrow> bool list" where
  "addr_bits (V4 a) = map (\<lambda>i. bit a (31 - i)) [0..<32]"
| "addr_bits (V6 a) = map (\<lambda>i. bit a (127 - i)) [0..<128]"

fun addr_width :: "ip_addr \<Rightarrow> nat" where
  "addr_width (V4 _) = 32"
| "addr_width (V6 _) = 128"

lemma length_addr_bits [simp]: "length (addr_bits a) = addr_width a"
  by (cases a) simp_all

lemma mask_bit:
  fixes a :: "'a::len word"
  assumes "p \<le> LENGTH('a)" "i < LENGTH('a)"
  shows "bit (a AND leading_mask p) i \<longleftrightarrow> bit a i \<and> LENGTH('a) - p \<le> i"
  using assms by (auto simp: leading_mask_def bit_simps)

lemma addr_bits_inject: "is_ipv4 a = is_ipv4 b \<Longrightarrow> addr_bits a = addr_bits b \<longleftrightarrow> a = b"
proof -
  have "a = b" if fam: "is_ipv4 a = is_ipv4 b" and bits: "addr_bits a = addr_bits b"
  proof (cases a)
    case (V4 x)
    then obtain y where y: "b = V4 y" using fam V4 by (cases b) auto
    have "bit x i = bit y i" if "i < 32" for i
      using arg_cong [OF bits, of "\<lambda>bs. bs ! (31 - i)"] that nth_upt [of 0 "31 - i" 32] V4 y by simp
    then have "x = y" by (intro bit_word_eqI) simp
    then show ?thesis using V4 y by simp
  next
    case (V6 x)
    then obtain y where y: "b = V6 y" using fam V6 by (cases b) auto
    have "bit x i = bit y i" if "i < 128" for i
      using arg_cong [OF bits, of "\<lambda>bs. bs ! (127 - i)"] that nth_upt [of 0 "127 - i" 128] V6 y by simp
    then have "x = y" by (intro bit_word_eqI) simp
    then show ?thesis using V6 y by simp
  qed
  then show "is_ipv4 a = is_ipv4 b \<Longrightarrow> ?thesis" by blast
qed

lemma masked_bits:
  assumes "p \<le> addr_width a"
  shows "addr_bits (net_address (masked a p)) = take p (addr_bits a) @ replicate (addr_width a - p) False"
proof (cases a)
  case (V4 x)
  show ?thesis
  proof (rule nth_equalityI)
    fix i assume "i < length (addr_bits (net_address (masked a p)))"
    then have i: "i < 32" using V4 by (simp add: masked_def)
    then show "addr_bits (net_address (masked a p)) ! i = (take p (addr_bits a) @ replicate (addr_width a - p) False) ! i"
      using V4 assms mask_bit [where 'a = 32, of p "31 - i" x] by (auto simp: masked_def nth_append)
  qed (use V4 assms in \<open>simp add: masked_def\<close>)
next
  case (V6 x)
  show ?thesis
  proof (rule nth_equalityI)
    fix i assume "i < length (addr_bits (net_address (masked a p)))"
    then have i: "i < 128" using V6 by (simp add: masked_def)
    then show "addr_bits (net_address (masked a p)) ! i = (take p (addr_bits a) @ replicate (addr_width a - p) False) ! i"
      using V6 assms mask_bit [where 'a = 128, of p "127 - i" x] by (auto simp: masked_def nth_append)
  qed (use V6 assms in \<open>simp add: masked_def\<close>)
qed


lemma masked_family [simp]: "is_ipv4 (net_address (masked a p)) = is_ipv4 a" "net_prefix (masked a p) = p"
  "addr_width (net_address (masked a p)) = addr_width a"
  by (cases a; simp add: masked_def)+

lemma family_width: "is_ipv4 a = is_ipv4 b \<Longrightarrow> addr_width a = addr_width b"
  by (cases a; cases b) simp_all

lemma contains_masked:
  assumes "p \<le> addr_width a"
  shows "network_contains (masked a p) b \<longleftrightarrow>
    is_ipv4 (to_canonical b) = is_ipv4 a \<and> take p (addr_bits (to_canonical b)) = take p (addr_bits a)"
proof (cases "is_ipv4 (to_canonical b) = is_ipv4 a")
  case True
  let ?b = "to_canonical b"
  have w: "addr_width ?b = addr_width a" using family_width [OF True] .
  have "net_address (masked ?b p) = net_address (masked a p) \<longleftrightarrow>
      addr_bits (net_address (masked ?b p)) = addr_bits (net_address (masked a p))"
    using True by (intro addr_bits_inject [symmetric]) simp
  also have "\<dots> \<longleftrightarrow> take p (addr_bits ?b) = take p (addr_bits a)"
    using masked_bits assms w by simp
  finally show ?thesis using True by (simp add: network_contains_def Let_def)
qed (simp add: network_contains_def Let_def)

text \<open>The block \<open>network_new\<close> masks: the address as given, or the IPv4 address it maps.\<close>

lemma network_new_masked:
  assumes "network_new a p = Inr n"
  obtains a' p' where "n = masked a' p'" "0 < p'" "p' \<le> addr_width a'" "a' = a \<and> p' = p \<or> a' = to_canonical a \<and> p' = p - 96"
proof -
  have le: "p \<le> (if is_ipv4 a then 32 else 128)"
    using assms by (auto simp: network_new_def Let_def split: if_splits)
  let ?r = "case a of V6 v6 \<Rightarrow>
      if p \<ge> 96 then (case to_ipv4_mapped v6 of Some v4 \<Rightarrow> (V4 v4, p - 96) | None \<Rightarrow> (a, p)) else (a, p)
    | V4 _ \<Rightarrow> (a, p)"
  obtain a' p' where r: "?r = (a', p')" by fastforce
  have "n = masked a' p' \<and> p' \<noteq> 0"
    using assms le unfolding network_new_def Let_def r by (auto split: if_splits)
  moreover have "p' \<le> addr_width a' \<and> (a' = a \<and> p' = p \<or> a' = to_canonical a \<and> p' = p - 96)"
    using r le by (cases a) (auto split: if_splits option.splits)
  ultimately show thesis using that by auto
qed

section \<open>The walk: what it depends on\<close>

text \<open>How many elements the walk takes.\<close>

fun believed :: "trusted_proxies \<Rightarrow> nat \<Rightarrow> ip_addr option \<Rightarrow> hop list \<Rightarrow> nat" where
  "believed t n sender [] = 0"
| "believed t n sender (h # chain) =
     (if (case sender of Some s \<Rightarrow> trust_names t s | None \<Rightarrow> False) \<or> n < hops t
      then Suc (believed t (n + 1) (hop_address h) chain) else 0)"

lemma walk_stops_within:
  "believed t n sender xs < length xs \<Longrightarrow> walk t n sender stop (xs @ ys) = walk t n sender stop xs"
  by (induction xs arbitrary: n sender stop) auto

lemma walk_result:
  "walk t n sender stop chain =
    (let k = believed t n sender chain
     in if k = 0 then (sender, stop) else (hop_address (chain ! (k - 1)), Some (chain ! (k - 1))))"
  by (induction chain arbitrary: n sender stop) (auto simp: Let_def nth_Cons' split: if_splits)

lemma believed_le: "believed t n sender chain \<le> length chain"
  by (induction chain arbitrary: n sender) auto

lemma believed_hops_only:
  "addresses t = [] \<Longrightarrow> networks t = [] \<Longrightarrow> believed t n sender chain = min (hops t - n) (length chain)"
  by (induction chain arbitrary: n sender) (auto simp: trust_names_def split: option.splits)

lemma split_concat_sep: "split d (xs @ d # ys) = split d xs @ split d ys"
  by (induction xs) (auto split: list.splits)

lemma x_forwarded_hops_append: "x_forwarded_hops (a @ CHR '','' # b) = x_forwarded_hops a @ x_forwarded_hops b"
  by (simp add: x_forwarded_hops_def split_concat_sep)

section \<open>Properties\<close>

text \<open>C22: which addresses a network holds. A network that was accepted has a positive prefix and no bits
  set past it; it holds exactly the addresses of its family whose leading prefix bits are its own, an
  IPv4-mapped address counting as the IPv4 address it maps; and those bits are the ones it was given.\<close>

theorem network_holds_exactly:
  assumes "network_new a p = Inr n"
  shows "0 < net_prefix n \<and> list_all Not (drop (net_prefix n) (addr_bits (net_address n))) \<and>
    (network_contains n b \<longleftrightarrow> is_ipv4 (to_canonical b) = is_ipv4 (net_address n) \<and>
       take (net_prefix n) (addr_bits (to_canonical b)) = take (net_prefix n) (addr_bits (net_address n))) \<and>
    (\<exists>a'. (a' = a \<and> net_prefix n = p \<or> a' = to_canonical a \<and> net_prefix n = p - 96) \<and>
       is_ipv4 a' = is_ipv4 (net_address n) \<and>
       take (net_prefix n) (addr_bits a') = take (net_prefix n) (addr_bits (net_address n)))"
proof (rule network_new_masked [OF assms])
  fix a' p'
  assume n: "n = masked a' p'" and p: "0 < p'" "p' \<le> addr_width a'"
    and from_a: "a' = a \<and> p' = p \<or> a' = to_canonical a \<and> p' = p - 96"
  have bits: "take p' (addr_bits (net_address n)) = take p' (addr_bits a')"
    "drop p' (addr_bits (net_address n)) = replicate (addr_width a' - p') False"
    unfolding n masked_bits [OF p(2)] using p(2) by simp_all
  have pre: "net_prefix n = p'" "is_ipv4 (net_address n) = is_ipv4 a'" unfolding n by simp_all
  show ?thesis
    unfolding pre bits using p(1) from_a contains_masked [OF p(2), of b]
    by (auto simp: n list_all_iff)
qed

theorem network_holds_exactly_witness:
  "network_new (V4 0x0A010203) 8 = Inr (masked (V4 0x0A010203) 8) \<and>
   list_all Not (drop 8 (addr_bits (net_address (masked (V4 0x0A010203) 8))))"
proof -
  have n: "network_new (V4 0x0A010203) 8 = Inr (masked (V4 0x0A010203) 8)" by (simp add: network_new_def)
  then show ?thesis using network_holds_exactly [OF n] by simp
qed



text \<open>Trust by number of hops. With nobody else trusted, the client is the address in the entry that
  many places from the right, or the leftmost entry of a shorter field, whatever the entries say.\<close>

theorem hops_resolve:
  assumes "0 < n" "fst (elements H hs header) \<noteq> []"
  shows "client (resolve_forwarded H hs peer (trust_hops header n)) =
    hop_address (fst (elements H hs header) ! (length (fst (elements H hs header)) - min n (length (fst (elements H hs header)))))"
proof -
  let ?chain = "fst (elements H hs header)" and ?t = "trust_hops header n"
  have t: "addresses ?t = []" "networks ?t = []" "hops ?t = n" "policy_header ?t = Some header"
    using assms(1) by (simp_all add: trust_hops_def trust_none_def policy_header_def trusts_nobody_def)
  let ?k = "min n (length ?chain)"
  have k: "0 < ?k" "?k \<le> length ?chain" using assms by auto
  have "fst (walk ?t 0 s None (rev ?chain)) = hop_address (rev ?chain ! (?k - 1))" for s
  proof -
    have "min (hops ?t - 0) (length (rev ?chain)) = ?k" by (simp add: t(3))
    then have b: "believed ?t 0 s (rev ?chain) = ?k" using believed_hops_only [OF t(1,2)] by metis
    show ?thesis unfolding walk_result b Let_def using k by (simp only: neq0_conv [symmetric] if_not_P fst_conv) simp
  qed
  also have "rev ?chain ! (?k - 1) = ?chain ! (length ?chain - ?k)"
  proof -
    have "?k - 1 < length ?chain" using k by linarith
    moreover have "length ?chain - Suc (?k - 1) = length ?chain - ?k" using k by linarith
    ultimately show ?thesis by (simp only: rev_nth)
  qed
  finally show ?thesis
    by (simp add: resolve_forwarded_def t(4) Let_def case_prod_beta)
qed

theorem hops_resolve_witness:
  "client (resolve_forwarded fun_headers ((\<lambda>_. [])(''x-forwarded-for'' := [''x,y''])) None (trust_hops Header_x_forwarded 1)) =
   hop_address (x_forwarded_hops ''x,y'' ! 1)"
proof -
  let ?hs = "(\<lambda>_. [])(''x-forwarded-for'' := [''x,y''])"
  have e: "fst (elements fun_headers ?hs Header_x_forwarded) = x_forwarded_hops ''x,y''"
    by (simp add: elements_def x_forwarded_elements_def fun_headers_def)
  have len: "length (x_forwarded_hops ''x,y'') = 2"
    by (simp add: x_forwarded_hops_def trim_ascii_def trim_with_def trim_end_with_def is_ascii_ws_def)
  then have "x_forwarded_hops ''x,y'' \<noteq> []" by auto
  then show ?thesis
    using hops_resolve [of 1 fun_headers ?hs Header_x_forwarded None] unfolding e len by simp
qed

end
