(* ===== verification/Bodies.thy ===== *)
theory Bodies
  imports Http_Text
begin

text \<open>
  Request and response bodies as the framework polls them: a watched body's report
  (\<open>src/crates/kynos/src/http/body/watched.rs\<close>), a body that fails after replaying what arrived
  (\<open>src/crates/kynos/src/http/body.rs\<close>), the capped read (\<open>src/crates/kynos/src/extract/body/limit.rs\<close>),
  the size limit (\<open>src/crates/kynos/src/middleware/limits/body_size.rs\<close>) and the body timeout
  (\<open>src/crates/kynos/src/middleware/limits/body_timeout.rs\<close>).

  A body is a state with two operations, the record \<open>body_ops\<close>, which the adapters take as a parameter
  and provide themselves. The timer is tokio's and a parameter too; time is a number of nanoseconds.
  A body read with \<open>await\<close> is the list of the frames it yields.
\<close>

section \<open>Bodies\<close>

datatype 'a poll = Pending | Ready 'a
datatype frame = Data string | Trailers

type_synonym 'e polled = "('e + frame) option poll"

record ('s, 'e) body_ops =
  body_poll :: "'s \<Rightarrow> 'e polled \<times> 's"
  body_end :: "'s \<Rightarrow> bool"

section \<open>A watched body\<close>

datatype delivery = Complete | Interrupted

record 's watched =
  watched_inner :: 's
  unreported :: bool
  reports :: "delivery list"

definition watch :: "'s \<Rightarrow> 's watched" where
  "watch s = \<lparr>watched_inner = s, unreported = True, reports = []\<rparr>"

definition make_report :: "delivery \<Rightarrow> 's watched \<Rightarrow> 's watched" where
  "make_report d w = (if unreported w then w\<lparr>unreported := False, reports := reports w @ [d]\<rparr> else w)"

definition watched_poll :: "('s, 'e) body_ops \<Rightarrow> 's watched \<Rightarrow> 'e polled \<times> 's watched" where
  "watched_poll B w =
     (let (polled, inner) = body_poll B (watched_inner w);
          w = w\<lparr>watched_inner := inner\<rparr>
      in (polled,
          case polled of
            Ready None \<Rightarrow> make_report Complete w
          | Ready (Some (Inr _)) \<Rightarrow> if body_end B inner then make_report Complete w else w
          | _ \<Rightarrow> w))"

definition watched_end :: "('s, 'e) body_ops \<Rightarrow> 's watched \<Rightarrow> bool" where
  "watched_end B w = body_end B (watched_inner w)"

definition watched_drop :: "('s, 'e) body_ops \<Rightarrow> 's watched \<Rightarrow> 's watched" where
  "watched_drop B w =
     make_report (if body_end B (watched_inner w) then Complete else Interrupted) w"

definition watched_ops :: "('s, 'e) body_ops \<Rightarrow> ('s watched, 'e) body_ops" where
  "watched_ops B = \<lparr>body_poll = watched_poll B, body_end = watched_end B\<rparr>"

section \<open>A body that fails after what arrived\<close>

record 'e failed_after =
  fa_arrived :: "string option"
  fa_error :: "'e option"

definition failed_after_new :: "string \<Rightarrow> 'e \<Rightarrow> 'e failed_after" where
  "failed_after_new arrived e =
     \<lparr>fa_arrived = (if arrived = [] then None else Some arrived), fa_error = Some e\<rparr>"

definition failed_after_poll :: "'e failed_after \<Rightarrow> 'e polled \<times> 'e failed_after" where
  "failed_after_poll b =
     (case fa_arrived b of
        Some arrived \<Rightarrow> (Ready (Some (Inr (Data arrived))), b\<lparr>fa_arrived := None\<rparr>)
      | None \<Rightarrow> (Ready (map_option Inl (fa_error b)), b\<lparr>fa_error := None\<rparr>))"

definition failed_after_ops :: "('e failed_after, 'e) body_ops" where
  "failed_after_ops = \<lparr>body_poll = failed_after_poll, body_end = (\<lambda>_. False)\<rparr>"

section \<open>The capped read\<close>

definition DEFAULT_LIMIT :: nat where "DEFAULT_LIMIT = 2 * 1024 * 1024"

definition limit_of :: "nat option \<Rightarrow> nat" where
  "limit_of extension = (case extension of Some limit \<Rightarrow> limit | None \<Rightarrow> DEFAULT_LIMIT)"

definition parse_length :: "('h, 'x) header_map_scheme \<Rightarrow> string \<Rightarrow> nat option" where
  "parse_length H v = Option.bind (to_str H v) (\<lambda>s. parse_uint u64_max (trim s))"

definition declared_length :: "('h, 'x) header_map_scheme \<Rightarrow> 'h \<Rightarrow> nat option" where
  "declared_length H hs = Option.bind (get_first H hs ''content-length'') (parse_length H)"

definition exceeds_declared :: "('h, 'x) header_map_scheme \<Rightarrow> 'h \<Rightarrow> nat \<Rightarrow> nat option" where
  "exceeds_declared H hs limit =
     (case declared_length H hs of
        Some declared \<Rightarrow> if declared > limit then Some limit else None
      | None \<Rightarrow> None)"

datatype 'e capped = Whole string | FailedPartWay string 'e | Exceeded nat

text \<open>The loop, with its one-frame buffer \<open>first\<close> and the joined buffer that replaces it.\<close>

definition joined_bytes :: "string \<Rightarrow> string option \<Rightarrow> string" where
  "joined_bytes first joined = (case joined of None \<Rightarrow> first | Some buffer \<Rightarrow> buffer)"

fun collect_from :: "nat \<Rightarrow> string \<Rightarrow> string option \<Rightarrow> nat \<Rightarrow> ('e + frame) list \<Rightarrow> 'e capped" where
  "collect_from limit first joined so_far [] = Whole (joined_bytes first joined)"
| "collect_from limit first joined so_far (Inl e # frames) = FailedPartWay (joined_bytes first joined) e"
| "collect_from limit first joined so_far (Inr Trailers # frames) = collect_from limit first joined so_far frames"
| "collect_from limit first joined so_far (Inr (Data d) # frames) =
     (if d = [] then collect_from limit first joined so_far frames
      else
        let so_far = sat_add so_far (min u64_max (length d))
        in if so_far > limit then Exceeded limit
           else (case joined of
                   Some buffer \<Rightarrow> collect_from limit first (Some (buffer @ d)) so_far frames
                 | None \<Rightarrow>
                     if first = [] then collect_from limit d None so_far frames
                     else collect_from limit [] (Some (first @ d)) so_far frames))"

definition collect_capped :: "('e + frame) list \<Rightarrow> nat \<Rightarrow> 'e capped" where
  "collect_capped frames limit = collect_from limit [] None 0 frames"

definition body_from_bytes :: "string \<Rightarrow> ('e + frame) list" where
  "body_from_bytes bytes = (if bytes = [] then [] else [Inr (Data bytes)])"

fun into_body :: "'e capped \<Rightarrow> ('e + frame) list option" where
  "into_body (Whole bytes) = Some (body_from_bytes bytes)"
| "into_body (FailedPartWay arrived e) = Some (body_from_bytes arrived @ [Inl e])"
| "into_body (Exceeded _) = None"

section \<open>What a body extractor rejects with\<close>

text \<open>An error of a body: it and the errors it was caused by, whether one is a stall and after how
  long, and its text.\<close>

record 'e error_ops =
  error_chain :: "'e \<Rightarrow> 'e list"
  as_stall :: "'e \<Rightarrow> nat option"
  error_text :: "'e \<Rightarrow> string"

datatype body_rejection =
    Syntax string
  | Schema "(string \<times> string) list" "string option"
  | UnsupportedMediaType "string option"
  | UnsupportedCoding string
  | TooLarge nat
  | Stalled nat

definition find_stall :: "('e, 'x) error_ops_scheme \<Rightarrow> 'e \<Rightarrow> nat option" where
  "find_stall E e = find_map (as_stall E) (error_chain E e)"

definition read_failed :: "('e, 'x) error_ops_scheme \<Rightarrow> 'e \<Rightarrow> body_rejection" where
  "read_failed E e = (case find_stall E e of Some after \<Rightarrow> Stalled after | None \<Rightarrow> Syntax (error_text E e))"

fun rejection_status :: "body_rejection \<Rightarrow> nat" where
  "rejection_status (Stalled _) = 408"
| "rejection_status (Syntax _) = 400"
| "rejection_status (Schema _ _) = 422"
| "rejection_status (UnsupportedMediaType _) = 415"
| "rejection_status (UnsupportedCoding _) = 415"
| "rejection_status (TooLarge _) = 413"

fun into_read :: "('e, 'x) error_ops_scheme \<Rightarrow> 'e capped \<Rightarrow> body_rejection + string" where
  "into_read E (Whole bytes) = Inr bytes"
| "into_read E (FailedPartWay _ e) = Inl (read_failed E e)"
| "into_read E (Exceeded limit) = Inl (TooLarge limit)"

section \<open>The size limit\<close>

text \<open>What the chain beneath is run with: the limit its extractors read under, and the body; or the limit
  the refusal names.\<close>

definition body_size_intercept ::
  "('h, 'x) header_map_scheme \<Rightarrow> nat \<Rightarrow> 'h \<Rightarrow> ('e + frame) list \<Rightarrow> nat + nat \<times> ('e + frame) list" where
  "body_size_intercept H limit hs frames =
     (case declared_length H hs of
        Some declared \<Rightarrow> if declared > limit then Inl limit else Inr (limit, frames)
      | None \<Rightarrow>
          (case into_body (collect_capped frames limit) of
             None \<Rightarrow> Inl limit
           | Some frames \<Rightarrow> Inr (limit, frames)))"

section \<open>Timers\<close>

record 't timer_ops =
  sleep :: "nat \<Rightarrow> nat \<Rightarrow> 't"
  reset_to :: "'t \<Rightarrow> nat \<Rightarrow> 't"
  elapsed :: "'t \<Rightarrow> nat \<Rightarrow> bool"

text \<open>The documented behaviour: a timer has elapsed from its instant on, which for a sleep is so many
  nanoseconds from the present one, where the platform can represent it.\<close>

definition timer_laws :: "('t, 'x) timer_ops_scheme \<Rightarrow> nat \<Rightarrow> bool" where
  "timer_laws T latest \<longleftrightarrow>
     (\<forall>now d t. now + d \<le> latest \<longrightarrow> (elapsed T (sleep T now d) t \<longleftrightarrow> now + d \<le> t)) \<and>
     (\<forall>x next t. elapsed T (reset_to T x next) t \<longleftrightarrow> next \<le> t)"

definition nat_timer :: "nat timer_ops" where
  "nat_timer = \<lparr>sleep = (+), reset_to = (\<lambda>_ next. next), elapsed = (\<le>)\<rparr>"

lemma nat_timer_laws: "timer_laws nat_timer latest"
  by (simp add: timer_laws_def nat_timer_def)

text \<open>\<open>Instant::checked_add\<close>, \<open>latest\<close> the last instant the platform represents.\<close>

definition instant_add :: "nat \<Rightarrow> nat \<Rightarrow> nat \<Rightarrow> nat option" where
  "instant_add latest now d = (if now + d \<le> latest then Some (now + d) else None)"

section \<open>The body timeout\<close>

datatype 'e timed = Inner_error 'e | BodyTimedOut nat

record ('s, 't) bounded =
  bounded_inner :: 's
  timer :: 't
  time_limit :: nat
  reset_each_frame :: bool
  spent :: bool

definition bounded_new :: "('t, 'x) timer_ops_scheme \<Rightarrow> nat \<Rightarrow> nat \<Rightarrow> bool \<Rightarrow> 's \<Rightarrow> ('s, 't) bounded" where
  "bounded_new T now lim reset inner =
     \<lparr>bounded_inner = inner, timer = sleep T now lim, time_limit = lim,
      reset_each_frame = reset, spent = False\<rparr>"

fun wrap_error :: "'e polled \<Rightarrow> 'e timed polled" where
  "wrap_error Pending = Pending"
| "wrap_error (Ready None) = Ready None"
| "wrap_error (Ready (Some (Inl e))) = Ready (Some (Inl (Inner_error e)))"
| "wrap_error (Ready (Some (Inr f))) = Ready (Some (Inr f))"

definition bounded_poll ::
  "('t, 'x) timer_ops_scheme \<Rightarrow> ('s, 'e) body_ops \<Rightarrow> nat \<Rightarrow> nat \<Rightarrow> ('s, 't) bounded \<Rightarrow>
   'e timed polled \<times> ('s, 't) bounded" where
  "bounded_poll T B latest now b =
     (if spent b then (Ready None, b)
      else if body_end B (bounded_inner b) then (Ready None, b)
      else if reset_each_frame b then
        let (polled, inner) = body_poll B (bounded_inner b);
            b = b\<lparr>bounded_inner := inner\<rparr>
        in (case polled of
              Ready (Some (Inr f)) \<Rightarrow>
                (Ready (Some (Inr f)),
                 case instant_add latest now (time_limit b) of
                   Some next \<Rightarrow> b\<lparr>timer := reset_to T (timer b) next\<rparr>
                 | None \<Rightarrow> b)
            | Pending \<Rightarrow>
                if elapsed T (timer b) now
                then (Ready (Some (Inl (BodyTimedOut (time_limit b)))), b\<lparr>spent := True\<rparr>)
                else (Pending, b)
            | _ \<Rightarrow> (wrap_error polled, b))
      else if elapsed T (timer b) now
           then (Ready (Some (Inl (BodyTimedOut (time_limit b)))), b\<lparr>spent := True\<rparr>)
      else let (polled, inner) = body_poll B (bounded_inner b)
           in (wrap_error polled, b\<lparr>bounded_inner := inner\<rparr>))"

definition bounded_end :: "('s, 'e) body_ops \<Rightarrow> ('s, 't) bounded \<Rightarrow> bool" where
  "bounded_end B b = body_end B (bounded_inner b)"

section \<open>The request deadline\<close>

record ('s, 't) deadlined =
  dl_inner :: 's
  dl_deadline :: "nat option"
  dl_timer :: "'t option"
  overdue :: bool
  dl_after :: nat
  dl_spent :: bool

definition deadlined_poll ::
  "('t, 'x) timer_ops_scheme \<Rightarrow> ('s, 'e) body_ops \<Rightarrow> nat \<Rightarrow> ('s, 't) deadlined \<Rightarrow>
   'e timed polled \<times> ('s, 't) deadlined" where
  "deadlined_poll T B now b =
     (if dl_spent b then (Ready None, b)
      else
        let (polled, inner) = body_poll B (dl_inner b);
            b = b\<lparr>dl_inner := inner\<rparr>
        in (case polled of
              Ready _ \<Rightarrow> (wrap_error polled, b)
            | Pending \<Rightarrow>
                (case dl_deadline b of
                   None \<Rightarrow> (Pending, b)
                 | Some deadline \<Rightarrow>
                     let t = (case dl_timer b of Some t \<Rightarrow> t | None \<Rightarrow> sleep T now (deadline - now));
                         b = b\<lparr>dl_timer := Some t\<rparr>
                     in if \<not> elapsed T t now then (Pending, b)
                        else (Ready (Some (Inl (BodyTimedOut (dl_after b)))),
                              b\<lparr>dl_spent := True, overdue := True\<rparr>))))"

definition deadlined_end :: "('s, 'e) body_ops \<Rightarrow> ('s, 't) deadlined \<Rightarrow> bool" where
  "deadlined_end B b \<longleftrightarrow> dl_spent b \<or> body_end B (dl_inner b)"

section \<open>Lemmas: the watched body\<close>

lemma make_report_simps [simp]:
  "watched_inner (make_report d w) = watched_inner w" "unreported (make_report d w) = False"
  "reports (make_report d w) = (if unreported w then reports w @ [d] else reports w)"
  by (simp_all add: make_report_def)

text \<open>A run of polls: what each yields.\<close>

fun watched_run :: "('s, 'e) body_ops \<Rightarrow> nat \<Rightarrow> 's watched \<Rightarrow> 'e polled list \<times> 's watched" where
  "watched_run B 0 w = ([], w)"
| "watched_run B (Suc n) w =
     (let (p, w) = watched_poll B w; (ps, w) = watched_run B n w in (p # ps, w))"

definition run_consistent :: "'s watched \<Rightarrow> bool" where
  "run_consistent w \<longleftrightarrow> reports w = (if unreported w then [] else [Complete])"

lemma watched_poll_consistent:
  "run_consistent w \<Longrightarrow> run_consistent (snd (watched_poll B w))"
  by (auto simp: run_consistent_def watched_poll_def Let_def case_prod_beta split: poll.splits option.splits sum.splits)

lemma watched_run_consistent: "run_consistent w \<Longrightarrow> run_consistent (snd (watched_run B n w))"
proof (induction n arbitrary: w)
  case (Suc n)
  then show ?case using watched_poll_consistent [of w B] by (simp add: case_prod_beta Let_def)
qed simp

lemma watched_run_ended:
  "unreported (snd (watched_run B n w)) \<Longrightarrow> Ready None \<notin> set (fst (watched_run B n w))"
proof (induction n arbitrary: w)
  case (Suc n)
  have keep: "unreported (snd (watched_run B n v)) \<Longrightarrow> unreported v" for v
  proof (induction n arbitrary: v)
    case (Suc n)
    then have "unreported (snd (watched_poll B v))" by (simp add: case_prod_beta Let_def)
    then show ?case
      by (auto simp: watched_poll_def Let_def case_prod_beta split: poll.splits option.splits sum.splits if_splits)
  qed simp
  have u: "unreported (snd (watched_run B n (snd (watched_poll B w))))"
    using Suc.prems by (simp add: case_prod_beta Let_def)
  have "fst (watched_poll B w) \<noteq> Ready None"
  proof
    assume "fst (watched_poll B w) = Ready None"
    then have "\<not> unreported (snd (watched_poll B w))" by (simp add: watched_poll_def Let_def case_prod_beta)
    then show False using keep [OF u] by contradiction
  qed
  then show ?case using Suc.IH [OF u] by (simp add: case_prod_beta Let_def)
qed simp

section \<open>Lemmas: the capped read\<close>

text \<open>The frames before the first failure, as one text, and that failure.\<close>

fun arrived_bytes :: "('e + frame) list \<Rightarrow> string" where
  "arrived_bytes [] = []"
| "arrived_bytes (Inl e # frames) = []"
| "arrived_bytes (Inr Trailers # frames) = arrived_bytes frames"
| "arrived_bytes (Inr (Data d) # frames) = d @ arrived_bytes frames"

fun first_failure :: "('e + frame) list \<Rightarrow> 'e option" where
  "first_failure [] = None"
| "first_failure (Inl e # frames) = Some e"
| "first_failure (Inr _ # frames) = first_failure frames"

definition collect_spec :: "('e + frame) list \<Rightarrow> nat \<Rightarrow> 'e capped" where
  "collect_spec frames limit =
     (if length (arrived_bytes frames) > limit then Exceeded limit
      else (case first_failure frames of
              None \<Rightarrow> Whole (arrived_bytes frames)
            | Some e \<Rightarrow> FailedPartWay (arrived_bytes frames) e))"

lemma collect_from_spec:
  assumes "limit < u64_max" "so_far = length (joined_bytes first joined)" "so_far \<le> limit"
    "joined \<noteq> None \<longrightarrow> first = []"
  shows "collect_from limit first joined so_far frames =
    (if so_far + length (arrived_bytes frames) > limit then Exceeded limit
     else (case first_failure frames of
             None \<Rightarrow> Whole (joined_bytes first joined @ arrived_bytes frames)
           | Some e \<Rightarrow> FailedPartWay (joined_bytes first joined @ arrived_bytes frames) e))"
  using assms
proof (induction limit first joined so_far frames rule: collect_from.induct)
  case (4 limit first joined so_far d frames)
  show ?case
  proof (cases "d = []")
    case True
    then show ?thesis using 4 by (simp split: option.split)
  next
    case False
    let ?n = "sat_add so_far (min u64_max (length d))"
    show ?thesis
    proof (cases "?n > limit")
      case True
      then have "so_far + length d > limit" by (auto simp: sat_add_def)
      then show ?thesis using True False by (simp add: Let_def)
    next
      case le: False
      then have n: "?n = so_far + length d" using 4(5) by (auto simp: sat_add_def min_def split: if_splits)
      have "collect_from limit first joined so_far (Inr (Data d) # frames) =
        (case joined of
           Some buffer \<Rightarrow> collect_from limit first (Some (buffer @ d)) ?n frames
         | None \<Rightarrow> if first = [] then collect_from limit d None ?n frames
                   else collect_from limit [] (Some (first @ d)) ?n frames)"
        using False le by (simp add: Let_def)
      also have "\<dots> = (if ?n + length (arrived_bytes frames) > limit then Exceeded limit
         else (case first_failure frames of
             None \<Rightarrow> Whole ((joined_bytes first joined @ d) @ arrived_bytes frames)
           | Some e \<Rightarrow> FailedPartWay ((joined_bytes first joined @ d) @ arrived_bytes frames) e))"
      proof (cases joined)
        case (Some buffer)
        then have f: "first = []" using 4(8) by simp
        show ?thesis
          unfolding Some option.case
          by (subst 4(4) [OF False refl _ Some]) (use 4(5-7) n le f Some in \<open>simp_all add: joined_bytes_def split: option.split\<close>)
      next
        case None
        show ?thesis
        proof (cases "first = []")
          case True
          then show ?thesis
            unfolding None option.case
            using 4(2) [OF False refl _ None True] 4(5,6) n le by (simp add: joined_bytes_def None split: option.split)
        next
          case ne: False
          then show ?thesis
            unfolding None option.case
            using 4(3) [OF False refl _ None ne] 4(5,6) n le by (simp add: joined_bytes_def None split: option.split)
        qed
      qed
      finally show ?thesis by (simp add: n add.assoc split: option.split)
    qed
  qed
qed (auto split: option.splits)

lemma collect_capped_eq: "limit < u64_max \<Longrightarrow> collect_capped frames limit = collect_spec frames limit"
  unfolding collect_capped_def
  by (subst collect_from_spec) (simp_all add: joined_bytes_def collect_spec_def split: option.split)

section \<open>Lemmas: the body timeout\<close>

fun bounded_run ::
  "('t, 'x) timer_ops_scheme \<Rightarrow> ('s, 'e) body_ops \<Rightarrow> nat \<Rightarrow> nat list \<Rightarrow> ('s, 't) bounded \<Rightarrow> 'e timed polled list" where
  "bounded_run T B latest [] b = []"
| "bounded_run T B latest (now # nows) b =
     (let (out, b) = bounded_poll T B latest now b in out # bounded_run T B latest nows b)"

text \<open>What a run of polls promises, \<open>mark\<close> the time of the response head or, for an idle limit, of the
  last frame: pending only before the limit is up, a frame of a deadlined body only before it, the
  error only after it, and nothing after the error.\<close>

fun timely :: "bool \<Rightarrow> nat \<Rightarrow> nat \<Rightarrow> (nat \<times> 'e timed polled) list \<Rightarrow> bool" where
  "timely idle lim mark [] = True"
| "timely idle lim mark ((now, out) # outs) =
     (case out of
        Pending \<Rightarrow> now < mark + lim \<and> timely idle lim mark outs
      | Ready (Some (Inl (BodyTimedOut l))) \<Rightarrow>
          l = lim \<and> mark + lim \<le> now \<and> list_all (\<lambda>(_, out). out = Ready None) outs
      | Ready (Some (Inr f)) \<Rightarrow>
          (idle \<or> now < mark + lim) \<and> timely idle lim (if idle then now else mark) outs
      | _ \<Rightarrow> timely idle lim mark outs)"

lemma bounded_run_spent:
  "spent b \<Longrightarrow> list_all (\<lambda>(_, out). out = Ready None) (zip nows (bounded_run T B latest nows b))"
  by (induction nows) (simp_all add: bounded_poll_def Let_def)

lemma bounded_run_timely:
  assumes laws: "timer_laws T latest" and nows: "list_all (\<lambda>now. now + lim \<le> latest) nows"
    and b: "time_limit b = lim" "reset_each_frame b = idle" "\<not> spent b"
      "\<And>t. elapsed T (timer b) t \<longleftrightarrow> mark + lim \<le> t"
  shows "timely idle lim mark (zip nows (bounded_run T B latest nows b))"
  using nows b
proof (induction nows arbitrary: mark b)
  case (Cons now nows)
  obtain p inner where p: "body_poll B (bounded_inner b) = (p, inner)" by fastforce
  let ?b = "b\<lparr>bounded_inner := inner\<rparr>"
  note prems = Cons.prems
  have rest: "timely idle lim mark (zip nows (bounded_run T B latest nows ?b))"
    by (rule Cons.IH) (use prems in simp_all)
  have same: "timely idle lim mark (zip nows (bounded_run T B latest nows b))"
    by (rule Cons.IH) (use prems in simp_all)
  show ?case
  proof (cases "body_end B (bounded_inner b)")
    case True
    then show ?thesis using same prems by (simp add: bounded_poll_def)
  next
    case False
    show ?thesis
    proof (cases idle)
      case True
      show ?thesis
      proof (cases p)
        case Pending
        then show ?thesis
          using False True p prems rest bounded_run_spent [of "?b\<lparr>spent := True\<rparr>" nows T B latest]
          by (cases "mark + lim \<le> now") (simp_all add: bounded_poll_def Let_def)
      next
        case (Ready q)
        have reset: "timely idle lim now (zip nows (bounded_run T B latest nows (?b\<lparr>timer := reset_to T (timer ?b) (now + lim)\<rparr>)))"
          by (rule Cons.IH) (use prems laws in \<open>simp_all add: timer_laws_def\<close>)
        then show ?thesis
          using False True p prems rest Ready
          by (cases q; cases "the q") (auto simp: bounded_poll_def Let_def instant_add_def)
      qed
    next
      case deadline: False
      show ?thesis
      proof (cases "mark + lim \<le> now")
        case True
        then show ?thesis
          using False deadline prems bounded_run_spent [of "b\<lparr>spent := True\<rparr>" nows T B latest]
          by (simp add: bounded_poll_def)
      next
        case early: False
        show ?thesis
        proof (cases p)
          case Pending
          then show ?thesis using early False deadline p prems rest by (simp add: bounded_poll_def)
        next
          case (Ready q)
          then show ?thesis
            using early False deadline p prems rest
            by (cases q; cases "the q") (auto simp: bounded_poll_def)
        qed
      qed
    qed
  qed
qed simp

section \<open>Properties\<close>

text \<open>C23: a watched body reports exactly once. However often it is polled before it is dropped, one
  report has been made, and it says interrupted only if no poll reached the end and the body was not
  at its end when it was dropped.\<close>

theorem watched_reports_once:
  "let (polls, w) = watched_run B n (watch s)
   in reports (watched_drop B w) = [Complete] \<or>
      (reports (watched_drop B w) = [Interrupted] \<and> list_all (\<lambda>p. p \<noteq> Ready None) polls \<and>
       \<not> body_end B (watched_inner w))"
proof -
  obtain polls w where r: "watched_run B n (watch s) = (polls, w)" by fastforce
  have c: "run_consistent w"
    using watched_run_consistent [of "watch s" B n] r by (simp add: run_consistent_def watch_def)
  have e: "Ready None \<notin> set polls" if "unreported w" using watched_run_ended [of B n "watch s"] r that by simp
  show ?thesis
    unfolding r using c e by (auto simp: run_consistent_def watched_drop_def list_all_iff split: if_splits)
qed

text \<open>C24: the capped read. Reading a body of whatever frames under a limit gives its octets when they
  are within the limit, and past it only the refusal; a failure keeps the octets that arrived.\<close>

theorem collect_capped_exact:
  assumes "limit < u64_max"
  shows "collect_capped frames limit = collect_spec frames limit"
  using collect_capped_eq [OF assms] .

theorem collect_capped_exact_witness:
  "collect_capped [Inr (Data ''ab''), Inr Trailers, Inr (Data ''c''), Inl ()] 3 = FailedPartWay ''abc'' ()"
  using collect_capped_exact [of 3 "[Inr (Data ''ab''), Inr Trailers, Inr (Data ''c''), Inl ()]"]
  by (simp add: u64_max_def collect_spec_def)

text \<open>C25: the size limit. A request that declares no length reaches the chain beneath with exactly the
  octets and the failure its body had, no more of them than the limit; it is refused only when the
  body has more.\<close>

theorem body_size_limits:
  assumes "declared_length H hs = None" "limit < u64_max"
  shows "case body_size_intercept H limit hs frames of
      Inl l \<Rightarrow> l = limit \<and> limit < length (arrived_bytes frames)
    | Inr (l, handed) \<Rightarrow> l = limit \<and> length (arrived_bytes handed) \<le> limit \<and>
        arrived_bytes handed = arrived_bytes frames \<and> first_failure handed = first_failure frames"
proof -
  have ab: "arrived_bytes (body_from_bytes s @ fs) = s @ arrived_bytes fs"
    "first_failure (body_from_bytes s @ fs) = first_failure fs"
    "arrived_bytes (body_from_bytes s :: ('e + frame) list) = s" "first_failure (body_from_bytes s :: ('e + frame) list) = None"
    for s and fs :: "('e + frame) list"
    by (simp_all add: body_from_bytes_def)
  show ?thesis
    unfolding body_size_intercept_def assms(1) collect_capped_eq [OF assms(2)] collect_spec_def
    by (cases "first_failure frames") (simp_all add: ab)
qed

theorem body_size_limits_witness:
  "\<exists>l. body_size_intercept fun_headers 1 (\<lambda>_. []) [Inr (Data ''abc'') :: unit + frame] = Inl l \<and> l = 1"
  using body_size_limits [of fun_headers "\<lambda>_. []" 1 "[Inr (Data ''abc'') :: unit + frame]"]
  by (auto simp: u64_max_def declared_length_def get_first_def fun_headers_def split: sum.splits)



end
