(* ===== verification/Body_Read.thy ===== *)
theory Body_Read
  imports Bodies Media Utf8 "HOL-Library.List_Lexorder"
begin

text \<open>
  How a request body becomes a handler's argument: the content type and coding it is admitted under
  and the read that follows (\<open>src/crates/kynos/src/extract/body/mod.rs\<close>), which bodies may stand beside
  each other (\<open>alternative.rs\<close>), the body that may be absent (\<open>optional.rs\<close>), the text and JSON
  decoders (\<open>text.rs\<close>, \<open>json.rs\<close>, \<open>src/crates/kynos/src/extract/strict_json.rs\<close>), and the pointers and
  violations a refusal names (\<open>src/crates/kynos/src/schema/constraints.rs\<close>).

  serde's deserializer, run through the adapters that refuse a struct read from an array, is the
  parameter \<open>json_ops\<close>, as are the bounds a schema declares.
\<close>

section \<open>Ordered maps\<close>

text \<open>A \<open>BTreeMap<String, Vec<String>>\<close>: its entries in key order. \<open>btree_extend\<close> is
  \<open>entry(k).or_default().extend(vs)\<close>.\<close>

fun btree_extend :: "string \<Rightarrow> 'v list \<Rightarrow> (string \<times> 'v list) list \<Rightarrow> (string \<times> 'v list) list" where
  "btree_extend k vs [] = [(k, vs)]"
| "btree_extend k vs ((k', vs') # m) =
     (if k = k' then (k', vs' @ vs) # m
      else if k < k' then (k, vs) # (k', vs') # m
      else (k', vs') # btree_extend k vs m)"

section \<open>Where a value sits\<close>

datatype step = Member string | Index nat
datatype pointer = Root | At pointer step

definition pointer_member :: "pointer \<Rightarrow> string \<Rightarrow> pointer" where
  "pointer_member p name = At p (Member name)"

definition pointer_index :: "pointer \<Rightarrow> nat \<Rightarrow> pointer" where
  "pointer_index p i = At p (Index i)"

text \<open>The parts of a name between its slashes, each with its tildes escaped.\<close>

definition escape_token :: "string \<Rightarrow> string" where
  "escape_token name = join ''~1'' (map (replace_char CHR ''~'' ''~0'') (split CHR ''/'' name))"

fun pointer_text :: "pointer \<Rightarrow> string" where
  "pointer_text Root = []"
| "pointer_text (At parent (Index i)) = pointer_text parent @ ''/'' @ decimal i"
| "pointer_text (At parent (Member name)) = pointer_text parent @ ''/'' @ escape_token name"

section \<open>Violations\<close>

type_synonym violations = "(string \<times> string list) list"

definition report :: "pointer \<Rightarrow> string \<Rightarrow> violations \<Rightarrow> violations" where
  "report at detail v = btree_extend (pointer_text at) [detail] v"

definition into_each :: "violations \<Rightarrow> (string \<times> string) list" where
  "into_each v = concat (map (\<lambda>(pointer, details). map (Pair pointer) details) v)"

definition within :: "pointer \<Rightarrow> (violations \<Rightarrow> violations) \<Rightarrow> violations \<Rightarrow> violations" where
  "within at check v =
     foldl (\<lambda>v (pointer, detail). report at (''a member breaks a bound at `'' @ pointer @ ''`: '' @ detail) v)
       v (into_each (check []))"

definition absorb :: "violations \<Rightarrow> violations \<Rightarrow> violations" where
  "absorb v other = foldl (\<lambda>v (pointer, details). btree_extend pointer details v) v other"

definition into_failures :: "violations \<Rightarrow> (string \<times> string) list" where
  "into_failures v =
     filter_map (\<lambda>(pointer, details). case details of [] \<Rightarrow> None | d # _ \<Rightarrow> Some (pointer, d)) v"

definition violations_of :: "('a \<Rightarrow> pointer \<Rightarrow> violations \<Rightarrow> violations) \<Rightarrow> 'a \<Rightarrow> pointer \<Rightarrow> (string \<times> string) list option" where
  "violations_of check_constraints v at =
     (let violations = check_constraints v at []
      in if violations = [] then None else Some (into_failures violations))"

section \<open>Reading a document strictly\<close>

datatype category = Io_error | Syntax_error | Data_error | Eof_error

text \<open>What the deserializer reports: the value, or serde's error, whether a struct was refused an
  array on the way, and the steps to the position that failed, the innermost first; whether a second
  parse of the whole document fails; what follows the document; and the bounds the schema declares
  with the problem type it names.\<close>

record ('a, 'r) json_ops =
  deserialize :: "string \<Rightarrow> 'r \<times> bool \<times> step list + 'a"
  ignored_any :: "string \<Rightarrow> 'r option"
  trailing :: "string \<Rightarrow> 'r option"
  classify_error :: "'r \<Rightarrow> category"
  json_text :: "'r \<Rightarrow> string"
  check_constraints :: "'a \<Rightarrow> pointer \<Rightarrow> violations \<Rightarrow> violations"
  constraint_type :: "string option"

record 'r failure =
  json_error :: 'r
  failure_path :: "step list"

definition json_from_slice :: "('a, 'r, 'x) json_ops_scheme \<Rightarrow> string \<Rightarrow> 'r failure + 'a" where
  "json_from_slice J bytes =
     (case deserialize J bytes of
        Inl (e, refused, steps) \<Rightarrow>
          Inl \<lparr>json_error = (case (if refused then ignored_any J bytes else None) of
                              Some syntax \<Rightarrow> syntax | None \<Rightarrow> e),
               failure_path = steps\<rparr>
      | Inr v \<Rightarrow>
          (case trailing J bytes of
             Some e \<Rightarrow> Inl \<lparr>json_error = e, failure_path = []\<rparr>
           | None \<Rightarrow> Inr v))"

function failure_render :: "pointer \<Rightarrow> step list \<Rightarrow> string" where
  "failure_render at rest =
     (if rest = [] then pointer_text at
      else case List.last rest of
             Member name \<Rightarrow> failure_render (pointer_member at name) (butlast rest)
           | Index i \<Rightarrow> failure_render (pointer_index at i) (butlast rest))"
  by auto
termination by (relation "measure (length \<circ> snd)") auto

declare failure_render.simps [simp del]

definition failure_pointer :: "'r failure \<Rightarrow> pointer \<Rightarrow> string" where
  "failure_pointer f base = failure_render base (failure_path f)"

definition is_schema_failure :: "('a, 'r, 'x) json_ops_scheme \<Rightarrow> 'r failure \<Rightarrow> bool" where
  "is_schema_failure J f =
     (case classify_error J (json_error f) of
        Data_error \<Rightarrow> True | Io_error \<Rightarrow> False | Syntax_error \<Rightarrow> False | Eof_error \<Rightarrow> False)"

definition schema_at :: "string \<Rightarrow> string \<Rightarrow> body_rejection" where
  "schema_at pointer detail = Schema [(pointer, detail)] None"

definition checked :: "('a, 'r, 'x) json_ops_scheme \<Rightarrow> 'a \<Rightarrow> pointer \<Rightarrow> body_rejection + 'a" where
  "checked J v at =
     (case violations_of (check_constraints J) v at of
        None \<Rightarrow> Inr v
      | Some failures \<Rightarrow> Inl (Schema failures (constraint_type J)))"

definition json_rejection :: "('a, 'r, 'x) json_ops_scheme \<Rightarrow> 'r failure \<Rightarrow> body_rejection" where
  "json_rejection J f =
     (if is_schema_failure J f then schema_at (failure_pointer f Root) (json_text J (json_error f))
      else Syntax (json_text J (json_error f)))"

definition json_decode :: "('a, 'r, 'x) json_ops_scheme \<Rightarrow> string \<Rightarrow> body_rejection + 'a" where
  "json_decode J bytes =
     (case json_from_slice J bytes of
        Inl f \<Rightarrow> Inl (json_rejection J f)
      | Inr v \<Rightarrow> checked J v Root)"

text \<open>\<open>utf8_text\<close> renders the error of \<open>String::from_utf8\<close>.\<close>

definition text_decode :: "(string \<Rightarrow> string) \<Rightarrow> string \<Rightarrow> body_rejection + string" where
  "text_decode utf8_text bytes =
     (case from_utf8 bytes of Some s \<Rightarrow> Inr s | None \<Rightarrow> Inl (Syntax (utf8_text bytes)))"

section \<open>Admission\<close>

definition split_media :: "string \<Rightarrow> string \<times> string" where
  "split_media v = (case split_once CHR '';'' v of Some p \<Rightarrow> p | None \<Rightarrow> (v, []))"

definition content_type :: "('h, 'x) header_map_scheme \<Rightarrow> 'h \<Rightarrow> (string \<times> string) option" where
  "content_type H hs =
     (case get_all H hs ''content-type'' of
        [v] \<Rightarrow> map_option (\<lambda>s. let (media_type, params) = split_media s in (trim media_type, params)) (to_str H v)
      | _ \<Rightarrow> None)"

definition CODEC_PARAMETERS :: "(string \<times> string list) list" where
  "CODEC_PARAMETERS = [(''multipart/form-data'', [''boundary''])]"

definition body_parameter :: "string \<Rightarrow> (string \<times> string) option" where
  "body_parameter p =
     (case split_once CHR ''='' p of
        None \<Rightarrow> None
      | Some (name, v) \<Rightarrow> Some (trim name, trim_with (\<lambda>c. c = dquote) (trim v)))"

definition codec_reads :: "string \<Rightarrow> string list" where
  "codec_reads media_type =
     (case find (\<lambda>(codec, _). eq_nocase codec media_type) CODEC_PARAMETERS of
        Some (_, read) \<Rightarrow> read | None \<Rightarrow> [])"

definition parameter_acceptable :: "string list \<Rightarrow> string \<Rightarrow> string \<Rightarrow> bool" where
  "parameter_acceptable read declared offered =
     (case body_parameter offered of
        None \<Rightarrow> False
      | Some (name, v) \<Rightarrow>
          let charset = eq_nocase name ''charset''
          in case find (\<lambda>(declared, _). eq_nocase name declared)
                    (filter_map body_parameter (unquoted_split declared CHR '';'')) of
               Some (_, expected) \<Rightarrow> if charset then eq_nocase v expected else v = expected
             | None \<Rightarrow> if charset then eq_nocase v ''utf-8'' else list_ex (eq_nocase name) read)"

definition parameters_are_acceptable :: "string \<Rightarrow> string \<Rightarrow> string \<Rightarrow> bool" where
  "parameters_are_acceptable media_type declared params =
     list_all (parameter_acceptable (codec_reads media_type) declared)
       (filter (\<lambda>p. trim p \<noteq> []) (unquoted_split params CHR '';''))"

definition offers :: "('h, 'x) header_map_scheme \<Rightarrow> 'h \<Rightarrow> string \<Rightarrow> bool" where
  "offers H hs media_type =
     (let (essence, declared) = split_media media_type;
          essence = trim_ascii essence
      in case content_type H hs of
           None \<Rightarrow> False
         | Some (offered, params) \<Rightarrow>
             eq_nocase offered essence \<and> parameters_are_acceptable essence declared params)"

definition offers_any :: "('h, 'x) header_map_scheme \<Rightarrow> 'h \<Rightarrow> string list \<Rightarrow> bool" where
  "offers_any H hs media_types = list_ex (offers H hs) media_types"

definition quoted_lines :: "('h, 'x) header_map_scheme \<Rightarrow> 'h \<Rightarrow> string \<Rightarrow> string option" where
  "quoted_lines H hs name =
     (let received = map from_utf8_lossy (get_all H hs name)
      in if received = [] then None else Some (join '', '' received))"

definition unsupported_media_type :: "('h, 'x) header_map_scheme \<Rightarrow> 'h \<Rightarrow> body_rejection" where
  "unsupported_media_type H hs = UnsupportedMediaType (quoted_lines H hs ''content-type'')"

definition is_coding :: "string \<Rightarrow> bool" where
  "is_coding token = (let token = trim token in token \<noteq> [] \<and> \<not> eq_nocase token ''identity'')"

definition coded_line :: "('h, 'x) header_map_scheme \<Rightarrow> string \<Rightarrow> bool" where
  "coded_line H v =
     (case to_str H v of None \<Rightarrow> True | Some s \<Rightarrow> list_ex is_coding (split CHR '','' s))"

definition refuse_undecoded :: "('h, 'x) header_map_scheme \<Rightarrow> 'h \<Rightarrow> body_rejection option" where
  "refuse_undecoded H hs =
     (if list_ex (coded_line H) (get_all H hs ''content-encoding'')
      then Some (UnsupportedCoding (case quoted_lines H hs ''content-encoding'' of Some s \<Rightarrow> s | None \<Rightarrow> []))
      else None)"

definition admit :: "('h, 'x) header_map_scheme \<Rightarrow> 'h \<Rightarrow> string \<Rightarrow> body_rejection option" where
  "admit H hs media_type =
     (if \<not> offers H hs media_type then Some (unsupported_media_type H hs) else refuse_undecoded H hs)"

section \<open>Reading\<close>

text \<open>A request as an extractor sees it: its headers, the limit an interceptor set, and its frames.\<close>

definition read_body ::
  "('h, 'x) header_map_scheme \<Rightarrow> ('e, 'y) error_ops_scheme \<Rightarrow> 'h \<Rightarrow> nat option \<Rightarrow> ('e + frame) list \<Rightarrow>
   string \<Rightarrow> body_rejection + string" where
  "read_body H E hs extension frames media_type =
     (case admit H hs media_type of
        Some r \<Rightarrow> Inl r
      | None \<Rightarrow>
          let limit = limit_of extension
          in case exceeds_declared H hs limit of
               Some limit \<Rightarrow> Inl (TooLarge limit)
             | None \<Rightarrow> into_read E (collect_capped frames limit))"

definition json_from_request ::
  "('a, 'r, 'z) json_ops_scheme \<Rightarrow> ('h, 'x) header_map_scheme \<Rightarrow> ('e, 'y) error_ops_scheme \<Rightarrow> 'h \<Rightarrow>
   nat option \<Rightarrow> ('e + frame) list \<Rightarrow> body_rejection + 'a" where
  "json_from_request J H E hs extension frames =
     (case read_body H E hs extension frames ''application/json'' of
        Inl r \<Rightarrow> Inl r
      | Inr bytes \<Rightarrow> json_decode J bytes)"

definition text_from_request ::
  "(string \<Rightarrow> string) \<Rightarrow> ('h, 'x) header_map_scheme \<Rightarrow> ('e, 'y) error_ops_scheme \<Rightarrow> 'h \<Rightarrow>
   nat option \<Rightarrow> ('e + frame) list \<Rightarrow> body_rejection + string" where
  "text_from_request utf8_text H E hs extension frames =
     (case read_body H E hs extension frames ''text/plain'' of
        Inl r \<Rightarrow> Inl r
      | Inr bytes \<Rightarrow> text_decode utf8_text bytes)"

section \<open>Alternatives and absent bodies\<close>

definition shares_requests :: "string \<Rightarrow> string \<Rightarrow> bool" where
  "shares_requests marker body =
     eq_ignore_ascii_case (fst (split_essence marker)) (fst (split_essence body))"

text \<open>A body extractor: the media types it reads and what it makes of a request.\<close>

record ('h, 'e, 'a) extractor =
  media_types :: "string list"
  from_request :: "'h \<Rightarrow> ('e + frame) list \<Rightarrow> body_rejection + 'a"

definition one_of ::
  "('h, 'x) header_map_scheme \<Rightarrow> ('h, 'e, 'a) extractor \<Rightarrow> ('h, 'e, 'b) extractor \<Rightarrow> ('h, 'e, 'a + 'b) extractor" where
  "one_of H L R =
     \<lparr>media_types = media_types L @ media_types R,
      from_request = (\<lambda>hs frames.
        if offers_any H hs (media_types L) then map_sum id Inl (from_request L hs frames)
        else if offers_any H hs (media_types R) then map_sum id Inr (from_request R hs frames)
        else Inl (unsupported_media_type H hs))\<rparr>"

fun first_octet :: "('e, 'y) error_ops_scheme \<Rightarrow> ('e + frame) list \<Rightarrow> body_rejection + bool" where
  "first_octet E [] = Inr False"
| "first_octet E (Inl e # frames) = Inl (read_failed E e)"
| "first_octet E (Inr (Data d) # frames) = (if d \<noteq> [] then Inr True else first_octet E frames)"
| "first_octet E (Inr Trailers # frames) = first_octet E frames"

definition carries_content ::
  "('h, 'x) header_map_scheme \<Rightarrow> ('e, 'y) error_ops_scheme \<Rightarrow> 'h \<Rightarrow> ('e + frame) list \<Rightarrow> body_rejection + bool" where
  "carries_content H E hs frames =
     (if list_ex (\<lambda>v. parse_length H v \<noteq> Some 0) (get_all H hs ''content-length'') then Inr True
      else first_octet E frames)"

definition optional ::
  "('h, 'x) header_map_scheme \<Rightarrow> ('e, 'y) error_ops_scheme \<Rightarrow> ('h, 'e, 'a) extractor \<Rightarrow> 'h \<Rightarrow>
   ('e + frame) list \<Rightarrow> body_rejection + 'a option" where
  "optional H E T hs frames =
     (if get_all H hs ''content-type'' \<noteq> [] then map_sum id Some (from_request T hs frames)
      else case carries_content H E hs frames of
             Inl r \<Rightarrow> Inl r
           | Inr True \<Rightarrow> Inl (UnsupportedMediaType None)
           | Inr False \<Rightarrow> Inr None)"

section \<open>Lemmas: admission\<close>

lemma fst_split_at_byte: "fst (split_at_byte m b) = takeWhile (\<lambda>c. c \<noteq> b) m"
  by (simp add: split_at_byte_def Let_def split: list.split)

lemma fst_split_media: "fst (split_media m) = takeWhile (\<lambda>c. c \<noteq> CHR '';'') m"
proof (cases "split_once CHR '';'' m")
  case None
  then have t: "takeWhile (\<lambda>c. c \<noteq> CHR '';'') m = m" by (auto simp: split_once_None takeWhile_eq_all_conv)
  show ?thesis unfolding t by (simp add: split_media_def None)
next
  case (Some p)
  then obtain a b where p: "p = (a, b)" "m = a @ CHR '';'' # b" "CHR '';'' \<notin> set a"
    by (cases p) (simp add: split_once_Some)
  then have "takeWhile (\<lambda>c. c \<noteq> CHR '';'') m = a"
    unfolding p(2) by (subst takeWhile_append2) auto
  with Some p(1) show ?thesis by (simp add: split_media_def)
qed

lemma split_media_essence: "fst (split_essence m) = trim_ascii (fst (split_media m))"
  by (simp add: fst_split_media fst_split_at_byte split_essence_def case_prod_beta)

text \<open>Two bodies one request is offered to share their type and subtype.\<close>

lemma offers_shares:
  assumes "offers H hs m" "offers H hs m'"
  shows "shares_requests m m'"
proof -
  obtain media_type ps where c: "content_type H hs = Some (media_type, ps)"
    using assms(1) by (cases "content_type H hs") (auto simp: offers_def Let_def case_prod_beta)
  have "eq_nocase media_type (fst (split_essence n))" if "offers H hs n" for n
    using that c by (simp add: offers_def split_media_essence case_prod_beta Let_def)
  from this [OF assms(1)] this [OF assms(2)] show ?thesis
    by (simp add: shares_requests_def eq_ignore_ascii_case_iff eq_nocase_def)
qed

lemma offers_any_disjoint:
  assumes "\<not> list_ex (\<lambda>m. list_ex (shares_requests m) ms') ms" "offers_any H hs ms"
  shows "\<not> offers_any H hs ms'"
  using assms offers_shares [of H hs] by (auto simp: offers_any_def list_ex_iff)

lemma read_body_Inr:
  assumes "read_body H E hs extension frames m = Inr bytes" "limit_of extension < u64_max"
  shows "offers H hs m \<and> refuse_undecoded H hs = None \<and> bytes = arrived_bytes frames \<and>
    length bytes \<le> limit_of extension \<and> first_failure frames = None"
  using assms by (auto simp: read_body_def admit_def collect_capped_eq collect_spec_def Let_def
      split: option.splits if_splits)

section \<open>Lemmas: pointers\<close>

text \<open>The reference tokens of a pointer, and RFC 6901's way to read them from its text.\<close>

fun step_token :: "step \<Rightarrow> string" where
  "step_token (Index i) = decimal i"
| "step_token (Member name) = name"

fun pointer_tokens :: "pointer \<Rightarrow> string list" where
  "pointer_tokens Root = []"
| "pointer_tokens (At parent s) = pointer_tokens parent @ [step_token s]"

fun unescape_token :: "string \<Rightarrow> string" where
  "unescape_token (a # b # s) =
     (if a = CHR ''~'' \<and> b = CHR ''0'' then CHR ''~'' # unescape_token s
      else if a = CHR ''~'' \<and> b = CHR ''1'' then CHR ''/'' # unescape_token s
      else a # unescape_token (b # s))"
| "unescape_token s = s"

definition escape_char :: "char \<Rightarrow> string" where
  "escape_char c = (if c = CHR ''~'' then ''~0'' else if c = CHR ''/'' then ''~1'' else [c])"

lemma escape_token_chars: "escape_token name = concat (map escape_char name)"
proof (induction name)
  case (Cons c name)
  obtain p ps where p: "split CHR ''/'' name = p # ps" by (cases "split CHR ''/'' name") auto
  show ?case
    using Cons.IH p by (cases ps) (auto simp: escape_token_def escape_char_def replace_char_def)
qed (simp add: escape_token_def replace_char_def)

lemma unescape_other: "a \<noteq> CHR ''~'' \<Longrightarrow> unescape_token (a # s) = a # unescape_token s"
  by (cases s) simp_all

lemma unescape_escape_token: "unescape_token (concat (map escape_char name)) = name"
proof (induction name)
  case (Cons c name)
  then show ?case
    by (cases "c = CHR ''~''"; cases "c = CHR ''/''") (simp_all add: escape_char_def unescape_other del: unescape_token.simps(1), simp_all)
qed simp

lemma escape_no_slash: "CHR ''/'' \<notin> set (escape_token name)"
  by (auto simp: escape_token_chars escape_char_def split: if_splits)

lemma decimal_no_tilde: "CHR ''~'' \<notin> set (decimal n)" "CHR ''/'' \<notin> set (decimal n)"
  using decimal_digits [of n] by (auto simp: bytes_simps)

lemma unescape_no_tilde: "CHR ''~'' \<notin> set s \<Longrightarrow> unescape_token s = s"
proof (induction s)
  case (Cons a s)
  then have "a \<noteq> CHR ''~''" by auto
  with Cons show ?case by (simp add: unescape_other del: unescape_token.simps(1))
qed simp

lemma unescape_step: "pointer_text (At p s) = pointer_text p @ CHR ''/'' # t \<Longrightarrow>
    CHR ''/'' \<notin> set t \<and> unescape_token t = step_token s"
  by (cases s) (auto simp: decimal_no_tilde escape_no_slash unescape_no_tilde unescape_escape_token [folded escape_token_chars])

lemma pointer_text_tokens: "map unescape_token (split CHR ''/'' (pointer_text p)) = [] # pointer_tokens p"
proof (induction p)
  case (At p s)
  obtain t where t: "pointer_text (At p s) = pointer_text p @ CHR ''/'' # t" by (cases s) auto
  show ?case using At.IH unescape_step [OF t] unfolding t by (simp add: split_on_append split_none)
qed simp

section \<open>Properties\<close>

text \<open>Which of two alternatives stands first never decides. Where no media type of the one shares
  its requests with one of the other, the choice made from a request's content type, and all that
  follows it, is the same in either order.\<close>

theorem alternatives_unambiguous:
  assumes "\<not> list_ex (\<lambda>m. list_ex (shares_requests m) (media_types R)) (media_types L)"
  shows "from_request (one_of H L R) hs frames =
    map_sum id (\<lambda>x. case x of Inl b \<Rightarrow> Inr b | Inr a \<Rightarrow> Inl a) (from_request (one_of H R L) hs frames)"
  using offers_any_disjoint [OF assms, of H hs] by (auto simp: one_of_def sum.map_comp comp_def id_def)

theorem alternatives_unambiguous_witness:
  "from_request (one_of fun_headers
       \<lparr>media_types = [''text/plain''], from_request = (\<lambda>_ _. Inr True)\<rparr>
       \<lparr>media_types = [''application/json; v=1''], from_request = (\<lambda>_ _. Inr ())\<rparr>)
     (\<lambda>_. [''Application/JSON'']) ([] :: (unit + frame) list) =
   map_sum id (\<lambda>x. case x of Inl b \<Rightarrow> Inr b | Inr a \<Rightarrow> Inl a) (from_request (one_of fun_headers
       \<lparr>media_types = [''application/json; v=1''], from_request = (\<lambda>_ _. Inr ())\<rparr>
       \<lparr>media_types = [''text/plain''], from_request = (\<lambda>_ _. Inr True)\<rparr>)
     (\<lambda>_. [''Application/JSON'']) ([] :: (unit + frame) list))"
  by (rule alternatives_unambiguous)
     (simp add: shares_requests_def split_essence_def split_at_byte_def trim_ascii_def trim_with_def
       trim_end_with_def eq_ignore_ascii_case_iff eq_nocase_def bytes_simps ascii_lower_def)

end
