(* ===== verification/Json_Records.thy ===== *)
theory Json_Records
  imports Body_Read
begin

text \<open>
  A streamed JSON request body, framed into the records it carries and decoded one at a time
  (\<open>src/crates/kynos/src/extract/body/json_lines/records.rs\<close>).

  The body is the list of what polling it yields, \<open>Pending\<close> included: the chunks in which its octets
  happen to arrive, or a failure; the end of the list is its end.
\<close>

section \<open>The state\<close>

definition RECORD_SEPARATOR :: char where "RECORD_SEPARATOR = char_of (0x1e :: nat)"

datatype record_framing = Lines | Sequence

datatype reading = Reading | Ended | Fused

record 'e records =
  rec_body :: "('e + string) poll list"
  rec_limit :: nat
  buffer :: string
  scanned :: nat
  index :: nat
  rec_framing :: record_framing
  rec_state :: reading

definition SEQUENCE_MEDIA_TYPE :: string where "SEQUENCE_MEDIA_TYPE = ''application/json-seq''"

fun records_media_type :: "record_framing \<Rightarrow> string" where
  "records_media_type Lines = ''application/x-ndjson''"
| "records_media_type Sequence = SEQUENCE_MEDIA_TYPE"

definition records_new ::
  "('h, 'x) header_map_scheme \<Rightarrow> 'h \<Rightarrow> nat option \<Rightarrow> ('e + string) poll list \<Rightarrow> record_framing \<Rightarrow>
   body_rejection + 'e records" where
  "records_new H hs extension body f =
     (case admit H hs (records_media_type f) of
        Some r \<Rightarrow> Inl r
      | None \<Rightarrow> Inr \<lparr>rec_body = body, rec_limit = limit_of extension, buffer = [], scanned = 0, index = 0,
                     rec_framing = f, rec_state = Reading\<rparr>)"

section \<open>Framing\<close>

fun prefix_of :: "record_framing \<Rightarrow> nat" where
  "prefix_of Lines = 0"
| "prefix_of Sequence = 1"

fun delimiter_of :: "record_framing \<Rightarrow> char" where
  "delimiter_of Lines = char_of (10 :: nat)"
| "delimiter_of Sequence = RECORD_SEPARATOR"

definition no_separator :: body_rejection where
  "no_separator = Syntax (''an `'' @ SEQUENCE_MEDIA_TYPE @ ''` body must begin with a record separator'')"

text \<open>Where the delimiter after the record at the start of the buffer is.\<close>

definition find_delimiter :: "'e records \<Rightarrow> nat option" where
  "find_delimiter r =
     (let from = max (scanned r) (prefix_of (rec_framing r))
      in map_option ((+) from) (position (\<lambda>b. b = delimiter_of (rec_framing r)) (drop from (buffer r))))"

definition taken_to :: "record_framing \<Rightarrow> nat \<Rightarrow> nat" where
  "taken_to f stop = (case f of Lines \<Rightarrow> stop + 1 | Sequence \<Rightarrow> stop)"

text \<open>The frame cut from the buffer, and what is left.\<close>

definition cut_frame :: "'e records \<Rightarrow> nat option \<Rightarrow> string \<times> string" where
  "cut_frame r found =
     (case found of
        Some stop \<Rightarrow> (take stop (buffer r), drop (taken_to (rec_framing r) stop) (buffer r))
      | None \<Rightarrow> (buffer r, []))"

lemma find_delimiter_ge: "find_delimiter r = Some stop \<Longrightarrow> prefix_of (rec_framing r) \<le> stop"
  by (auto simp: find_delimiter_def Let_def)

lemma cut_frame_less:
  assumes "buffer r \<noteq> []"
  shows "length (snd (cut_frame r (find_delimiter r))) < length (buffer r)"
proof (cases "find_delimiter r")
  case (Some stop)
  have "1 \<le> taken_to (rec_framing r) stop"
    using find_delimiter_ge [OF Some] by (cases "rec_framing r") (simp_all add: taken_to_def)
  then show ?thesis using Some assms by (simp add: cut_frame_def)
qed (use assms in \<open>simp add: cut_frame_def\<close>)

function next_frame :: "'e records \<Rightarrow> (body_rejection + string) option \<times> 'e records" where
  "next_frame r =
     (if buffer r = [] then (None, r)
      else if rec_framing r = Sequence \<and> hd (buffer r) \<noteq> RECORD_SEPARATOR
      then (Some (Inl no_separator), r\<lparr>rec_state := Fused\<rparr>)
      else
        let found = find_delimiter r;
            prefix = prefix_of (rec_framing r);
            held = (case found of Some stop \<Rightarrow> stop | None \<Rightarrow> length (buffer r)) - prefix
        in if min u64_max held > rec_limit r then (Some (Inl (TooLarge (rec_limit r))), r\<lparr>rec_state := Fused\<rparr>)
           else if found = None \<and> rec_state r \<noteq> Ended
           then (None, r\<lparr>scanned := length (buffer r)\<rparr>)
           else
             let (frame, rest) = cut_frame r found;
                 r = r\<lparr>buffer := rest, scanned := 0\<rparr>;
                 record = trim_ascii (drop prefix frame)
             in if record = [] then next_frame r else (Some (Inr record), r))"
  by auto
termination
proof (relation "measure (length \<circ> buffer)", goal_cases)
  case (2 r found prefix held p frame rest r' rc)
  then show ?case using cut_frame_less [of r] by (simp add: prod_eq_iff)
qed simp

declare next_frame.simps [simp del]

section \<open>Decoding\<close>

definition record_decode ::
  "('a, 'r, 'x) json_ops_scheme \<Rightarrow> string \<Rightarrow> 'e records \<Rightarrow> (body_rejection + 'a) \<times> 'e records" where
  "record_decode J record r =
     (let i = index r;
          r = r\<lparr>index := i + 1\<rparr>
      in case json_from_slice J record of
           Inl f \<Rightarrow>
             if is_schema_failure J f
             then (Inl (schema_at (failure_pointer f (pointer_index Root i)) (json_text J (json_error f))), r)
             else (Inl (Syntax (''record '' @ decimal i @ '': '' @ json_text J (json_error f))),
                   r\<lparr>rec_state := Fused\<rparr>)
         | Inr v \<Rightarrow> (checked J v (pointer_index Root i), r))"

section \<open>Polling\<close>

function poll_record ::
  "('a, 'r, 'x) json_ops_scheme \<Rightarrow> ('e, 'y) error_ops_scheme \<Rightarrow> 'e records \<Rightarrow>
   (body_rejection + 'a) option poll \<times> 'e records" where
  "poll_record J E r =
     (if rec_state r = Fused then (Ready None, r)
      else case next_frame r of
        (Some (Inr record), r) \<Rightarrow> (let (item, r) = record_decode J record r in (Ready (Some item), r))
      | (Some (Inl rejection), r) \<Rightarrow> (Ready (Some (Inl rejection)), r)
      | (None, r) \<Rightarrow>
          if rec_state r = Ended then (Ready None, r)
          else case rec_body r of
            [] \<Rightarrow> poll_record J E (r\<lparr>rec_state := Ended\<rparr>)
          | Pending # body \<Rightarrow> (Pending, r\<lparr>rec_body := body\<rparr>)
          | Ready (Inr chunk) # body \<Rightarrow> poll_record J E (r\<lparr>rec_body := body, buffer := buffer r @ chunk\<rparr>)
          | Ready (Inl e) # body \<Rightarrow>
              (Ready (Some (Inl (read_failed E e))), r\<lparr>rec_body := body, rec_state := Fused\<rparr>))"
  by pat_completeness auto

section \<open>Lemmas: framing\<close>

text \<open>The branches of the framing loop, one rule each.\<close>

definition held_bytes :: "'e records \<Rightarrow> nat" where
  "held_bytes r = (case find_delimiter r of Some stop \<Rightarrow> stop | None \<Rightarrow> length (buffer r)) - prefix_of (rec_framing r)"

definition unframed :: "'e records \<Rightarrow> bool" where
  "unframed r \<longleftrightarrow> rec_framing r = Sequence \<and> hd (buffer r) \<noteq> RECORD_SEPARATOR"

definition cut_record :: "'e records \<Rightarrow> string" where
  "cut_record r = trim_ascii (drop (prefix_of (rec_framing r)) (fst (cut_frame r (find_delimiter r))))"

definition after_cut :: "'e records \<Rightarrow> 'e records" where
  "after_cut r = r\<lparr>buffer := snd (cut_frame r (find_delimiter r)), scanned := 0\<rparr>"

lemma next_frame_branch:
  "next_frame r =
     (if buffer r = [] then (None, r)
      else if unframed r then (Some (Inl no_separator), r\<lparr>rec_state := Fused\<rparr>)
      else if min u64_max (held_bytes r) > rec_limit r
      then (Some (Inl (TooLarge (rec_limit r))), r\<lparr>rec_state := Fused\<rparr>)
      else if find_delimiter r = None \<and> rec_state r \<noteq> Ended then (None, r\<lparr>scanned := length (buffer r)\<rparr>)
      else if cut_record r = [] then next_frame (after_cut r)
      else (Some (Inr (cut_record r)), after_cut r))"
  by (subst next_frame.simps)
     (simp add: unframed_def held_bytes_def cut_record_def after_cut_def Let_def case_prod_beta)

lemma after_cut_keeps [simp]:
  "rec_body (after_cut r) = rec_body r" "rec_limit (after_cut r) = rec_limit r" "index (after_cut r) = index r"
  "rec_framing (after_cut r) = rec_framing r" "rec_state (after_cut r) = rec_state r" "scanned (after_cut r) = 0"
  by (simp_all add: after_cut_def)

lemma after_cut_less: "buffer r \<noteq> [] \<Longrightarrow> length (buffer (after_cut r)) < length (buffer r)"
  using cut_frame_less [of r] by (simp add: after_cut_def)

lemma next_frame_induct [case_names empty unframed large wait skip emit]:
  assumes "\<And>r. buffer r = [] \<Longrightarrow> next_frame r = (None, r) \<Longrightarrow> P r"
    and "\<And>r. buffer r \<noteq> [] \<Longrightarrow> unframed r \<Longrightarrow>
           next_frame r = (Some (Inl no_separator), r\<lparr>rec_state := Fused\<rparr>) \<Longrightarrow> P r"
    and "\<And>r. buffer r \<noteq> [] \<Longrightarrow> \<not> unframed r \<Longrightarrow> min u64_max (held_bytes r) > rec_limit r \<Longrightarrow>
           next_frame r = (Some (Inl (TooLarge (rec_limit r))), r\<lparr>rec_state := Fused\<rparr>) \<Longrightarrow> P r"
    and "\<And>r. buffer r \<noteq> [] \<Longrightarrow> \<not> unframed r \<Longrightarrow> \<not> min u64_max (held_bytes r) > rec_limit r \<Longrightarrow>
           find_delimiter r = None \<Longrightarrow> rec_state r \<noteq> Ended \<Longrightarrow>
           next_frame r = (None, r\<lparr>scanned := length (buffer r)\<rparr>) \<Longrightarrow> P r"
    and "\<And>r. buffer r \<noteq> [] \<Longrightarrow> \<not> unframed r \<Longrightarrow> \<not> min u64_max (held_bytes r) > rec_limit r \<Longrightarrow>
           find_delimiter r \<noteq> None \<or> rec_state r = Ended \<Longrightarrow> cut_record r = [] \<Longrightarrow>
           next_frame r = next_frame (after_cut r) \<Longrightarrow> P (after_cut r) \<Longrightarrow> P r"
    and "\<And>r. buffer r \<noteq> [] \<Longrightarrow> \<not> unframed r \<Longrightarrow> \<not> min u64_max (held_bytes r) > rec_limit r \<Longrightarrow>
           find_delimiter r \<noteq> None \<or> rec_state r = Ended \<Longrightarrow> cut_record r \<noteq> [] \<Longrightarrow>
           next_frame r = (Some (Inr (cut_record r)), after_cut r) \<Longrightarrow> P r"
  shows "P r"
proof (induction "length (buffer r)" arbitrary: r rule: less_induct)
  case less
  note branch = next_frame_branch [of r]
  consider "buffer r = []"
    | "buffer r \<noteq> []" "unframed r"
    | "buffer r \<noteq> []" "\<not> unframed r" "min u64_max (held_bytes r) > rec_limit r"
    | "buffer r \<noteq> []" "\<not> unframed r" "\<not> min u64_max (held_bytes r) > rec_limit r"
      "find_delimiter r = None \<and> rec_state r \<noteq> Ended"
    | "buffer r \<noteq> []" "\<not> unframed r" "\<not> min u64_max (held_bytes r) > rec_limit r"
      "\<not> (find_delimiter r = None \<and> rec_state r \<noteq> Ended)" "cut_record r = []"
    | "buffer r \<noteq> []" "\<not> unframed r" "\<not> min u64_max (held_bytes r) > rec_limit r"
      "\<not> (find_delimiter r = None \<and> rec_state r \<noteq> Ended)" "cut_record r \<noteq> []"
    by blast
  then show ?case
  proof cases
    case 1
    show ?thesis by (rule assms(1) [OF 1]) (simp only: branch 1 if_True simp_thms)
  next
    case 2
    show ?thesis by (rule assms(2) [OF 2]) (simp only: branch 2 if_True if_False simp_thms)
  next
    case 3
    show ?thesis by (rule assms(3) [OF 3]) (simp only: branch 3 if_True if_False simp_thms)
  next
    case 4
    show ?thesis
      by (rule assms(4) [OF 4(1-3)]) (use 4(4) in \<open>simp_all only: branch 4(1-3) if_True if_False simp_thms\<close>)
  next
    case 5
    have ih: "P (after_cut r)" using less after_cut_less [OF 5(1)] by simp
    show ?thesis
      by (rule assms(5) [OF 5(1-3) _ 5(5) _ ih])
         (use 5(4) in \<open>simp only: branch 5(1-3,5) if_True if_False simp_thms de_Morgan_conj\<close>,
          simp only: branch 5 if_True if_False simp_thms)
  next
    case 6
    show ?thesis
      by (rule assms(6) [OF 6(1-3) _ 6(5)])
         (use 6(4) in \<open>simp only: branch 6(1-3,5) if_True if_False simp_thms de_Morgan_conj\<close>,
          simp only: branch 6 if_True if_False simp_thms)
  qed
qed

lemma next_frame_keeps:
  "rec_body (snd (next_frame r)) = rec_body r \<and> rec_limit (snd (next_frame r)) = rec_limit r \<and>
   index (snd (next_frame r)) = index r \<and> rec_framing (snd (next_frame r)) = rec_framing r"
  by (induction r rule: next_frame_induct) simp_all

lemma next_frame_state:
  "rec_state (snd (next_frame r)) = (case fst (next_frame r) of Some (Inl _) \<Rightarrow> Fused | _ \<Rightarrow> rec_state r)"
proof (induction r rule: next_frame_induct)
  case (skip r)
  then show ?case by (simp only: after_cut_keeps)
qed simp_all

lemma next_frame_shrinks:
  "length (buffer (snd (next_frame r))) \<le> length (buffer r) \<and>
   (\<forall>x. fst (next_frame r) = Some (Inr x) \<longrightarrow> length (buffer (snd (next_frame r))) < length (buffer r))"
proof (induction r rule: next_frame_induct)
  case (skip r)
  then show ?case using after_cut_less [OF skip(1)] by (auto simp only: skip(6))
next
  case (emit r)
  then show ?case using after_cut_less [OF emit(1)] by simp
qed simp_all

section \<open>Polling terminates\<close>

termination poll_record
proof (relation "measure (\<lambda>(_, _, r). length (rec_body r) + (if rec_state r = Ended then 0 else 1))", goal_cases)
  case (2 J E r p r')
  then have "next_frame r = (None, r')" by (simp add: prod_eq_iff)
  then show ?case using 2 next_frame_keeps [of r] next_frame_state [of r] by simp
next
  case (3 J E r p r')
  then have "next_frame r = (None, r')" by (simp add: prod_eq_iff)
  then show ?case using 3 next_frame_keeps [of r] next_frame_state [of r] by (cases "rec_body r") simp_all
qed simp

declare poll_record.simps [simp del]

text \<open>The branches of a poll.\<close>

lemma poll_record_induct [case_names fused item refused ended ending pending chunk failed]:
  fixes J :: "('a, 'r, 'x) json_ops_scheme" and E :: "('e, 'y) error_ops_scheme"
  assumes "\<And>r. rec_state r = Fused \<Longrightarrow> poll_record J E r = (Ready None, r) \<Longrightarrow> P r"
    and "\<And>r x r'. rec_state r \<noteq> Fused \<Longrightarrow> next_frame r = (Some (Inr x), r') \<Longrightarrow>
           poll_record J E r = (Ready (Some (fst (record_decode J x r'))), snd (record_decode J x r')) \<Longrightarrow> P r"
    and "\<And>r x r'. rec_state r \<noteq> Fused \<Longrightarrow> next_frame r = (Some (Inl x), r') \<Longrightarrow>
           poll_record J E r = (Ready (Some (Inl x)), r') \<Longrightarrow> P r"
    and "\<And>r r'. rec_state r = Ended \<Longrightarrow> next_frame r = (None, r') \<Longrightarrow> rec_state r' = Ended \<Longrightarrow>
           poll_record J E r = (Ready None, r') \<Longrightarrow> P r"
    and "\<And>r r'. rec_state r = Reading \<Longrightarrow> next_frame r = (None, r') \<Longrightarrow> rec_state r' = Reading \<Longrightarrow>
           rec_body r = [] \<Longrightarrow> rec_body r' = [] \<Longrightarrow>
           poll_record J E r = poll_record J E (r'\<lparr>rec_state := Ended\<rparr>) \<Longrightarrow> P (r'\<lparr>rec_state := Ended\<rparr>) \<Longrightarrow> P r"
    and "\<And>r r' body. rec_state r = Reading \<Longrightarrow> next_frame r = (None, r') \<Longrightarrow> rec_state r' = Reading \<Longrightarrow>
           rec_body r = Pending # body \<Longrightarrow> rec_body r' = Pending # body \<Longrightarrow>
           poll_record J E r = (Pending, r'\<lparr>rec_body := body\<rparr>) \<Longrightarrow> P r"
    and "\<And>r r' c body. rec_state r = Reading \<Longrightarrow> next_frame r = (None, r') \<Longrightarrow> rec_state r' = Reading \<Longrightarrow>
           rec_body r = Ready (Inr c) # body \<Longrightarrow> rec_body r' = Ready (Inr c) # body \<Longrightarrow>
           poll_record J E r = poll_record J E (r'\<lparr>rec_body := body, buffer := buffer r' @ c\<rparr>) \<Longrightarrow>
           P (r'\<lparr>rec_body := body, buffer := buffer r' @ c\<rparr>) \<Longrightarrow> P r"
    and "\<And>r r' e body. rec_state r = Reading \<Longrightarrow> next_frame r = (None, r') \<Longrightarrow> rec_state r' = Reading \<Longrightarrow>
           rec_body r = Ready (Inl e) # body \<Longrightarrow> rec_body r' = Ready (Inl e) # body \<Longrightarrow>
           poll_record J E r =
             (Ready (Some (Inl (read_failed E e))), r'\<lparr>rec_body := body, rec_state := Fused\<rparr>) \<Longrightarrow> P r"
  shows "P r"
proof (induction "length (rec_body r) + (if rec_state r = Ended then 0 else 1)" arbitrary: r rule: less_induct)
  case less
  obtain p r' where p: "next_frame r = (p, r')" by fastforce
  note unfold = poll_record.simps [of J E r]
  show ?case
  proof (cases "rec_state r = Fused")
    case True
    show ?thesis by (rule assms(1) [OF True]) (simp add: unfold True)
  next
    case live: False
    show ?thesis
    proof (cases p)
      case (Some x)
      show ?thesis
      proof (cases x)
        case (Inl a)
        show ?thesis by (rule assms(3) [of r a r']) (simp_all add: live unfold p Some Inl)
      next
        case (Inr a)
        show ?thesis by (rule assms(2) [of r a r']) (simp_all add: live unfold p Some Inr case_prod_beta)
      qed
    next
      case None
      have same: "rec_body r' = rec_body r" "rec_state r' = rec_state r"
        using next_frame_keeps [of r] next_frame_state [of r] p None by simp_all
      show ?thesis
      proof (cases "rec_state r = Ended")
        case True
        show ?thesis by (rule assms(4) [of r r']) (simp_all add: True same unfold p None)
      next
        case False
        with live have reading: "rec_state r = Reading" by (cases "rec_state r") simp_all
        note facts = reading same unfold p None
        show ?thesis
        proof (cases "rec_body r")
          case Nil
          show ?thesis
            by (rule assms(5) [of r r'], simp_all add: facts Nil) (rule less, simp add: facts Nil)
        next
          case (Cons x body)
          show ?thesis
          proof (cases x)
            case Pending
            show ?thesis by (rule assms(6) [of r r' body]) (simp_all add: facts Cons Pending)
          next
            case (Ready y)
            show ?thesis
            proof (cases y)
              case (Inl e)
              show ?thesis by (rule assms(8) [of r r' e body]) (simp_all add: facts Cons Ready Inl)
            next
              case (Inr c)
              show ?thesis
                by (rule assms(7) [of r r' c body], simp_all add: facts Cons Ready Inr)
                   (rule less, simp add: facts Cons)
            qed
          qed
        qed
      qed
    qed
  qed
qed

definition records_size :: "'e records \<Rightarrow> nat" where
  "records_size r =
     length (rec_body r) + sum_list (map (\<lambda>p. case p of Ready (Inr chunk) \<Rightarrow> length chunk | _ \<Rightarrow> 0) (rec_body r)) +
     length (buffer r) + (case rec_state r of Reading \<Rightarrow> 2 | Ended \<Rightarrow> 1 | Fused \<Rightarrow> 0)"

lemma next_frame_size:
  "records_size (snd (next_frame r)) \<le> records_size r \<and>
   (rec_state r \<noteq> Fused \<longrightarrow> fst (next_frame r) \<noteq> None \<longrightarrow> records_size (snd (next_frame r)) < records_size r)"
  using next_frame_keeps [of r] next_frame_state [of r] next_frame_shrinks [of r]
  by (auto simp: records_size_def split: reading.splits option.splits sum.splits)

lemma record_decode_size: "records_size (snd (record_decode J x r)) \<le> records_size r"
  by (auto simp: record_decode_def records_size_def Let_def split: reading.splits sum.splits)

lemma poll_record_size:
  "fst (poll_record J E r) \<noteq> Ready None \<Longrightarrow> records_size (snd (poll_record J E r)) < records_size r"
proof (induction r rule: poll_record_induct [where J = J and E = E])
  case (item r x r')
  then show ?case using next_frame_size [of r] record_decode_size [of J x r'] by simp
next
  case (ending r r')
  have "records_size (r'\<lparr>rec_state := Ended\<rparr>) < records_size r'"
    using ending by (simp add: records_size_def)
  then show ?case using ending next_frame_size [of r] by simp
next
  case (chunk r r' c body)
  have "records_size (r'\<lparr>rec_body := body, buffer := buffer r' @ c\<rparr>) < records_size r'"
    using chunk by (simp add: records_size_def)
  then show ?case using chunk next_frame_size [of r] by simp
next
  case (pending r r' body)
  have "records_size (r'\<lparr>rec_body := body\<rparr>) < records_size r'"
    using pending by (simp add: records_size_def)
  then show ?case using pending next_frame_size [of r] by simp
next
  case (failed r r' e body)
  have "records_size (r'\<lparr>rec_body := body, rec_state := Fused\<rparr>) < records_size r'"
    using failed by (simp add: records_size_def)
  then show ?case using failed next_frame_size [of r] by simp
next
  case (refused r x r')
  then show ?case using next_frame_size [of r] by simp
qed simp_all

section \<open>Reading\<close>

text \<open>\<open>next\<close> awaits a record, so it polls until the answer is not \<open>Pending\<close>.\<close>

function records_next ::
  "('a, 'r, 'x) json_ops_scheme \<Rightarrow> ('e, 'y) error_ops_scheme \<Rightarrow> 'e records \<Rightarrow>
   (body_rejection + 'a) option \<times> 'e records" where
  "records_next J E r =
     (case poll_record J E r of
        (Pending, r) \<Rightarrow> records_next J E r
      | (Ready item, r) \<Rightarrow> (item, r))"
  by pat_completeness auto
termination
proof (relation "measure (\<lambda>(_, _, r). records_size r)", goal_cases)
  case (2 J E r p r')
  then have "poll_record J E r = (Pending, r')" by simp
  then show ?case using poll_record_size [of J E r] by simp
qed simp

declare records_next.simps [simp del]

lemma records_next_size:
  "fst (records_next J E r) \<noteq> None \<Longrightarrow> records_size (snd (records_next J E r)) < records_size r"
proof (induction J E r rule: records_next.induct)
  case (1 J E r)
  then show ?case
    using poll_record_size [of J E r]
    by (subst (asm) (2) records_next.simps, subst records_next.simps)
       (auto split: prod.splits poll.splits)
qed

function read_all ::
  "('a, 'r, 'x) json_ops_scheme \<Rightarrow> ('e, 'y) error_ops_scheme \<Rightarrow> 'a list \<Rightarrow> 'e records \<Rightarrow> body_rejection + 'a list" where
  "read_all J E acc r =
     (case records_next J E r of
        (None, _) \<Rightarrow> Inr acc
      | (Some (Inl rejection), _) \<Rightarrow> Inl rejection
      | (Some (Inr v), r) \<Rightarrow> read_all J E (acc @ [v]) r)"
  by pat_completeness auto
termination
proof (relation "measure (\<lambda>(_, _, _, r). records_size r)", goal_cases)
  case (2 J E acc r p r' x v)
  then have "records_next J E r = (Some (Inr v), r')" by simp
  then show ?case using records_next_size [of J E r] by simp
qed simp

text \<open>Every item the stream yields, to its end.\<close>

function every_item ::
  "('a, 'r, 'x) json_ops_scheme \<Rightarrow> ('e, 'y) error_ops_scheme \<Rightarrow> 'e records \<Rightarrow> (body_rejection + 'a) list" where
  "every_item J E r =
     (case records_next J E r of
        (None, _) \<Rightarrow> []
      | (Some item, r) \<Rightarrow> item # every_item J E r)"
  by pat_completeness auto
termination
proof (relation "measure (\<lambda>(_, _, r). records_size r)", goal_cases)
  case (2 J E r p r' x)
  then have "records_next J E r = (Some x, r')" by simp
  then show ?case using records_next_size [of J E r] by simp
qed simp

declare read_all.simps [simp del] every_item.simps [simp del]

section \<open>The records of a whole body\<close>

fun body_octets :: "('e + string) poll list \<Rightarrow> string" where
  "body_octets [] = []"
| "body_octets (Pending # body) = body_octets body"
| "body_octets (Ready (Inr chunk) # body) = chunk @ body_octets body"
| "body_octets (Ready (Inl _) # body) = []"

fun body_failure :: "('e + string) poll list \<Rightarrow> 'e option" where
  "body_failure [] = None"
| "body_failure (Pending # body) = body_failure body"
| "body_failure (Ready (Inr _) # body) = body_failure body"
| "body_failure (Ready (Inl e) # _) = Some e"

text \<open>What a record decodes to, and whether it ends the stream.\<close>

definition decode_item ::
  "('a, 'r, 'x) json_ops_scheme \<Rightarrow> nat \<Rightarrow> string \<Rightarrow> (body_rejection + 'a) \<times> bool" where
  "decode_item J i record =
     (case json_from_slice J record of
        Inl f \<Rightarrow>
          if is_schema_failure J f
          then (Inl (schema_at (failure_pointer f (pointer_index Root i)) (json_text J (json_error f))), False)
          else (Inl (Syntax (''record '' @ decimal i @ '': '' @ json_text J (json_error f))), True)
      | Inr v \<Rightarrow> (checked J v (pointer_index Root i), False))"

function whole_records ::
  "('a, 'r, 'x) json_ops_scheme \<Rightarrow> body_rejection option \<Rightarrow> record_framing \<Rightarrow> nat \<Rightarrow> nat \<Rightarrow> string \<Rightarrow>
   (body_rejection + 'a) list" where
  "whole_records J failure f limit i octets =
     (if octets = [] then (case failure of None \<Rightarrow> [] | Some e \<Rightarrow> [Inl e])
      else if f = Sequence \<and> hd octets \<noteq> RECORD_SEPARATOR then [Inl no_separator]
      else
        let content = drop (prefix_of f) octets;
            record = takeWhile (\<lambda>b. b \<noteq> delimiter_of f) content;
            rest = dropWhile (\<lambda>b. b \<noteq> delimiter_of f) content;
            rest' = (if f = Lines then tl rest else rest)
        in if length record > limit then [Inl (TooLarge limit)]
           else if rest = [] \<and> failure \<noteq> None then [Inl (the failure)]
           else if trim_ascii record = [] then whole_records J failure f limit i rest'
           else (case decode_item J i (trim_ascii record) of
                   (item, True) \<Rightarrow> [item]
                 | (item, False) \<Rightarrow> item # whole_records J failure f limit (i + 1) rest'))"
  by pat_completeness auto

lemma rest_less:
  "octets \<noteq> [] \<Longrightarrow>
   (let rest = dropWhile P (drop (prefix_of f) octets) in
    length (if f = Lines then tl rest else rest) < length octets)"
proof -
  assume ne: "octets \<noteq> []"
  have "length (dropWhile P (drop (prefix_of f) octets)) \<le> length (drop (prefix_of f) octets)"
    by (rule length_dropWhile_le)
  then show ?thesis using ne by (cases f; cases octets) (auto simp: Let_def)
qed

termination whole_records
proof (relation "measure (\<lambda>(_, _, _, _, _, octets). length octets)", goal_cases)
  case (2 J failure f limit i octets)
  then show ?case using rest_less [of octets "\<lambda>b. b \<noteq> delimiter_of f" f] by (cases f) (simp_all add: Let_def)
next
  case (3 J failure f limit i octets)
  then show ?case using rest_less [of octets "\<lambda>b. b \<noteq> delimiter_of f" f] by (cases f) (simp_all add: Let_def)
qed simp

declare whole_records.simps [simp del]

section \<open>Lemmas: framing a body in pieces\<close>

text \<open>What every operation keeps: the octets the search has passed hold no delimiter, and a body that
  ended has no more to give.\<close>

definition intact :: "'e records \<Rightarrow> bool" where
  "intact r \<longleftrightarrow> scanned r \<le> length (buffer r) \<and>
     (\<forall>j. prefix_of (rec_framing r) \<le> j \<and> j < scanned r \<longrightarrow> buffer r ! j \<noteq> delimiter_of (rec_framing r)) \<and>
     (rec_state r = Ended \<longrightarrow> rec_body r = []) \<and> rec_limit r < u64_max"

abbreviation content_of :: "'e records \<Rightarrow> string" where
  "content_of r \<equiv> drop (prefix_of (rec_framing r)) (buffer r)"

abbreviation inside :: "'e records \<Rightarrow> char \<Rightarrow> bool" where
  "inside r \<equiv> \<lambda>b. b \<noteq> delimiter_of (rec_framing r)"

lemma prefix_le: "buffer r \<noteq> [] \<Longrightarrow> prefix_of (rec_framing r) \<le> length (buffer r)"
  by (cases "rec_framing r"; cases "buffer r") simp_all

lemma find_delimiter_None:
  assumes "intact r" "find_delimiter r = None"
  shows "delimiter_of (rec_framing r) \<notin> set (content_of r)"
proof
  let ?p = "prefix_of (rec_framing r)" and ?d = "delimiter_of (rec_framing r)"
  assume "?d \<in> set (content_of r)"
  then obtain i where i: "i < length (buffer r) - ?p" "buffer r ! (?p + i) = ?d"
    by (auto simp: in_set_conv_nth)
  show False
  proof (cases "?p + i < scanned r")
    case True
    then show False using assms(1) i(2) by (simp add: intact_def)
  next
    case False
    let ?from = "max (scanned r) ?p"
    have le: "?from \<le> ?p + i" "?from \<le> length (buffer r)" using False i(1) by arith+
    then have "drop ?from (buffer r) ! (?p + i - ?from) = ?d" "?p + i - ?from < length (drop ?from (buffer r))"
      using i by (subst nth_drop [OF le(2)], simp_all)
    then have "?d \<in> set (drop ?from (buffer r))" by (metis nth_mem)
    then show False using assms(2) by (auto simp: find_delimiter_def Let_def position_None)
  qed
qed

lemma find_delimiter_Some:
  assumes "intact r" "find_delimiter r = Some stop"
  shows "stop < length (buffer r)" "takeWhile (inside r) (content_of r) = take (stop - prefix_of (rec_framing r)) (content_of r)"
    "delimiter_of (rec_framing r) \<in> set (content_of r)"
proof -
  let ?p = "prefix_of (rec_framing r)" and ?d = "delimiter_of (rec_framing r)"
  let ?from = "max (scanned r) ?p"
  obtain k where k: "stop = ?from + k" "position (\<lambda>b. b = ?d) (drop ?from (buffer r)) = Some k"
    using assms(2) by (auto simp: find_delimiter_def Let_def)
  then have "k < length (buffer r) - ?from" by (simp add: position_Some)
  then have le: "?from \<le> length (buffer r)" by arith
  have k': "k < length (buffer r) - ?from" "buffer r ! stop = ?d" "\<And>j. j < k \<Longrightarrow> buffer r ! (?from + j) \<noteq> ?d"
    using k unfolding position_Some nth_drop [OF le] by simp_all
  show stop: "stop < length (buffer r)" using k k' by simp
  have p: "?p \<le> stop" using k by simp
  have before: "buffer r ! j \<noteq> ?d" if "?p \<le> j" "j < stop" for j
  proof (cases "j < ?from")
    case True
    then show ?thesis using assms(1) that by (simp add: intact_def)
  next
    case False
    then show ?thesis using k'(3) [of "j - ?from"] that k(1) by simp
  qed
  show "takeWhile (inside r) (content_of r) = take (stop - ?p) (content_of r)"
  proof (rule takeWhile_eq_take_P_nth)
    show "content_of r ! i \<noteq> ?d" if "i < stop - ?p" "i < length (content_of r)" for i
      using before [of "?p + i"] that by simp
    show "\<not> content_of r ! (stop - ?p) \<noteq> ?d" using k'(2) p stop by simp
  qed
  have "content_of r ! (stop - ?p) = ?d" "stop - ?p < length (content_of r)" using k'(2) p stop by simp_all
  then show "?d \<in> set (content_of r)" by (metis nth_mem)
qed

lemma held_bytes_found:
  assumes "intact r" "find_delimiter r = Some stop"
  shows "held_bytes r = length (takeWhile (inside r) (content_of r @ fut))"
  using find_delimiter_Some [OF assms] assms(2) find_delimiter_ge [OF assms(2)]
  by (simp add: held_bytes_def takeWhile_append1)

lemma held_bytes_waiting:
  assumes "intact r" "find_delimiter r = None"
  shows "held_bytes r \<le> length (takeWhile (inside r) (content_of r @ fut))"
  using find_delimiter_None [OF assms] assms(2) by (subst takeWhile_append2) (auto simp: held_bytes_def)

lemma drop_prefix: "buffer r \<noteq> [] \<Longrightarrow> drop (prefix_of (rec_framing r)) (buffer r @ fut) = content_of r @ fut"
  using prefix_le [of r] by simp

text \<open>The frame cut is the record of the body so far.\<close>

lemma cut_record_whole:
  assumes "intact r" "buffer r \<noteq> []" "find_delimiter r \<noteq> None \<or> fut = []"
  shows "cut_record r = trim_ascii (takeWhile (inside r) (content_of r @ fut))"
    and "buffer (after_cut r) @ fut =
      (let rest = dropWhile (inside r) (content_of r @ fut) in if rec_framing r = Lines then tl rest else rest)"
proof -
  let ?p = "prefix_of (rec_framing r)"
  show "cut_record r = trim_ascii (takeWhile (inside r) (content_of r @ fut))"
  proof (cases "find_delimiter r")
    case None
    then show ?thesis using find_delimiter_None [OF assms(1) None] assms(3)
      by (subst takeWhile_append2) (auto simp: cut_record_def cut_frame_def)
  next
    case (Some stop)
    show ?thesis
      using find_delimiter_Some [OF assms(1) Some] find_delimiter_ge [OF Some] Some
      by (simp add: cut_record_def cut_frame_def takeWhile_append1 drop_take)
  qed
  show "buffer (after_cut r) @ fut =
      (let rest = dropWhile (inside r) (content_of r @ fut) in if rec_framing r = Lines then tl rest else rest)"
  proof (cases "find_delimiter r")
    case None
    then have "dropWhile (inside r) (content_of r) = []" using find_delimiter_None [OF assms(1) None] by auto
    then have d: "dropWhile (inside r) (content_of r @ fut) = []" using None assms(3) by simp
    show ?thesis unfolding d using None assms(3) by (simp add: after_cut_def cut_frame_def)
  next
    case (Some stop)
    note f = find_delimiter_Some [OF assms(1) Some]
    have "dropWhile (inside r) (content_of r) = drop (stop - ?p) (content_of r)"
      using f(1,2) by (simp add: dropWhile_eq_drop)
    also have "\<dots> = drop stop (buffer r)" using find_delimiter_ge [OF Some] by simp
    finally have d: "dropWhile (inside r) (content_of r @ fut) = drop stop (buffer r) @ fut"
      using f(3) by (simp add: dropWhile_append1)
    have "drop stop (buffer r) \<noteq> []" using f(1) by simp
    then show ?thesis unfolding d using Some
      by (cases "rec_framing r") (simp_all add: after_cut_def cut_frame_def taken_to_def drop_Suc tl_drop)
  qed
qed

lemma held_limit: "intact r \<Longrightarrow> min u64_max (held_bytes r) > rec_limit r \<longleftrightarrow> held_bytes r > rec_limit r"
  by (auto simp: intact_def)

lemma intact_after_cut: "intact r \<Longrightarrow> intact (after_cut r)"
  by (simp add: intact_def)

lemma intact_scanned: "intact r \<Longrightarrow> find_delimiter r = None \<Longrightarrow> intact (r\<lparr>scanned := length (buffer r)\<rparr>)"
proof -
  assume r: "intact r" "find_delimiter r = None"
  have "buffer r ! j \<noteq> delimiter_of (rec_framing r)" if "prefix_of (rec_framing r) \<le> j" "j < length (buffer r)" for j
  proof -
    have "buffer r ! j = content_of r ! (j - prefix_of (rec_framing r))" using that by simp
    also have "\<dots> \<in> set (content_of r)" using that by (intro nth_mem) simp
    finally show ?thesis using find_delimiter_None [OF r] by auto
  qed
  then show ?thesis using r(1) by (simp add: intact_def)
qed

lemma whole_cut:
  fixes J :: "('a, 'r, 'x) json_ops_scheme"
  assumes r: "intact r" "buffer r \<noteq> []" "\<not> unframed r" "\<not> min u64_max (held_bytes r) > rec_limit r"
    "find_delimiter r \<noteq> None \<or> rec_state r = Ended" and fut: "rec_state r = Ended \<longrightarrow> fut = [] \<and> failure = None"
  shows "whole_records J failure (rec_framing r) (rec_limit r) i (buffer r @ fut) =
    (if cut_record r = [] then whole_records J failure (rec_framing r) (rec_limit r) i (buffer (after_cut r) @ fut)
     else (case decode_item J i (cut_record r) of
             (item, True) \<Rightarrow> [item]
           | (item, False) \<Rightarrow> item # whole_records J failure (rec_framing r) (rec_limit r) (i + 1) (buffer (after_cut r) @ fut)))"
proof -
  have hd: "\<not> (rec_framing r = Sequence \<and> hd (buffer r @ fut) \<noteq> RECORD_SEPARATOR)"
    using r(2,3) by (simp add: unframed_def)
  have ne: "buffer r @ fut \<noteq> []" using r(2) by simp
  have within: "\<not> length (takeWhile (inside r) (content_of r @ fut)) > rec_limit r"
  proof (cases "find_delimiter r")
    case None
    then have "takeWhile (inside r) (content_of r @ fut) = content_of r"
      using find_delimiter_None [OF r(1) None] r(5) fut by (subst takeWhile_append2) auto
    then show ?thesis using r(4) None unfolding held_limit [OF r(1)] by (simp add: held_bytes_def)
  next
    case (Some stop)
    then show ?thesis using r(4) held_bytes_found [OF r(1) Some, of fut] unfolding held_limit [OF r(1)] by simp
  qed
  have more_to_come: "\<not> (dropWhile (inside r) (content_of r @ fut) = [] \<and> failure \<noteq> None)"
    using r(5) fut find_delimiter_Some(3) [OF r(1)] by fastforce
  have cut: "find_delimiter r \<noteq> None \<or> fut = []" using r(5) fut by blast
  show ?thesis
    by (subst whole_records.simps, subst if_not_P [OF ne], subst if_not_P [OF hd])
       (simp only: drop_prefix [OF r(2)] within more_to_come if_False cut_record_whole [OF r(1,2) cut] Let_def)
qed

lemma next_frame_whole:
  fixes J :: "('a, 'r, 'x) json_ops_scheme"
  assumes "intact r" "rec_state r = Ended \<longrightarrow> fut = [] \<and> failure = None"
  shows "let (p, r') = next_frame r;
             whole = whole_records J failure (rec_framing r) (rec_limit r)
         in (case p of
               None \<Rightarrow> whole (index r) (buffer r @ fut) = whole (index r) (buffer r' @ fut) \<and>
                       (rec_state r = Ended \<longrightarrow> buffer r' = []) \<and>
                       (rec_state r \<noteq> Ended \<and> fut = [] \<and> failure \<noteq> None \<longrightarrow> whole (index r) (buffer r @ fut) = [Inl (the failure)])
             | Some (Inl x) \<Rightarrow> whole (index r) (buffer r @ fut) = [Inl x]
             | Some (Inr x) \<Rightarrow> whole (index r) (buffer r @ fut) =
                 (case decode_item J (index r) x of
                    (item, True) \<Rightarrow> [item]
                  | (item, False) \<Rightarrow> item # whole (index r + 1) (buffer r' @ fut))) \<and>
            (rec_state r' \<noteq> Fused \<longrightarrow> intact r')"
  using assms
proof (induction r rule: next_frame_induct)
  case (empty r)
  then show ?case by (auto simp: whole_records.simps [of _ _ _ _ _ "[]"])
next
  case (unframed r)
  then show ?case by (simp add: unframed_def whole_records.simps [of _ _ _ _ _ "_ @ _"])
next
  case (large r)
  have "rec_limit r < length (takeWhile (inside r) (content_of r @ fut))"
  proof (cases "find_delimiter r")
    case None
    then show ?thesis
      using large(3) held_bytes_waiting [OF large(5) None, of fut] unfolding held_limit [OF large(5)] by simp
  next
    case (Some stop)
    then show ?thesis using large(3) held_bytes_found [OF large(5) Some, of fut] unfolding held_limit [OF large(5)] by simp
  qed
  then have "whole_records J failure (rec_framing r) (rec_limit r) (index r) (buffer r @ fut) = [Inl (TooLarge (rec_limit r))]"
    using large(1,2) by (subst whole_records.simps) (auto simp: unframed_def drop_prefix Let_def simp del: drop_append)
  then show ?case using large(4) by simp
next
  case (wait r)
  have all: "takeWhile (inside r) (content_of r) = content_of r"
    using find_delimiter_None [OF wait(7,4)] by (auto simp: takeWhile_eq_all_conv)
  have none: "length (takeWhile (inside r) (content_of r)) = length (buffer r) - prefix_of (rec_framing r)"
      "dropWhile (inside r) (content_of r) = []"
    unfolding all using find_delimiter_None [OF wait(7,4)] by auto
  have "whole_records J (Some e) (rec_framing r) (rec_limit r) (index r) (buffer r) = [Inl e]" for e
    using wait(1-4) none held_limit [OF wait(7)]
    by (subst whole_records.simps) (auto simp: unframed_def held_bytes_def Let_def)
  then show ?case using intact_scanned [of r] wait by auto
next
  case (skip r)
  note cut = whole_cut [OF skip(8) skip(1-4) skip(9), of J "index r"]
  obtain p r' where p: "next_frame (after_cut r) = (p, r')" by fastforce
  have eq: "whole_records J failure (rec_framing r) (rec_limit r) (index r) (buffer r @ fut) =
      whole_records J failure (rec_framing r) (rec_limit r) (index r) (buffer (after_cut r) @ fut)"
    unfolding cut by (simp add: skip(5))
  have eq_nil: "fut = [] \<Longrightarrow> whole_records J failure (rec_framing r) (rec_limit r) (index r) (buffer r) =
      whole_records J failure (rec_framing r) (rec_limit r) (index r) (buffer (after_cut r))"
    using eq by simp
  show ?case
    using skip(7) [OF intact_after_cut [OF skip(8)]] skip(9) unfolding skip(6) p
    by (cases p) (simp_all add: Let_def eq eq_nil split: sum.splits)
next
  case (emit r)
  note cut = whole_cut [OF emit(7) emit(1-4) emit(8), of J "index r"]
  show ?case unfolding emit(6) using intact_after_cut [OF emit(7)] emit(5) by (simp add: Let_def cut)
qed

section \<open>Lemmas: reading a body in pieces\<close>

text \<open>What is still to come of a body, by the reference.\<close>

definition to_come ::
  "('a, 'r, 'x) json_ops_scheme \<Rightarrow> ('e, 'y) error_ops_scheme \<Rightarrow> 'e records \<Rightarrow> (body_rejection + 'a) list" where
  "to_come J E r =
     (if rec_state r = Fused then []
      else whole_records J (map_option (read_failed E) (body_failure (rec_body r))) (rec_framing r) (rec_limit r)
             (index r) (buffer r @ body_octets (rec_body r)))"

lemma record_decode_eq:
  "record_decode J x r =
     (fst (decode_item J (index r) x),
      (r\<lparr>index := index r + 1\<rparr>)\<lparr>rec_state := if snd (decode_item J (index r) x) then Fused else rec_state r\<rparr>)"
  by (simp add: record_decode_def decode_item_def Let_def split: sum.split)

lemma poll_record_to_come:
  fixes J :: "('a, 'r, 'x) json_ops_scheme" and E :: "('e, 'y) error_ops_scheme"
  assumes "rec_state r \<noteq> Fused \<longrightarrow> intact r"
  shows "let (p, r') = poll_record J E r
         in to_come J E r = (case p of Ready None \<Rightarrow> [] | Ready (Some x) \<Rightarrow> x # to_come J E r' | Pending \<Rightarrow> to_come J E r') \<and>
            (rec_state r' \<noteq> Fused \<longrightarrow> intact r')"
  using assms
proof (induction r rule: poll_record_induct [where J = J and E = E])
  case (fused r)
  then show ?case by (simp add: to_come_def)
next
  case (item r x r')
  have i: "intact r" using item by simp
  note same = next_frame_keeps [of r, unfolded item(2)] next_frame_state [of r, unfolded item(2)]
  have "rec_state r = Ended \<longrightarrow> body_octets (rec_body r) = [] \<and> map_option (read_failed E) (body_failure (rec_body r)) = None"
    using i by (simp add: intact_def)
  note whole = next_frame_whole [OF i this, of J, unfolded item(2)]
  obtain y stop where d: "decode_item J (index r) x = (y, stop)" by fastforce
  show ?case
    using whole same item(1,3) d
    by (cases stop) (simp_all add: record_decode_eq to_come_def intact_def Let_def)
next
  case (refused r x r')
  have i: "intact r" using refused by simp
  have "rec_state r = Ended \<longrightarrow> body_octets (rec_body r) = [] \<and> map_option (read_failed E) (body_failure (rec_body r)) = None"
    using i by (simp add: intact_def)
  note whole = next_frame_whole [OF i this, of J, unfolded refused(2)]
  show ?case
    using whole next_frame_state [of r, unfolded refused(2)] refused(1,3) by (simp add: to_come_def)
next
  case (ended r r')
  have i: "intact r" using ended by simp
  then have e: "rec_body r = []" using ended(1) by (simp add: intact_def)
  have "rec_state r = Ended \<longrightarrow> [] = ([] :: string) \<and> (None :: body_rejection option) = None" by simp
  note whole = next_frame_whole [OF i this, of J, unfolded ended(2)]
  show ?case using whole e ended by (simp add: Let_def to_come_def whole_records.simps [of _ _ _ _ _ "[]"])
next
  case (ending r r')
  have i: "intact r" using ending by simp
  have "rec_state r = Ended \<longrightarrow> [] = ([] :: string) \<and> (None :: body_rejection option) = None" by simp
  note whole = next_frame_whole [OF i this, of J, unfolded ending(2)]
  have "intact (r'\<lparr>rec_state := Ended\<rparr>)" using whole ending(3,5) by (simp add: intact_def Let_def)
  moreover have "to_come J E r = to_come J E (r'\<lparr>rec_state := Ended\<rparr>)"
    using whole ending next_frame_keeps [of r] by (simp add: to_come_def Let_def)
  ultimately show ?case using ending(6,7) by simp
next
  case (pending r r' body)
  have i: "intact r" using pending by simp
  have "rec_state r = Ended \<longrightarrow> body_octets body = [] \<and> map_option (read_failed E) (body_failure body) = None"
    using pending(1) by simp
  note whole = next_frame_whole [OF i this, of J, unfolded pending(2)]
  show ?case using whole pending next_frame_keeps [of r] by (simp add: to_come_def intact_def Let_def)
next
  case (chunk r r' c body)
  have i: "intact r" using chunk by simp
  have "rec_state r = Ended \<longrightarrow> c @ body_octets body = [] \<and> map_option (read_failed E) (body_failure body) = None"
    using chunk(1) by simp
  note whole = next_frame_whole [OF i this, of J, unfolded chunk(2)]
  let ?r = "r'\<lparr>rec_body := body, buffer := buffer r' @ c\<rparr>"
  have "intact ?r" using whole chunk(3) by (auto simp: intact_def nth_append Let_def)
  moreover have "to_come J E r = to_come J E ?r"
    using whole chunk next_frame_keeps [of r] by (simp add: to_come_def Let_def)
  ultimately show ?case using chunk(6,7) by simp
next
  case (failed r r' e body)
  have i: "intact r" using failed by simp
  have "rec_state r = Ended \<longrightarrow> [] = ([] :: string) \<and> Some (read_failed E e) = None" using failed(1) by simp
  from next_frame_whole [OF i this, of J, unfolded failed(2)]
  have "whole_records J (Some (read_failed E e)) (rec_framing r) (rec_limit r) (index r) (buffer r) = [Inl (read_failed E e)]"
    using failed(1) by (simp add: Let_def) metis
  then show ?case using failed by (auto simp: to_come_def Let_def)
qed

lemma records_next_to_come:
  "(rec_state r \<noteq> Fused \<longrightarrow> intact r) \<Longrightarrow>
   let (p, r') = records_next J E r
   in to_come J E r = (case p of None \<Rightarrow> [] | Some x \<Rightarrow> x # to_come J E r') \<and> (rec_state r' \<noteq> Fused \<longrightarrow> intact r')"
proof (induction J E r rule: records_next.induct)
  case (1 J E r)
  obtain p r' where p: "poll_record J E r = (p, r')" by fastforce
  note step = poll_record_to_come [OF 1(2), of J E, unfolded p]
  show ?case
  proof (cases p)
    case Pending
    then show ?thesis
      using step 1(1) [OF p [symmetric] Pending] by (subst records_next.simps) (simp add: p)
  next
    case (Ready x)
    then show ?thesis using step by (subst records_next.simps) (simp add: p)
  qed
qed

lemma every_item_to_come: "(rec_state r \<noteq> Fused \<longrightarrow> intact r) \<Longrightarrow> every_item J E r = to_come J E r"
proof (induction J E r rule: every_item.induct)
  case (1 J E r)
  obtain p r' where p: "records_next J E r = (p, r')" by fastforce
  note step = records_next_to_come [OF 1(2), of J E, unfolded p]
  show ?case
  proof (cases p)
    case None
    then show ?thesis using step by (subst every_item.simps) (simp add: p)
  next
    case (Some x)
    then show ?thesis
      using step 1(1) [OF p [symmetric] Some] by (subst every_item.simps) (simp add: p)
  qed
qed

text \<open>The first rejection of a stream, or its values.\<close>

fun first_rejection :: "('r + 'a) list \<Rightarrow> 'r + 'a list" where
  "first_rejection [] = Inr []"
| "first_rejection (Inl e # _) = Inl e"
| "first_rejection (Inr v # items) = map_sum id (Cons v) (first_rejection items)"

lemma read_all_items: "read_all J E acc r = map_sum id ((@) acc) (first_rejection (every_item J E r))"
proof (induction J E acc r rule: read_all.induct)
  case (1 J E acc r)
  obtain p r' where p: "records_next J E r = (p, r')" by fastforce
  show ?case
  proof (cases p)
    case None
    then show ?thesis by (subst read_all.simps, subst every_item.simps) (simp add: p)
  next
    case (Some x)
    show ?thesis
    proof (cases x)
      case (Inl e)
      then show ?thesis by (subst read_all.simps, subst every_item.simps) (simp add: p Some)
    next
      case (Inr v)
      then show ?thesis
        using 1 [OF p [symmetric] Some Inr]
        by (subst read_all.simps, subst every_item.simps) (simp add: p Some sum.map_comp comp_def)
    qed
  qed
qed

lemma map_sum_append_Nil: "map_sum id ((@) []) x = x"
  by (cases x) simp_all

text \<open>What polling a number of times yields.\<close>

fun polls ::
  "('a, 'r, 'x) json_ops_scheme \<Rightarrow> ('e, 'y) error_ops_scheme \<Rightarrow> nat \<Rightarrow> 'e records \<Rightarrow>
   (body_rejection + 'a) option poll list" where
  "polls J E 0 r = []"
| "polls J E (Suc n) r = (let (p, r) = poll_record J E r in p # polls J E n r)"

lemma polls_end: "records_size r < n \<Longrightarrow> Ready None \<in> set (polls J E n r)"
proof (induction n arbitrary: r)
  case (Suc n)
  then show ?case using poll_record_size [of J E r] by (fastforce simp: case_prod_beta Let_def)
qed simp

lemma records_as_whole:
  assumes "records_new H hs extension body f = Inr r" "limit_of extension < u64_max"
  shows "every_item J E r =
      whole_records J (map_option (read_failed E) (body_failure body)) f (limit_of extension) 0 (body_octets body) \<and>
    read_all J E [] r =
      first_rejection (whole_records J (map_option (read_failed E) (body_failure body)) f (limit_of extension) 0 (body_octets body))"
proof -
  have r: "r = \<lparr>rec_body = body, rec_limit = limit_of extension, buffer = [], scanned = 0, index = 0,
                rec_framing = f, rec_state = Reading\<rparr>"
    using assms(1) by (simp add: records_new_def split: option.splits)
  have i: "intact r" using assms(2) r by (simp add: intact_def)
  have items: "every_item J E r =
      whole_records J (map_option (read_failed E) (body_failure body)) f (limit_of extension) 0 (body_octets body)"
    using i by (subst every_item_to_come) (simp_all add: to_come_def r)
  show ?thesis by (simp add: read_all_items items map_sum_append_Nil)
qed

section \<open>Properties\<close>

text \<open>C27: reading a streamed body record by record yields exactly the records of the whole body, and
  then its failure if it has one, in whatever chunks its octets arrive and however often a poll has to
  wait; reading them all gives the values, or the first rejection among them.\<close>

theorem records_refine_whole:
  assumes "records_new H hs extension body f = Inr r" "limit_of extension < u64_max"
  shows "every_item J E r =
      whole_records J (map_option (read_failed E) (body_failure body)) f (limit_of extension) 0 (body_octets body) \<and>
    read_all J E [] r =
      first_rejection (whole_records J (map_option (read_failed E) (body_failure body)) f (limit_of extension) 0 (body_octets body))"
  by (rule records_as_whole [OF assms])

definition ndjson_headers :: "string \<Rightarrow> string list" where
  "ndjson_headers n = (if n = ''content-type'' then [''application/x-ndjson''] else [])"

definition string_json :: "(string, unit) json_ops" where
  "string_json = \<lparr>deserialize = Inr, ignored_any = (\<lambda>_. None), trailing = (\<lambda>_. None),
     classify_error = (\<lambda>_. Syntax_error), json_text = (\<lambda>_. []), check_constraints = (\<lambda>_ _ v. v),
     constraint_type = None\<rparr>"

lemma ndjson_admitted: "admit fun_headers ndjson_headers ''application/x-ndjson'' = None"
  by code_simp

theorem records_refine_whole_witness:
  "\<exists>r. records_new fun_headers ndjson_headers (Some 8)
        [Ready (Inr ''a b''), Pending, Ready (Inr [CHR ''c'', char_of (10 :: nat), CHR ''d''])] Lines = Inr r \<and>
     read_all string_json (\<lparr>error_chain = (\<lambda>_. []), as_stall = (\<lambda>_. None), error_text = (\<lambda>_. [])\<rparr> :: unit error_ops) [] r
       = Inr [''a bc'', ''d'']"
proof -
  let ?body = "[Ready (Inr ''a b''), Pending, Ready (Inr [CHR ''c'', char_of (10 :: nat), CHR ''d''])] :: (unit + string) poll list"
  let ?E = "\<lparr>error_chain = (\<lambda>_. []), as_stall = (\<lambda>_. None), error_text = (\<lambda>_. [])\<rparr> :: unit error_ops"
  obtain r where r: "records_new fun_headers ndjson_headers (Some 8) ?body Lines = Inr r"
    using ndjson_admitted by (simp add: records_new_def)
  have "first_rejection (whole_records string_json (map_option (read_failed ?E) (body_failure ?body)) Lines (limit_of (Some 8)) 0
      (body_octets ?body)) = Inr [''a bc'', ''d'']"
    by code_simp
  with records_refine_whole [OF r, of string_json ?E] r show ?thesis by (auto simp: limit_of_def u64_max_def)
qed

text \<open>C28: a streamed body ends. Polling it as often as there are chunks, waits and octets in it, and
  three times more, reaches its end, whatever the records hold and however they fail.\<close>

theorem records_end:
  assumes "records_new H hs extension body f = Inr r"
  shows "Ready None \<in> set (polls J E (length body +
    sum_list (map (\<lambda>p. case p of Ready (Inr chunk) \<Rightarrow> length chunk | _ \<Rightarrow> 0) body) + 3) r)"
proof (rule polls_end)
  show "records_size r < length body + sum_list (map (\<lambda>p. case p of Ready (Inr chunk) \<Rightarrow> length chunk | _ \<Rightarrow> 0) body) + 3"
    using assms by (auto simp: records_new_def records_size_def split: option.splits)
qed

theorem records_end_witness:
  "\<exists>r. records_new fun_headers ndjson_headers None [Ready (Inr ''ab''), Pending] Lines = Inr r \<and>
     Ready None \<in> set (polls string_json (\<lparr>error_chain = (\<lambda>_. []), as_stall = (\<lambda>_. None), error_text = (\<lambda>_. [])\<rparr> :: unit error_ops) 7 r)"
proof -
  obtain r where r: "records_new fun_headers ndjson_headers None [Ready (Inr ''ab''), Pending :: (unit + string) poll] Lines = Inr r"
    using ndjson_admitted by (simp add: records_new_def)
  show ?thesis
    using records_end [OF r, of string_json "\<lparr>error_chain = (\<lambda>_. []), as_stall = (\<lambda>_. None), error_text = (\<lambda>_. [])\<rparr>"] r
    by (auto simp: numeral_eq_Suc)
qed

end
