(* ===== verification/Concurrency.thy ===== *)
theory Concurrency
  imports Bodies
begin

text \<open>
  The cap on requests in flight (\<open>src/crates/kynos/src/middleware/limits/concurrency.rs\<close>) as a step
  relation over the requests that share it. A request takes a slot before its chain runs and carries
  it into the response body, whose delivery report (\<open>src/crates/kynos/src/http/body/watched.rs\<close>) gives
  it back.

  The semaphore is tokio's and a parameter, with its documented behaviour. What happens between the
  steps, and in which order requests take theirs, is left open, so the invariant holds of every
  interleaving.
\<close>

section \<open>The semaphore\<close>

record 's semaphore =
  sem_new :: "nat \<Rightarrow> 's"
  permits :: "'s \<Rightarrow> nat"
  try_acquire :: "'s \<Rightarrow> 's option"
  give_back :: "'s \<Rightarrow> 's"

definition semaphore_laws :: "('s, 'x) semaphore_scheme \<Rightarrow> bool" where
  "semaphore_laws S \<longleftrightarrow>
     (\<forall>n. permits S (sem_new S n) = n) \<and>
     (\<forall>s. try_acquire S s = None \<longleftrightarrow> permits S s = 0) \<and>
     (\<forall>s s'. try_acquire S s = Some s' \<longrightarrow> permits S s = Suc (permits S s')) \<and>
     (\<forall>s. permits S (give_back S s) = Suc (permits S s))"

definition nat_semaphore :: "nat semaphore" where
  "nat_semaphore = \<lparr>sem_new = id, permits = id, try_acquire = (\<lambda>n. if n = 0 then None else Some (n - 1)), give_back = Suc\<rparr>"

lemma nat_semaphore_laws: "semaphore_laws nat_semaphore"
  by (simp add: semaphore_laws_def nat_semaphore_def split: if_splits)

section \<open>The cap\<close>

text \<open>Where a request is: waiting in the queue, in its chain, with its body being sent, or finished.\<close>

datatype 'b phase = Waiting | Running | Sending "'b watched" | Sent | Shed | Cancelled

record ('s, 'b) concurrency =
  slots :: 's
  queue_for :: nat
  requests :: "nat \<Rightarrow> 'b phase option"

definition concurrency_new :: "('s, 'x) semaphore_scheme \<Rightarrow> nat \<Rightarrow> nat \<Rightarrow> ('s, 'b) concurrency" where
  "concurrency_new S lim wait = \<lparr>slots = sem_new S lim, queue_for = wait, requests = (\<lambda>_. None)\<rparr>"

definition enter :: "nat \<Rightarrow> 'b phase \<Rightarrow> ('s, 'b) concurrency \<Rightarrow> ('s, 'b) concurrency" where
  "enter i p c = c\<lparr>requests := (requests c)(i \<mapsto> p)\<rparr>"

definition release :: "('s, 'x) semaphore_scheme \<Rightarrow> ('s, 'b) concurrency \<Rightarrow> ('s, 'b) concurrency" where
  "release S c = c\<lparr>slots := give_back S (slots c)\<rparr>"

text \<open>\<open>watching(move |_| drop(slot))\<close>: the slot is dropped by the report.\<close>

definition released_by ::
  "('s, 'x) semaphore_scheme \<Rightarrow> 'b watched \<Rightarrow> 'b watched \<Rightarrow> ('s, 'b) concurrency \<Rightarrow> ('s, 'b) concurrency" where
  "released_by S w w' c = (if unreported w \<and> \<not> unreported w' then release S c else c)"

inductive conc_step ::
  "('s, 'x) semaphore_scheme \<Rightarrow> ('b, 'e) body_ops \<Rightarrow> ('s, 'b) concurrency \<Rightarrow> ('s, 'b) concurrency \<Rightarrow> bool"
  for S B where
  admit_now: "requests c i = None \<Longrightarrow> try_acquire S (slots c) = Some s \<Longrightarrow>
    conc_step S B c (enter i Running (c\<lparr>slots := s\<rparr>))"
| shed_now: "requests c i = None \<Longrightarrow> try_acquire S (slots c) = None \<Longrightarrow> queue_for c = 0 \<Longrightarrow>
    conc_step S B c (enter i Shed c)"
| queue: "requests c i = None \<Longrightarrow> try_acquire S (slots c) = None \<Longrightarrow> queue_for c \<noteq> 0 \<Longrightarrow>
    conc_step S B c (enter i Waiting c)"
| granted: "requests c i = Some Waiting \<Longrightarrow> try_acquire S (slots c) = Some s \<Longrightarrow>
    conc_step S B c (enter i Running (c\<lparr>slots := s\<rparr>))"
| expired: "requests c i = Some Waiting \<Longrightarrow> conc_step S B c (enter i Shed c)"
| gave_up: "requests c i = Some Waiting \<Longrightarrow> conc_step S B c (enter i Cancelled c)"
| cancelled: "requests c i = Some Running \<Longrightarrow> conc_step S B c (release S (enter i Cancelled c))"
| answered: "requests c i = Some Running \<Longrightarrow> conc_step S B c (enter i (Sending (watch b)) c)"
| polled: "requests c i = Some (Sending w) \<Longrightarrow> w' = snd (watched_poll B w) \<Longrightarrow>
    conc_step S B c (released_by S w w' (enter i (Sending w') c))"
| dropped: "requests c i = Some (Sending w) \<Longrightarrow>
    conc_step S B c (released_by S w (watched_drop B w) (enter i Sent c))"

section \<open>The requests in flight\<close>

fun holds_slot :: "'b phase option \<Rightarrow> bool" where
  "holds_slot (Some Running) = True"
| "holds_slot (Some (Sending w)) = unreported w"
| "holds_slot _ = False"

definition in_flight :: "('s, 'b) concurrency \<Rightarrow> nat set" where
  "in_flight c = {i. holds_slot (requests c i)}"

lemma in_flight_enter:
  "in_flight (enter i p c) = (if holds_slot (Some p) then insert i (in_flight c) else in_flight c - {i})"
  by (auto simp: in_flight_def enter_def)

lemma in_flight_simps [simp]:
  "in_flight (c\<lparr>slots := s\<rparr>) = in_flight c" "in_flight (release S c) = in_flight c"
  "in_flight (released_by S w w' c) = in_flight c"
  by (simp_all add: in_flight_def release_def released_by_def)

lemma slots_simps [simp]:
  "slots (enter i p c) = slots c" "slots (release S c) = give_back S (slots c)"
  "queue_for (enter i p c) = queue_for c" "queue_for (release S c) = queue_for c"
  "queue_for (released_by S w w' c) = queue_for c"
  "slots (released_by S w w' c) = (if unreported w \<and> \<not> unreported w' then give_back S (slots c) else slots c)"
  by (simp_all add: enter_def release_def released_by_def)

lemma holds_in_flight: "requests c i = p \<Longrightarrow> i \<in> in_flight c \<longleftrightarrow> holds_slot p"
  by (auto simp: in_flight_def)

lemma watched_poll_unreported: "\<not> unreported w \<Longrightarrow> \<not> unreported (snd (watched_poll B w))"
  by (auto simp: watched_poll_def Let_def make_report_def split: prod.splits poll.splits option.splits sum.splits)

lemma watched_drop_reported: "\<not> unreported (watched_drop B w)"
  by (simp add: watched_drop_def)

text \<open>The cap, seen from outside: a number between zero and the limit.\<close>

inductive count_step :: "nat \<Rightarrow> nat \<Rightarrow> nat \<Rightarrow> bool" for lim where
  take_slot: "n < lim \<Longrightarrow> count_step lim n (Suc n)"
| free_slot: "count_step lim (Suc n) n"
| keep: "count_step lim n n"

definition slots_conserved :: "('s, 'x) semaphore_scheme \<Rightarrow> nat \<Rightarrow> ('s, 'b) concurrency \<Rightarrow> bool" where
  "slots_conserved S lim c \<longleftrightarrow>
     finite (in_flight c) \<and> permits S (slots c) + card (in_flight c) = lim"

lemma take_slot_step:
  assumes "semaphore_laws S" "slots_conserved S lim c" "try_acquire S (slots c) = Some s" "i \<notin> in_flight c"
  shows "slots_conserved S lim (enter i Running (c\<lparr>slots := s\<rparr>)) \<and>
    count_step lim (card (in_flight c)) (card (in_flight (enter i Running (c\<lparr>slots := s\<rparr>))))"
proof -
  have "permits S (slots c) = Suc (permits S s)" using assms(1,3) by (simp add: semaphore_laws_def)
  then show ?thesis
    using assms(2,4) by (auto simp: slots_conserved_def in_flight_enter intro: count_step.take_slot)
qed

lemma free_slot_step:
  assumes "semaphore_laws S" "slots_conserved S lim c" "i \<in> in_flight c"
    "slots c' = give_back S (slots c)" "in_flight c' = in_flight c - {i}"
  shows "slots_conserved S lim c' \<and> count_step lim (card (in_flight c)) (card (in_flight c'))"
proof -
  have "card (in_flight c) = Suc (card (in_flight c'))"
    using assms(2,3,5) by (simp add: slots_conserved_def card_Diff_singleton card_gt_0_iff Suc_diff_1)
       (metis Suc_pred card_gt_0_iff empty_iff)
  moreover have "count_step lim (Suc (card (in_flight c'))) (card (in_flight c'))" by (rule count_step.free_slot)
  ultimately show ?thesis
    using assms(1,2,4,5) by (auto simp: slots_conserved_def semaphore_laws_def)
qed

lemma keep_slots_step:
  assumes "slots_conserved S lim c" "slots c' = slots c" "in_flight c' = in_flight c"
  shows "slots_conserved S lim c' \<and> count_step lim (card (in_flight c)) (card (in_flight c'))"
  using assms by (simp add: slots_conserved_def count_step.keep)

text \<open>Every step of the cap is one of the counter's.\<close>

lemma conc_step_simulates:
  assumes laws: "semaphore_laws S" and c: "slots_conserved S lim c" and step: "conc_step S B c c'"
  shows "slots_conserved S lim c' \<and> count_step lim (card (in_flight c)) (card (in_flight c'))"
  using step
proof cases
  case (admit_now i s)
  then show ?thesis using take_slot_step [OF laws c, of s i] holds_in_flight [of c i] by simp
next
  case (granted i s)
  then show ?thesis using take_slot_step [OF laws c, of s i] holds_in_flight [of c i] by simp
next
  case (shed_now i)
  then show ?thesis
    using holds_in_flight [of c i] by (intro keep_slots_step [OF c]) (simp_all add: in_flight_enter)
next
  case (queue i)
  then show ?thesis
    using holds_in_flight [of c i] by (intro keep_slots_step [OF c]) (simp_all add: in_flight_enter)
next
  case (expired i)
  then show ?thesis
    using holds_in_flight [of c i] by (intro keep_slots_step [OF c]) (simp_all add: in_flight_enter)
next
  case (gave_up i)
  then show ?thesis
    using holds_in_flight [of c i] by (intro keep_slots_step [OF c]) (simp_all add: in_flight_enter)
next
  case (cancelled i)
  then show ?thesis
    using holds_in_flight [of c i] by (intro free_slot_step [OF laws c, of i]) (simp_all add: in_flight_enter)
next
  case (answered i b)
  then show ?thesis
    using holds_in_flight [of c i]
    by (intro keep_slots_step [OF c]) (auto simp add: in_flight_enter watch_def)
next
  case (polled i w w')
  have same: "i \<in> in_flight c \<longleftrightarrow> unreported w" using polled holds_in_flight [of c i] by simp
  show ?thesis
  proof (cases "unreported w \<and> \<not> unreported w'")
    case True
    then show ?thesis
      using polled same by (intro free_slot_step [OF laws c, of i]) (simp_all add: in_flight_enter)
  next
    case False
    then have "unreported w' = unreported w" using watched_poll_unreported [of w B] polled by auto
    then show ?thesis
      using polled same False by (intro keep_slots_step [OF c]) (auto simp: in_flight_enter)
  qed
next
  case (dropped i w)
  have same: "i \<in> in_flight c \<longleftrightarrow> unreported w" using dropped holds_in_flight [of c i] by simp
  show ?thesis
  proof (cases "unreported w")
    case True
    then show ?thesis
      using dropped same
      by (intro free_slot_step [OF laws c, of i]) (simp_all add: in_flight_enter watched_drop_reported)
  next
    case False
    then show ?thesis
      using dropped same by (intro keep_slots_step [OF c]) (auto simp: in_flight_enter)
  qed
qed

lemma in_flight_new: "in_flight (concurrency_new S lim wait) = {}"
  by (auto simp: in_flight_def concurrency_new_def)

lemma conc_reach_conserved:
  assumes laws: "semaphore_laws S" and "(conc_step S B)\<^sup>*\<^sup>* (concurrency_new S lim wait) c"
  shows "slots_conserved S lim c \<and> queue_for c = wait"
  using assms(2)
proof (induction rule: rtranclp_induct)
  case base
  show ?case using laws
    by (simp add: slots_conserved_def in_flight_new semaphore_laws_def) (simp add: concurrency_new_def)
next
  case (step c c')
  have "queue_for c' = queue_for c" using step(2) by cases simp_all
  then show ?case using conc_step_simulates [OF laws _ step(2)] step(3) by simp
qed

section \<open>Properties\<close>

text \<open>C30: however requests arrive, wait, finish, fail or are dropped, the slots taken and the slots
  free always add up to the limit, so no more than the limit are ever in flight and no slot is lost;
  and a request is shed on arrival only while the limit is in flight and nothing may queue.\<close>

theorem slots_never_lost:
  assumes "semaphore_laws S" "(conc_step S B)\<^sup>*\<^sup>* (concurrency_new S lim wait) c"
  shows "permits S (slots c) + card (in_flight c) = lim \<and> card (in_flight c) \<le> lim \<and>
    (\<forall>i c'. conc_step S B c c' \<and> requests c i = None \<and> requests c' i = Some Shed \<longrightarrow>
            wait = 0 \<and> card (in_flight c) = lim)"
proof -
  have c: "slots_conserved S lim c" "queue_for c = wait" using conc_reach_conserved [OF assms] by simp_all
  have "wait = 0 \<and> card (in_flight c) = lim"
    if s: "conc_step S B c c'" "requests c i = None" "requests c' i = Some Shed" for i c'
    using s(1)
  proof cases
    case (shed_now j)
    then have "permits S (slots c) = 0" using assms(1) by (simp add: semaphore_laws_def)
    then show ?thesis using shed_now c by (simp add: slots_conserved_def)
  qed (use s(2,3) in \<open>auto simp: enter_def release_def released_by_def split: if_splits\<close>)
  then show ?thesis using c(1) by (auto simp: slots_conserved_def)
qed

theorem slots_never_lost_witness:
  "\<exists>c :: (nat, unit) concurrency.
     (conc_step nat_semaphore \<lparr>body_poll = (\<lambda>s. (Ready None :: unit polled, s)), body_end = (\<lambda>_. True)\<rparr>)\<^sup>*\<^sup>*
       (concurrency_new nat_semaphore 1 0) c \<and>
     requests c 7 = Some Running \<and> permits nat_semaphore (slots c) + card (in_flight c) = 1"
proof -
  let ?B = "\<lparr>body_poll = (\<lambda>s. (Ready None :: unit polled, s)), body_end = (\<lambda>_. True)\<rparr> :: (unit, unit) body_ops"
  let ?c = "concurrency_new nat_semaphore 1 0 :: (nat, unit) concurrency"
  have "conc_step nat_semaphore ?B ?c (enter 7 Running (?c\<lparr>slots := 0\<rparr>))"
    by (rule conc_step.admit_now) (simp_all add: concurrency_new_def nat_semaphore_def)
  then have r: "(conc_step nat_semaphore ?B)\<^sup>*\<^sup>* ?c (enter 7 Running (?c\<lparr>slots := 0\<rparr>))" by (rule r_into_rtranclp)
  show ?thesis
    using slots_never_lost [OF nat_semaphore_laws r] r
    by (intro exI [of _ "enter 7 Running (?c\<lparr>slots := 0\<rparr>)"]) (simp add: enter_def)
qed

end
