(* ===== verification/Base64.thy ===== *)
theory Base64
  imports Prelude "HOL-Library.Word"
begin

text \<open>
  \<open>src/crates/kynos/src/security/carrier/base64.rs\<close>: the decoder of the basic credential, with its
  32-bit accumulator. The reference is the encoder of RFC 4648; the decoder and it form an
  \<open>exact_codec\<close>: the decoder accepts exactly the canonical spellings.
\<close>

unbundle bit_operations_syntax

section \<open>Decoding\<close>

definition sextet :: "char \<Rightarrow> nat option" where
  "sextet b =
     (let n = byte b
      in if 65 \<le> n \<and> n \<le> 90 then Some (n - 65)
         else if 97 \<le> n \<and> n \<le> 122 then Some (n - 97 + 26)
         else if 48 \<le> n \<and> n \<le> 57 then Some (n - 48 + 52)
         else if b = CHR ''+'' then Some 62
         else if b = CHR ''/'' then Some 63
         else None)"

abbreviation pad :: char where "pad \<equiv> CHR ''=''"

fun accumulate :: "32 word \<Rightarrow> nat \<Rightarrow> string \<Rightarrow> (32 word \<times> nat) option" where
  "accumulate accumulated held [] = Some (accumulated, held)"
| "accumulate accumulated held (b # bs) =
     (if b = pad then Some (accumulated, held)
      else (case sextet b of
              None \<Rightarrow> None
            | Some v \<Rightarrow> accumulate (push_bit 6 accumulated OR of_nat v) (held + 6) bs))"

declare accumulate.simps(2) [simp del]

definition decode_chunk :: "string \<Rightarrow> string option" where
  "decode_chunk chunk =
     (case accumulate 0 0 chunk of
        None \<Rightarrow> None
      | Some (accumulated, held) \<Rightarrow>
          let whole = held div 8; leftover = held mod 8
          in if leftover \<noteq> 0 \<and> accumulated AND (push_bit leftover 1 - 1) \<noteq> 0 then None
             else
               let accumulated = drop_bit leftover accumulated
               in Some (map (\<lambda>index. char_of (unat (drop_bit (index * 8) accumulated AND 0xFF)))
                          (rev [0..<whole])))"

text \<open>\<open>slice::chunks(4)\<close>.\<close>

fun chunks4 :: "'a list \<Rightarrow> 'a list list" where
  "chunks4 [] = []"
| "chunks4 (w # x # y # z # rest) = [w, x, y, z] # chunks4 rest"
| "chunks4 short = [short]"

definition base64_decode :: "string \<Rightarrow> string option" where
  "base64_decode bytes =
     (if bytes = [] then Some []
      else if length bytes mod 4 \<noteq> 0 then None
      else
        let padding = length (takeWhile (\<lambda>b. b = pad) (rev bytes));
            body = take (length bytes - padding) bytes
        in if padding > 2 then None
           else if pad \<in> set body then None
           else map_option concat (try_map decode_chunk (chunks4 bytes)))"

section \<open>The reference encoder\<close>

definition b64_char :: "nat \<Rightarrow> char" where
  "b64_char v =
     (if v < 26 then char_of (v + 65) else if v < 52 then char_of (v + 71)
      else if v < 62 then char_of (v - 4) else if v = 62 then CHR ''+'' else CHR ''/'')"

fun base64_encode :: "string \<Rightarrow> string" where
  "base64_encode [] = []"
| "base64_encode [a] = [b64_char (byte a div 4), b64_char (byte a mod 4 * 16), pad, pad]"
| "base64_encode [a, b] =
     [b64_char (byte a div 4), b64_char (byte a mod 4 * 16 + byte b div 16),
      b64_char (byte b mod 16 * 4), pad]"
| "base64_encode (a # b # c # rest) =
     [b64_char (byte a div 4), b64_char (byte a mod 4 * 16 + byte b div 16),
      b64_char (byte b mod 16 * 4 + byte c div 64), b64_char (byte c mod 64)] @ base64_encode rest"

section \<open>The alphabet\<close>

lemma sextet_b64_char: "v < 64 \<Longrightarrow> sextet (b64_char v) = Some v"
proof -
  assume v: "v < 64"
  have small: "byte (char_of n) = n" if "n < 256" for n :: nat
    using that by simp
  consider "v < 26" | "26 \<le> v" "v < 52" | "52 \<le> v" "v < 62" | "v = 62" | "v = 63" using v by linarith
  then show ?thesis
    by cases (auto simp: sextet_def b64_char_def Let_def small)
qed

lemma sextet_Some: "sextet b = Some v \<longleftrightarrow> v < 64 \<and> b = b64_char v"
proof
  assume s: "sextet b = Some v"
  have c: "b = char_of n" if "byte b = n" for n using that by (metis char_of_char)
  show "v < 64 \<and> b = b64_char v"
    using s c byte_less [of b] by (auto simp: sextet_def b64_char_def Let_def split: if_splits)
qed (simp add: sextet_b64_char)

lemma b64_char_inject: "v < 64 \<Longrightarrow> w < 64 \<Longrightarrow> b64_char v = b64_char w \<longleftrightarrow> v = w"
  using sextet_b64_char by (metis option.inject)

lemma b64_char_not_pad [simp]: "v < 64 \<Longrightarrow> b64_char v \<noteq> pad"
proof
  assume "v < 64" "b64_char v = pad"
  then have "sextet pad = Some v" using sextet_b64_char by metis
  then show False by (simp add: sextet_def Let_def)
qed

section \<open>One chunk\<close>

lemma unat_push_or:
  assumes "unat (a :: 32 word) < 2 ^ 26" "v < 64"
  shows "unat (push_bit 6 a OR of_nat v) = unat a * 64 + v"
proof -
  have v: "unat (of_nat v :: 32 word) = v" using assms(2) by (simp add: unat_of_nat take_bit_nat_eq_self)
  have p: "unat (push_bit 6 a) = unat a * 64"
  proof -
    have "unat (push_bit 6 a) = take_bit 32 (push_bit 6 (unat a))"
      unfolding unsigned_push_bit_eq by simp
    also have "\<dots> = push_bit 6 (unat a)"
      by (rule take_bit_nat_eq_self) (use assms(1) in \<open>simp add: push_bit_eq_mult\<close>)
    finally show ?thesis by (simp add: push_bit_eq_mult)
  qed
  have "unat (push_bit 6 a OR of_nat v) = unat (push_bit 6 a) OR unat (of_nat v :: 32 word)"
    by (simp add: unsigned_or_eq)
  also have "\<dots> = (unat a * 64) OR v" by (simp only: p v)
  also have "\<dots> = unat a * 64 + v"
  proof (rule disjunctive_add [symmetric])
    fix n
    show "\<not> bit (unat a * 64) n \<or> \<not> bit v n"
    proof (cases "n < 6")
      case True
      have "unat a * 64 = push_bit 6 (unat a)" by (simp add: push_bit_eq_mult)
      then show ?thesis using True by (simp add: bit_push_bit_iff)
    next
      case False
      have "v = take_bit 6 v" using assms(2) by (simp add: take_bit_nat_eq_self)
      then show ?thesis using False by (metis bit_take_bit_iff)
    qed
  qed
  finally show ?thesis .
qed


lemma unat_low_bits: "unat ((a :: 32 word) AND (push_bit k 1 - 1)) = unat a mod 2 ^ k"
proof -
  have "a AND (push_bit k 1 - 1) = take_bit k a"
    by (simp add: take_bit_eq_mask mask_eq_exp_minus_1 push_bit_eq_mult)
  then have "unat (a AND (push_bit k 1 - 1)) = take_bit k (unat a)" by (simp only: unsigned_take_bit_eq)
  then show ?thesis by (simp only: take_bit_eq_mod)
qed

lemma unat_octet: "unat (drop_bit k (a :: 32 word) AND 0xFF) = unat a div 2 ^ k mod 256"
proof -
  have "(0xFF :: 32 word) = mask 8" by (simp add: mask_eq_exp_minus_1)
  then have "drop_bit k a AND 0xFF = take_bit 8 (drop_bit k a)" by (simp only: take_bit_eq_mask)
  then have "unat (drop_bit k a AND 0xFF) = take_bit 8 (unat (drop_bit k a))"
    by (simp only: unsigned_take_bit_eq)
  then have "unat (drop_bit k a AND 0xFF) = take_bit 8 (drop_bit k (unat a))"
    by (simp only: unat_drop_bit_eq)
  also have "\<dots> = unat a div 2 ^ k mod 2 ^ 8" by (simp only: drop_bit_eq_div take_bit_eq_mod)
  finally show ?thesis by simp
qed

lemma decode_chunk_nat:
  assumes "accumulate 0 0 chunk = Some (acc, held)"
  shows "decode_chunk chunk =
    (if unat acc mod 2 ^ (held mod 8) \<noteq> 0 then None
     else Some (map (\<lambda>i. char_of (unat acc div 2 ^ (held mod 8) div 2 ^ (i * 8))) (rev [0..<held div 8])))"
proof -
  have low: "(held mod 8 \<noteq> 0 \<and> acc AND (push_bit (held mod 8) 1 - 1) \<noteq> 0) =
      (unat acc mod 2 ^ (held mod 8) \<noteq> 0)"
    unfolding unat_low_bits [symmetric] by (cases "held mod 8 = 0") (simp_all add: unat_eq_0)
  have octet: "char_of (unat (drop_bit (i * 8) (drop_bit k acc) AND 0xFF)) =
      (char_of (unat acc div 2 ^ k div 2 ^ (i * 8)) :: char)" for i k
    unfolding unat_octet unfolding unat_drop_bit_eq unfolding drop_bit_eq_div
    using of_char_mod_256 [where ?'a = nat] by (simp add: char_of_mod_256)
  show ?thesis
    unfolding decode_chunk_def assms option.case prod.case Let_def low octet ..
qed

lemma accumulate_step:
  assumes "unat a < 2 ^ 26" "v < 64"
  shows "accumulate a held (b64_char v # bs) =
    accumulate (push_bit 6 a OR of_nat v) (held + 6) bs"
  using assms by (simp add: sextet_b64_char accumulate.simps(2))

lemma accumulate_sextets:
  assumes "list_all (\<lambda>v. v < 64) vs" "(unat a + 1) * 64 ^ length vs \<le> 2 ^ 32" "rest = [] \<or> hd rest = pad"
  shows "\<exists>acc. accumulate a held (map b64_char vs @ rest) = Some (acc, held + 6 * length vs) \<and>
               unat acc = foldl (\<lambda>n v. n * 64 + v) (unat a) vs"
  using assms
proof (induction vs arbitrary: a held)
  case Nil
  then show ?case by (cases rest) (auto simp: accumulate.simps(2))
next
  case (Cons v vs)
  have v: "v < 64" using Cons.prems(1) by simp
  have "(unat a + 1) * 64 \<le> (unat a + 1) * 64 ^ length (v # vs)"
    by (intro mult_le_mono2) (simp)
  then have a: "unat a < 2 ^ 26" using Cons.prems(2) by simp
  let ?a = "push_bit 6 a OR of_nat v"
  have u: "unat ?a = unat a * 64 + v" using unat_push_or [OF a v] .
  have "(unat ?a + 1) * 64 ^ length vs \<le> (unat a + 1) * 64 * 64 ^ length vs"
    unfolding u using v by (intro mult_le_mono1) simp
  also have "\<dots> \<le> 2 ^ 32" using Cons.prems(2) by (simp only: list.size power_Suc mult.assoc) simp
  finally have "(unat ?a + 1) * 64 ^ length vs \<le> 2 ^ 32" .
  then obtain acc where "accumulate ?a (held + 6) (map b64_char vs @ rest)
      = Some (acc, held + 6 + 6 * length vs)" "unat acc = foldl (\<lambda>n v. n * 64 + v) (unat ?a) vs"
    using Cons.IH Cons.prems(1,3) by fastforce
  then show ?case using accumulate_step [OF a v] by (simp add: u)
qed


lemma accumulate_shape:
  assumes "list_all (\<lambda>v. v < 64) vs" "length vs \<le> 4" "rest = [] \<or> hd rest = pad"
    "chunk = map b64_char vs @ rest" "held = 6 * length vs" "n = foldl (\<lambda>n v. n * 64 + v) 0 vs"
  obtains acc where "accumulate 0 0 chunk = Some (acc, held)" "unat acc = n"
proof -
  have "(64 :: nat) ^ length vs \<le> 64 ^ 4" by (rule power_increasing) (use assms(2) in simp_all)
  then have "(unat (0 :: 32 word) + 1) * 64 ^ length vs \<le> 2 ^ 32" by simp
  from accumulate_sextets [OF assms(1) this assms(3), of 0] show thesis
    using assms(4-6) that by auto
qed

lemma char_of_shift: "(char_of (n * 256 + m) :: char) = char_of (m :: nat)"
  by (metis char_of_mod_256 mod_mult_self3)

lemma rev_upt_values: "rev [0..<3] = [2, 1, 0 :: nat]" "rev [0..<2] = [1, 0 :: nat]" "rev [0..<1] = [0 :: nat]"
  by (simp_all add: upt_rec)

lemma add_mult_div_self: "(0 :: nat) < k \<Longrightarrow> m < k \<Longrightarrow> (n * k + m) div k = n"
  by simp

lemma lt_65536: "(m :: nat) < 256 \<Longrightarrow> n < 256 \<Longrightarrow> m * 256 + n < 65536"
  by simp

lemma regroup1: "q = Q * 16 + m \<Longrightarrow> p * 64 + q = (p * 4 + Q) * 16 + (m :: nat)"
  by (simp add: algebra_simps)

lemma regroup2: "q = Q * 16 + m \<Longrightarrow> r = R * 4 + n \<Longrightarrow>
    (p * 64 + q) * 64 + r = ((p * 4 + Q) * 256 + (m * 16 + R)) * 4 + (n :: nat)"
  by (simp add: algebra_simps)

lemma regroup3: "q = Q * 16 + m \<Longrightarrow> r = R * 4 + n \<Longrightarrow>
    ((p * 64 + q) * 64 + r) * 64 + t = (p * 4 + Q) * 65536 + ((m * 16 + R) * 256 + (n * 64 + (t :: nat)))"
  by (simp add: algebra_simps)

lemma decode_full:
  assumes "p < 64" "q < 64" "r < 64" "t < 64"
  shows "decode_chunk [b64_char p, b64_char q, b64_char r, b64_char t] =
    Some [char_of (p * 4 + q div 16), char_of (q mod 16 * 16 + r div 4), char_of (r mod 4 * 64 + t)]"
proof -
  obtain acc where acc: "accumulate 0 0 [b64_char p, b64_char q, b64_char r, b64_char t] = Some (acc, 24)"
    "unat acc = ((p * 64 + q) * 64 + r) * 64 + t"
    by (rule accumulate_shape [of "[p, q, r, t]" "[]"]) (simp_all add: assms)
  let ?a = "p * 4 + q div 16" and ?b = "q mod 16 * 16 + r div 4" and ?c = "r mod 4 * 64 + t"
  have lt: "q mod 16 < 16" "r div 4 < 16" "r mod 4 < 4" using assms by auto
  have b: "?b < 256" and c: "?c < 256" using lt assms(4) by linarith+
  have bc: "?b * 256 + ?c < 65536" using lt_65536 [OF b c] .
  have N: "unat acc = ?a * 65536 + (?b * 256 + ?c)" unfolding acc(2) by (rule regroup3) simp_all
  have N': "unat acc = (?a * 256 + ?b) * 256 + ?c" unfolding N by simp
  have d2: "unat acc div 65536 = ?a" unfolding N by (rule add_mult_div_self) (use bc b c in simp_all)
  have d1: "unat acc div 256 = ?a * 256 + ?b" unfolding N' by (rule add_mult_div_self) (use bc b c in simp_all)
  have d0: "(char_of (unat acc div 256) :: char) = char_of ?b" unfolding d1 by (rule char_of_shift)
  have c0: "(char_of (unat acc) :: char) = char_of ?c" unfolding N' by (rule char_of_shift)
  show ?thesis
    unfolding decode_chunk_nat [OF acc(1)] by (simp add: rev_upt_values d0 d2 c0)
qed

lemma decode_pad1:
  assumes "p < 64" "q < 64" "r < 64"
  shows "decode_chunk [b64_char p, b64_char q, b64_char r, pad] =
    (if r mod 4 = 0 then Some [char_of (p * 4 + q div 16), char_of (q mod 16 * 16 + r div 4)] else None)"
proof -
  obtain acc where acc: "accumulate 0 0 [b64_char p, b64_char q, b64_char r, pad] = Some (acc, 18)"
    "unat acc = (p * 64 + q) * 64 + r"
    by (rule accumulate_shape [of "[p, q, r]" "[pad]"]) (simp_all add: assms)
  let ?a = "p * 4 + q div 16" and ?b = "q mod 16 * 16 + r div 4"
  have lt: "q mod 16 < 16" "r div 4 < 16" "r mod 4 < 4" using assms by auto
  have N: "unat acc = (?a * 256 + ?b) * 4 + r mod 4" unfolding acc(2) by (rule regroup2) simp_all
  have m: "unat acc mod 4 = r mod 4" unfolding N by (simp only: mod_mult_self3 mod_mod_trivial)
  have d: "unat acc div 4 = ?a * 256 + ?b" unfolding N by (rule add_mult_div_self) (use lt in simp_all)
  have d0: "(char_of (unat acc div 4) :: char) = char_of ?b" unfolding d by (rule char_of_shift)
  have d1: "unat acc div 4 div 256 = ?a" unfolding d by (rule add_mult_div_self) (use lt in simp_all)
  show ?thesis
    unfolding decode_chunk_nat [OF acc(1)] by (simp add: rev_upt_values m d0 d1)
qed

lemma decode_pad2:
  assumes "p < 64" "q < 64"
  shows "decode_chunk [b64_char p, b64_char q, pad, pad] =
    (if q mod 16 = 0 then Some [char_of (p * 4 + q div 16)] else None)"
proof -
  obtain acc where acc: "accumulate 0 0 [b64_char p, b64_char q, pad, pad] = Some (acc, 12)"
    "unat acc = p * 64 + q"
    by (rule accumulate_shape [of "[p, q]" "[pad, pad]"]) (simp_all add: assms)
  have N: "unat acc = (p * 4 + q div 16) * 16 + q mod 16" unfolding acc(2) by (rule regroup1) simp
  have m: "unat acc mod 16 = q mod 16" unfolding N by (simp only: mod_mult_self3 mod_mod_trivial)
  have d: "unat acc div 16 = p * 4 + q div 16" unfolding N by (rule add_mult_div_self) simp_all
  show ?thesis
    unfolding decode_chunk_nat [OF acc(1)] using m by (simp add: rev_upt_values d)
qed

lemma sextets_of_decoded:
  assumes "map sextet cs = map Some vs"
  shows "cs = map b64_char vs \<and> list_all (\<lambda>v. v < 64) vs"
  using assms
proof (induction vs arbitrary: cs)
  case (Cons v vs)
  then obtain c ds where "cs = c # ds" "sextet c = Some v" "map sextet ds = map Some vs" by (cases cs) auto
  then show ?case using Cons.IH sextet_Some by auto
qed simp

text \<open>The three shapes of a chunk: it decodes exactly when it is an encoding.\<close>

lemma char_of_byte_eq: "char_of n = c \<longleftrightarrow> n mod 256 = byte c"
  by (metis char_of_char char_of_mod_256 of_char_of)

lemma encode_bounds:
  "byte a div 4 < 64" "byte a mod 4 * 16 + byte b div 16 < 64" "byte a mod 4 * 16 < 64"
  "byte b mod 16 * 4 + byte c div 64 < 64" "byte b mod 16 * 4 < 64" "byte c mod 64 < 64"
proof -
  have "byte a < 256" "byte b < 256" "byte c < 256" by simp_all
  moreover have "byte a mod 4 < 4" "byte b mod 16 < 16" by simp_all
  ultimately show "byte a div 4 < 64" "byte a mod 4 * 16 + byte b div 16 < 64" "byte a mod 4 * 16 < 64"
    "byte b mod 16 * 4 + byte c div 64 < 64" "byte b mod 16 * 4 < 64" "byte c mod 64 < 64"
    by linarith+
qed

lemmas encoded_not_pad =
  b64_char_not_pad [OF encode_bounds(1)] b64_char_not_pad [OF encode_bounds(2)]
  b64_char_not_pad [OF encode_bounds(3)] b64_char_not_pad [OF encode_bounds(4)]
  b64_char_not_pad [OF encode_bounds(5)] b64_char_not_pad [OF encode_bounds(6)]
  not_sym [OF b64_char_not_pad [OF encode_bounds(1)]] not_sym [OF b64_char_not_pad [OF encode_bounds(2)]]
  not_sym [OF b64_char_not_pad [OF encode_bounds(3)]] not_sym [OF b64_char_not_pad [OF encode_bounds(4)]]
  not_sym [OF b64_char_not_pad [OF encode_bounds(5)]] not_sym [OF b64_char_not_pad [OF encode_bounds(6)]]

lemma decode_triple:
  "decode_chunk [b64_char (byte a div 4), b64_char (byte a mod 4 * 16 + byte b div 16),
     b64_char (byte b mod 16 * 4 + byte c div 64), b64_char (byte c mod 64)] = Some [a, b, c]"
proof -
  have s: "byte b div 16 < 16" "byte c div 64 < 4" using byte_less [of b] byte_less [of c] by linarith+
  show ?thesis
    unfolding decode_full [OF encode_bounds(1,2,4,6)] using s
    by (simp add: char_of_byte_eq)
qed

lemma decode_pair:
  "decode_chunk [b64_char (byte a div 4), b64_char (byte a mod 4 * 16 + byte b div 16),
     b64_char (byte b mod 16 * 4), pad] = Some [a, b]"
proof -
  have s: "byte b div 16 < 16" using byte_less [of b] by linarith
  show ?thesis
    unfolding decode_pad1 [OF encode_bounds(1,2,5)] using s by (simp add: char_of_byte_eq)
qed

lemma decode_one: "decode_chunk [b64_char (byte a div 4), b64_char (byte a mod 4 * 16), pad, pad] = Some [a]"
  unfolding decode_pad2 [OF encode_bounds(1,3)] by (simp add: char_of_byte_eq)


section \<open>The decoder and the encoder\<close>

text \<open>The converse: what decodes is the encoding of what it decodes to.\<close>

lemma decode_chunk_sextets:
  assumes "decode_chunk (cs @ ps) = Some bs" "pad \<notin> set cs" "length cs \<le> 4" "ps = [] \<or> hd ps = pad"
  obtains vs where "cs = map b64_char vs" "list_all (\<lambda>v. v < 64) vs"
proof -
  have "\<exists>vs. cs = map b64_char vs \<and> list_all (\<lambda>v. v < 64) vs"
    if "accumulate a n (cs @ ps) \<noteq> None" "pad \<notin> set cs" for a n and cs :: string
    using that
  proof (induction cs arbitrary: a n)
    case (Cons c cs)
    then obtain v where v: "sextet c = Some v" by (auto simp: accumulate.simps(2) split: option.splits)
    have "accumulate (push_bit 6 a OR of_nat v) (n + 6) (cs @ ps) \<noteq> None"
      using Cons.prems v by (auto simp: accumulate.simps(2) split: if_splits)
    then obtain vs where "cs = map b64_char vs" "list_all (\<lambda>v. v < 64) vs"
      using Cons.IH Cons.prems(2) by (metis insert_iff list.simps(15))
    then show ?case using v sextet_Some by (intro exI [of _ "v # vs"]) simp
  qed simp
  moreover have "accumulate 0 0 (cs @ ps) \<noteq> None"
    using assms(1) unfolding decode_chunk_def by (metis option.distinct(1) option.simps(4))
  ultimately show thesis using assms(2) that by blast
qed

lemma length_map_eq_4: "length vs = Suc (Suc (Suc (Suc 0))) \<longleftrightarrow> (\<exists>p q r t. vs = [p, q, r, t])"
  by (auto simp: length_Suc_conv)

lemma triple_parts:
  fixes p u m v n t :: nat
  assumes "u < 4" "m < 16" "v < 16" "n < 4" "p < 64" "t < 64"
  shows "p * 4 + u < 256" "m * 16 + v < 256" "n * 64 + t < 256"
    "(p * 4 + u) div 4 = p" "(p * 4 + u) mod 4 = u" "(m * 16 + v) div 16 = m" "(m * 16 + v) mod 16 = v"
    "(n * 64 + t) div 64 = n" "(n * 64 + t) mod 64 = t"
  using assms by auto

lemma chunk_exact:
  assumes "decode_chunk [w, x, y, z] = Some bs" "pad \<notin> set [w, x, y, z]"
  shows "length bs = 3 \<and> base64_encode bs = [w, x, y, z]"
proof -
  obtain vs where vs: "[w, x, y, z] = map b64_char vs" "list_all (\<lambda>v. v < 64) vs"
    by (rule decode_chunk_sextets [of "[w, x, y, z]" "[]"]) (use assms in simp_all)
  then obtain p q r t where v: "vs = [p, q, r, t]" "p < 64" "q < 64" "r < 64" "t < 64"
    by (auto simp: map_eq_Cons_conv)
  then have c: "w = b64_char p" "x = b64_char q" "y = b64_char r" "z = b64_char t" using vs by simp_all
  have bs: "bs = [char_of (p * 4 + q div 16), char_of (q mod 16 * 16 + r div 4), char_of (r mod 4 * 64 + t)]"
    using assms(1) unfolding c decode_full [OF v(2-5)] by simp
  have "q div 16 < 4" "q mod 16 < 16" "r div 4 < 16" "r mod 4 < 4" using v by auto
  note part = this and reassemble = triple_parts [OF this v(2,5)]
  have "base64_encode bs = [b64_char p, b64_char (q div 16 * 16 + q mod 16),
      b64_char (r div 4 * 4 + r mod 4), b64_char t]"
    unfolding bs using reassemble by simp
  then show ?thesis using bs c by simp
qed


lemma chunk_exact1:
  assumes "decode_chunk [w, x, y, pad] = Some bs" "pad \<notin> set [w, x, y]"
  shows "length bs = 2 \<and> base64_encode bs = [w, x, y, pad]"
proof -
  obtain vs where vs: "[w, x, y] = map b64_char vs" "list_all (\<lambda>v. v < 64) vs"
    by (rule decode_chunk_sextets [of "[w, x, y]" "[pad]"]) (use assms in simp_all)
  then obtain p q r where v: "vs = [p, q, r]" "p < 64" "q < 64" "r < 64"
    by (auto simp: map_eq_Cons_conv)
  then have c: "w = b64_char p" "x = b64_char q" "y = b64_char r" using vs by simp_all
  have bs: "bs = [char_of (p * 4 + q div 16), char_of (q mod 16 * 16 + r div 4)]" "r mod 4 = 0"
    using assms(1) unfolding c decode_pad1 [OF v(2-4)] by (simp_all split: if_splits)
  have part: "q div 16 < 4" "q mod 16 < 16" "r div 4 < 16" "(0 :: nat) < 4" using v by auto
  have r: "r div 4 * 4 = r" using bs(2) by auto
  note reassemble = triple_parts [OF part v(2), of 0]
  have "base64_encode bs = [b64_char p, b64_char (q div 16 * 16 + q mod 16), b64_char (r div 4 * 4), pad]"
    unfolding bs(1) using reassemble by simp
  then show ?thesis using bs c r by simp
qed

lemma chunk_exact2:
  assumes "decode_chunk [w, x, pad, pad] = Some bs" "pad \<notin> set [w, x]"
  shows "length bs = 1 \<and> base64_encode bs = [w, x, pad, pad]"
proof -
  obtain vs where vs: "[w, x] = map b64_char vs" "list_all (\<lambda>v. v < 64) vs"
    by (rule decode_chunk_sextets [of "[w, x]" "[pad, pad]"]) (use assms in simp_all)
  then obtain p q where v: "vs = [p, q]" "p < 64" "q < 64"
    by (auto simp: map_eq_Cons_conv)
  then have c: "w = b64_char p" "x = b64_char q" using vs by simp_all
  have bs: "bs = [char_of (p * 4 + q div 16)]" "q mod 16 = 0"
    using assms(1) unfolding c decode_pad2 [OF v(2-3)] by (simp_all split: if_splits)
  have part: "q div 16 < 4" "(0 :: nat) < 16" "(0 :: nat) < 4" using v by auto
  have q: "q div 16 * 16 = q" using bs(2) by auto
  note reassemble = triple_parts [OF part(1,2,2,3) v(2), of 0]
  have "base64_encode bs = [b64_char p, b64_char (q div 16 * 16), pad, pad]"
    unfolding bs(1) using reassemble by simp
  then show ?thesis using bs c q by simp
qed

lemma base64_decode_overpadded:
  "2 < length (takeWhile (\<lambda>b. b = pad) (rev s)) \<Longrightarrow> base64_decode s = None"
  by (cases s) (simp_all add: base64_decode_def Let_def)

lemma base64_decode_unaligned: "length s mod 4 \<noteq> 0 \<Longrightarrow> base64_decode s = None"
  by (auto simp: base64_decode_def)

lemma base64_decode_aligned:
  assumes "s \<noteq> []" "length s mod 4 = 0"
  shows "base64_decode s =
    (if length (takeWhile (\<lambda>b. b = pad) (rev s)) > 2 \<or>
        pad \<in> set (take (length s - length (takeWhile (\<lambda>b. b = pad) (rev s))) s) then None
     else map_option concat (try_map decode_chunk (chunks4 s)))"
  using assms by (simp add: base64_decode_def Let_def)

text \<open>A chunk followed by others holds no padding; the rest is judged as a text of its own.\<close>

lemma base64_decode_Cons:
  assumes "rest \<noteq> []"
  shows "base64_decode (w # x # y # z # rest) =
    (if pad \<in> set [w, x, y, z] then None
     else (case decode_chunk [w, x, y, z] of
             None \<Rightarrow> None
           | Some bs \<Rightarrow> map_option ((@) bs) (base64_decode rest)))"
proof (cases "length rest mod 4 = 0")
  case False
  moreover have "length (w # x # y # z # rest) = length rest + 4" by simp
  ultimately have "length (w # x # y # z # rest) mod 4 \<noteq> 0" by simp
  then show ?thesis using False base64_decode_unaligned by (simp split: option.split)
next
  case True
  let ?s = "w # x # y # z # rest" and ?P = "\<lambda>b. b = pad"
  have len: "4 \<le> length rest" using True assms
    by (cases rest rule: chunks4.cases) (auto simp: mod_Suc)
  show ?thesis
  proof (cases "list_all ?P rest")
    case True
    have all: "\<forall>b\<in>set (rev rest). ?P b" using True by (simp add: list_all_iff)
    have tw: "takeWhile ?P (rev rest) = rev rest" using all by (simp add: takeWhile_eq_all_conv)
    have "takeWhile ?P (rev ?s) = rev rest @ takeWhile ?P [z, y, x, w]"
      using takeWhile_append2 [of "rev rest" ?P "[z, y, x, w]"] all by simp
    then have "length (takeWhile ?P (rev ?s)) \<ge> 4" using len by simp
    then have "base64_decode ?s = None" by (intro base64_decode_overpadded) simp
    moreover have "base64_decode rest = None"
      by (rule base64_decode_overpadded) (use len in \<open>simp only: tw length_rev\<close>)
    ultimately show ?thesis by (auto split: option.split)
  next
    case False
    then obtain b where "b \<in> set (rev rest)" "\<not> ?P b" by (auto simp: list_all_iff)
    then have tw: "takeWhile ?P (rev ?s) = takeWhile ?P (rev rest)"
      using takeWhile_append1 [of b "rev rest" ?P "[z, y, x, w]"] by simp
    have le: "length (takeWhile ?P (rev rest)) \<le> length rest"
      using length_takeWhile_le [of ?P "rev rest"] by simp
    then have body: "take (length ?s - length (takeWhile ?P (rev rest))) ?s =
        w # x # y # z # take (length rest - length (takeWhile ?P (rev rest))) rest"
      by (simp add: Suc_diff_le numeral_eq_Suc)
    have "length ?s = length rest + 4" by simp
    then have al: "length ?s mod 4 = 0" using \<open>length rest mod 4 = 0\<close> by simp
    show ?thesis
      unfolding base64_decode_aligned [OF assms \<open>length rest mod 4 = 0\<close>] base64_decode_aligned [OF list.distinct(2) al] tw body
      by (simp add: option.map_comp comp_def split: option.split)
  qed
qed

lemma base64_decode_chunk:
  "base64_decode [w, x, y, z] =
    (if pad \<in> set [w, x] \<or> (y = pad \<and> z \<noteq> pad) then None else decode_chunk [w, x, y, z])"
proof -
  have o: "map_option concat (try_map decode_chunk (chunks4 [w, x, y, z])) = decode_chunk [w, x, y, z]"
    by (simp split: option.split)
  have "base64_decode [w, x, y, z] =
    (if length (takeWhile (\<lambda>b. b = pad) [z, y, x, w]) > 2 \<or>
        pad \<in> set (take (4 - length (takeWhile (\<lambda>b. b = pad) [z, y, x, w])) [w, x, y, z]) then None
     else decode_chunk [w, x, y, z])"
    using base64_decode_aligned [of "[w, x, y, z]"] unfolding o by simp
  then show ?thesis
    by (cases "z = pad"; cases "y = pad"; cases "x = pad"; cases "w = pad") simp_all
qed

lemma base64_decode_chunk_exact:
  assumes "base64_decode [w, x, y, z] = Some bs"
  shows "base64_encode bs = [w, x, y, z]"
proof -
  have d: "decode_chunk [w, x, y, z] = Some bs" and wx: "pad \<notin> set [w, x]" "y = pad \<longrightarrow> z = pad"
    using assms unfolding base64_decode_chunk by (auto split: if_splits)
  consider "y \<noteq> pad" "z \<noteq> pad" | "y \<noteq> pad" "z = pad" | "y = pad" "z = pad" using wx by blast
  then show ?thesis
  proof cases
    case 1 then show ?thesis using chunk_exact [OF d] wx(1) by simp
  next
    case 2 then show ?thesis using chunk_exact1 [of w x y bs] d wx(1) by simp
  next
    case 3 then show ?thesis using chunk_exact2 [of w x bs] d wx(1) by simp
  qed
qed

lemma base64_encode_Nil: "base64_encode bs = [] \<longleftrightarrow> bs = []"
  by (cases bs rule: base64_encode.cases) simp_all

lemma base64_decode_encode: "base64_decode (base64_encode bs) = Some bs"
proof (induction bs rule: base64_encode.induct)
  case 1 show ?case by (simp add: base64_decode_def)
next
  case (2 a)
  show ?case using decode_one [of a] by (simp add: base64_decode_chunk encoded_not_pad)
next
  case (3 a b)
  show ?case using decode_pair [of a b] by (simp add: base64_decode_chunk encoded_not_pad)
next
  case (4 a b c rest)
  show ?case
  proof (cases "rest = []")
    case True
    then show ?thesis using decode_triple [of a b c] by (simp add: base64_decode_chunk encoded_not_pad)
  next
    case False
    then have "base64_encode rest \<noteq> []" by (simp add: base64_encode_Nil)
    note split = base64_decode_Cons [OF this]
    show ?thesis
      unfolding base64_encode.simps append.simps split decode_triple 4
      by (simp add: encoded_not_pad)
  qed
qed

lemma base64_encode_append3: "length bs = 3 \<Longrightarrow> base64_encode (bs @ cs) = base64_encode bs @ base64_encode cs"
proof -
  assume "length bs = 3"
  then obtain a b c where "bs = [a, b, c]" by (cases bs rule: base64_encode.cases) auto
  then show ?thesis by simp
qed

lemma base64_encode_decode: "base64_decode s = Some bs \<Longrightarrow> base64_encode bs = s"
proof (induction s arbitrary: bs rule: chunks4.induct)
  case 1 then show ?case by (simp add: base64_decode_def)
next
  case (2 w x y z rest)
  show ?case
  proof (cases "rest = []")
    case True then show ?thesis using 2 base64_decode_chunk_exact by simp
  next
    case False
    then obtain cs ds where d: "pad \<notin> set [w, x, y, z]" "decode_chunk [w, x, y, z] = Some cs"
      "base64_decode rest = Some ds" "bs = cs @ ds"
      using 2(2) by (auto simp: base64_decode_Cons split: if_splits option.splits)
    then show ?thesis using chunk_exact [OF d(2,1)] 2(1) base64_encode_append3 by simp
  qed
qed (simp_all add: base64_decode_unaligned)

interpretation base64: exact_codec base64_encode base64_decode "\<lambda>_. True"
  by unfold_locales (auto simp: base64_decode_encode base64_encode_decode)

section \<open>Properties\<close>

text \<open>C16: the decoder accepts exactly the canonical encodings. Decoding with the 32-bit accumulator
  yields some octets just when the text is their RFC 4648 encoding, so a credential has one spelling.\<close>

theorem base64_exact: "base64_decode s = Some bs \<longleftrightarrow> s = base64_encode bs"
  using base64.dec_Some_iff by simp

end
