(* ===== verification/Cookies.thy ===== *)
theory Cookies
  imports Http_Text
begin

text \<open>
  Cookies: reading the \<open>Cookie\<close> field (\<open>src/crates/kynos/src/http/cookie.rs\<close>) and rendering a
  \<open>Set-Cookie\<close> line (\<open>src/crates/kynos/src/response/cookie.rs\<close>). The lemmas show that a line never
  carries more attributes than the cookie has, that the prefix rules hold of every rendered line,
  and that the pairs a client sends back are read as they were set.
\<close>

section \<open>The request's jar\<close>

definition cookie_entry :: "string \<Rightarrow> (string \<times> string) option" where
  "cookie_entry entry =
     (let entry = trim_ascii entry
      in if entry = [] then None
         else
           let (name, value) =
             (case position (\<lambda>b. b = CHR ''='') entry of
                Some at \<Rightarrow> (take at entry, drop (at + 1) entry)
              | None \<Rightarrow> ([], entry))
           in Some (trim_ascii name, unquoted (trim_ascii value)))"

definition pairs :: "('h, 'x) header_map_scheme \<Rightarrow> 'h \<Rightarrow> (string \<times> string) list" where
  "pairs H headers =
     filter_map cookie_entry
       (concat (map (split CHR '';'') (get_all H headers ''cookie'')))"

definition ascii_text :: "string \<Rightarrow> string option" where
  "ascii_text octets = (if list_all is_ascii octets then Some octets else None)"

definition jar :: "('h, 'x) header_map_scheme \<Rightarrow> 'h \<Rightarrow> (string \<times> string) list" where
  "jar H headers =
     filter_map (\<lambda>(name, value).
       case ascii_text name of
         None \<Rightarrow> None
       | Some name \<Rightarrow> (case ascii_text value of None \<Rightarrow> None | Some value \<Rightarrow> Some (name, value)))
     (pairs H headers)"

datatype unreadable = Unreadable

definition value_of ::
  "('h, 'x) header_map_scheme \<Rightarrow> 'h \<Rightarrow> string \<Rightarrow> unreadable + string option" where
  "value_of H headers name =
     (case find (\<lambda>(found, _). ascii_text found = Some name) (pairs H headers) of
        None \<Rightarrow> Inr None
      | Some (_, value) \<Rightarrow>
          (case ascii_text value of None \<Rightarrow> Inl Unreadable | Some value \<Rightarrow> Inr (Some value)))"

section \<open>Set-Cookie\<close>

datatype same_site = Strict | Lax | SameSite_None

fun same_site_str :: "same_site \<Rightarrow> string" where
  "same_site_str Strict = ''Strict''"
| "same_site_str Lax = ''Lax''"
| "same_site_str SameSite_None = ''None''"

record cookie =
  cookie_name :: string
  cookie_value :: string
  path :: "string option"
  domain :: "string option"
  max_age :: "nat option"
  secure :: bool
  http_only :: bool
  same_site :: "same_site option"
  partitioned :: bool

definition MAX_NAME_AND_VALUE :: nat where "MAX_NAME_AND_VALUE = 4096"
definition HOST_PREFIX :: string where "HOST_PREFIX = ''__Host-''"
definition SECURE_PREFIX :: string where "SECURE_PREFIX = ''__Secure-''"

definition has_prefix :: "string \<Rightarrow> string \<Rightarrow> bool" where
  "has_prefix name prefix \<longleftrightarrow>
     length prefix \<le> length name \<and> eq_nocase (take (length prefix) name) prefix"

definition is_domain_value :: "string \<Rightarrow> bool" where
  "is_domain_value v =
     (let v = (case strip_prefix ''.'' v of Some rest \<Rightarrow> rest | None \<Rightarrow> v)
      in v \<noteq> [] \<and>
         list_all (\<lambda>label. label \<noteq> [] \<and> length label \<le> 63 \<and> \<not> starts_with ''-'' label \<and>
                     \<not> ends_with ''-'' label \<and>
                     list_all (\<lambda>b. is_ascii_alnum b \<or> b = CHR ''-'') label)
           (split CHR ''.'' v))"

definition is_cookie_octet :: "char \<Rightarrow> bool" where
  "is_cookie_octet b \<longleftrightarrow>
     0x21 \<le> byte b \<and> byte b \<le> 0x7E \<and> b \<notin> {dquote, CHR '','', CHR '';'', bslash}"

definition is_cookie_value :: "string \<Rightarrow> bool" where
  "is_cookie_value v = list_all is_cookie_octet v"

definition is_attribute_value :: "string \<Rightarrow> bool" where
  "is_attribute_value v \<longleftrightarrow>
     v \<noteq> [] \<and> list_all (\<lambda>b. 0x20 \<le> byte b \<and> byte b \<le> 0x7E \<and> b \<noteq> CHR '';'') v"

definition is_secure :: "cookie \<Rightarrow> bool" where
  "is_secure c \<longleftrightarrow>
     secure c \<or> same_site c = Some SameSite_None \<or> partitioned c \<or>
     has_prefix (cookie_name c) HOST_PREFIX \<or> has_prefix (cookie_name c) SECURE_PREFIX"

definition cookie_encode :: "('h, 'x) header_map_scheme \<Rightarrow> cookie \<Rightarrow> string option" where
  "cookie_encode H c =
     (if \<not> is_token (cookie_name c) \<or> \<not> is_cookie_value (cookie_value c) then None
      else if length (cookie_name c) + length (cookie_value c) > MAX_NAME_AND_VALUE then None
      else
        let host_prefixed = has_prefix (cookie_name c) HOST_PREFIX
        in if host_prefixed \<and> domain c \<noteq> None then None
           else if host_prefixed \<and> (case path c of Some p \<Rightarrow> p \<noteq> ''/'' | None \<Rightarrow> False) then None
           else if \<not> host_prefixed \<and> (case path c of Some p \<Rightarrow> \<not> is_attribute_value p | None \<Rightarrow> False)
             then None
           else if (case domain c of Some d \<Rightarrow> \<not> is_domain_value d | None \<Rightarrow> False) then None
           else
             let rendered = cookie_name c @ ''='' @ cookie_value c;
                 rendered = rendered @
                   (if host_prefixed then ''; Path=/''
                    else (case path c of Some p \<Rightarrow> ''; Path='' @ p | None \<Rightarrow> []));
                 rendered = rendered @
                   (case domain c of Some d \<Rightarrow> ''; Domain='' @ d | None \<Rightarrow> []);
                 rendered = rendered @
                   (case max_age c of Some age \<Rightarrow> ''; Max-Age='' @ decimal (whole_seconds age) | None \<Rightarrow> []);
                 rendered = rendered @ (if is_secure c then ''; Secure'' else []);
                 rendered = rendered @ (if http_only c then ''; HttpOnly'' else []);
                 rendered = rendered @
                   (case same_site c of Some s \<Rightarrow> ''; SameSite='' @ same_site_str s | None \<Rightarrow> []);
                 rendered = rendered @ (if partitioned c then ''; Partitioned'' else [])
             in from_bytes H rendered)"

section \<open>Lemmas\<close>

text \<open>The attributes of a cookie, one text each, in the order they are rendered.\<close>

definition attributes :: "cookie \<Rightarrow> string list" where
  "attributes c =
     (if has_prefix (cookie_name c) HOST_PREFIX then [''Path=/'']
      else (case path c of Some p \<Rightarrow> [''Path='' @ p] | None \<Rightarrow> [])) @
     (case domain c of Some d \<Rightarrow> [''Domain='' @ d] | None \<Rightarrow> []) @
     (case max_age c of Some age \<Rightarrow> [''Max-Age='' @ decimal (whole_seconds age)] | None \<Rightarrow> []) @
     (if is_secure c then [''Secure''] else []) @
     (if http_only c then [''HttpOnly''] else []) @
     (case same_site c of Some s \<Rightarrow> [''SameSite='' @ same_site_str s] | None \<Rightarrow> []) @
     (if partitioned c then [''Partitioned''] else [])"

definition attr_octet :: "char \<Rightarrow> bool" where
  "attr_octet b \<longleftrightarrow> 0x20 \<le> byte b \<and> byte b \<le> 0x7E \<and> b \<noteq> CHR '';''"

definition attribute_text :: "string \<Rightarrow> bool" where
  "attribute_text s = list_all attr_octet s"

lemma attribute_text_append [simp]: "attribute_text (a @ b) \<longleftrightarrow> attribute_text a \<and> attribute_text b"
  by (simp add: attribute_text_def)

lemma attr_octet_kinds:
  "is_ascii_digit b \<Longrightarrow> attr_octet b" "is_token_byte b \<Longrightarrow> attr_octet b"
  "is_cookie_octet b \<Longrightarrow> attr_octet b" "is_ascii_alnum b \<Longrightarrow> attr_octet b"
  by (auto simp: attr_octet_def is_token_byte_def delimiters_def is_cookie_octet_def bytes_simps)

lemma attribute_textI: "list_all P s \<Longrightarrow> (\<And>b. P b \<Longrightarrow> attr_octet b) \<Longrightarrow> attribute_text s"
  by (simp add: attribute_text_def list.pred_mono_strong)

lemma attribute_text_semicolon: "attribute_text s \<Longrightarrow> CHR '';'' \<notin> set s"
  by (auto simp: attribute_text_def list_all_iff attr_octet_def)

lemma attribute_text_visible: "attribute_text s \<Longrightarrow> list_all is_visible s"
  unfolding attribute_text_def by (erule list.pred_mono_strong) (simp add: attr_octet_def is_visible_def)

lemma attribute_text_ascii: "attribute_text s \<Longrightarrow> list_all is_ascii s"
  unfolding attribute_text_def by (erule list.pred_mono_strong) (simp add: attr_octet_def is_ascii_def)

lemma attribute_text_decimal: "attribute_text (decimal n)"
  using decimal_digits by (intro attribute_textI [of is_ascii_digit]) (simp_all add: list_all_iff attr_octet_kinds)

lemma attribute_text_same_site: "attribute_text (same_site_str s)"
  by (cases s) (simp_all add: attribute_text_def attr_octet_def)

lemma attribute_text_token: "is_token s \<Longrightarrow> attribute_text s"
  by (rule attribute_textI [of is_token_byte]) (simp_all add: is_token_def attr_octet_kinds)

lemma attribute_text_value: "is_cookie_value s \<Longrightarrow> attribute_text s"
  by (rule attribute_textI [of is_cookie_octet]) (simp_all add: is_cookie_value_def attr_octet_kinds)

lemma attribute_text_path: "is_attribute_value s \<Longrightarrow> attribute_text s"
  by (rule attribute_textI [of "\<lambda>b. 0x20 \<le> byte b \<and> byte b \<le> 0x7E \<and> b \<noteq> CHR '';''"])
     (simp_all add: is_attribute_value_def attr_octet_def)

lemma attribute_text_domain: "is_domain_value d \<Longrightarrow> attribute_text d"
proof -
  assume d: "is_domain_value d"
  define v where "v = (case strip_prefix ''.'' d of Some rest \<Rightarrow> rest | None \<Rightarrow> d)"
  let ?dot = "\<lambda>b. is_ascii_alnum b \<or> b = CHR ''-'' \<or> b = CHR ''.''"
  have labels: "b \<in> set label \<Longrightarrow> ?dot b" if "label \<in> set (split CHR ''.'' v)" for label b
    using d that by (auto simp: is_domain_value_def v_def Let_def list_all_iff)
  have "set v \<subseteq> \<Union> (set ` set (split CHR ''.'' v)) \<union> {CHR ''.''}"
    using set_join [of "''.''" "split CHR ''.'' v"] by (simp add: join_split)
  then have v: "?dot b" if "b \<in> set v" for b using labels that by blast
  have "d = v \<or> d = CHR ''.'' # v"
    by (auto simp: v_def strip_prefix_Some split: option.splits)
  then have "?dot b" if "b \<in> set d" for b using v that by (metis set_ConsD)
  then have "list_all ?dot d" unfolding list_all_iff by blast
  then show "attribute_text d"
    by (rule attribute_textI) (auto simp: attr_octet_kinds, auto simp: attr_octet_def)
qed

lemma guard_Some: "(if P then None else x) = Some v \<longleftrightarrow> \<not> P \<and> x = Some v"
  by simp

lemma piece_option:
  "concat (map f (case x of Some a \<Rightarrow> [g a] | None \<Rightarrow> [])) = (case x of Some a \<Rightarrow> f (g a) | None \<Rightarrow> [])"
  by (simp split: option.split)

lemma piece_if: "concat (map f (if P then [a] else [])) = (if P then f a else [])"
  by simp

lemma attributes_rendered:
  "concat (map (\<lambda>a. ''; '' @ a) (attributes c)) =
     (if has_prefix (cookie_name c) HOST_PREFIX then ''; Path=/''
      else (case path c of Some p \<Rightarrow> ''; Path='' @ p | None \<Rightarrow> [])) @
     (case domain c of Some d \<Rightarrow> ''; Domain='' @ d | None \<Rightarrow> []) @
     (case max_age c of Some age \<Rightarrow> ''; Max-Age='' @ decimal (whole_seconds age) | None \<Rightarrow> []) @
     (if is_secure c then ''; Secure'' else []) @
     (if http_only c then ''; HttpOnly'' else []) @
     (case same_site c of Some s \<Rightarrow> ''; SameSite='' @ same_site_str s | None \<Rightarrow> []) @
     (if partitioned c then ''; Partitioned'' else [])"
  unfolding attributes_def map_append concat_append
  by (intro arg_cong2 [of _ _ _ _ "(@)"]) (simp_all add: piece_option piece_if split: option.split)

lemma cookie_encode_parts:
  assumes "cookie_encode H c = Some v" "header_map_laws H"
  shows "v = join ''; '' ((cookie_name c @ ''='' @ cookie_value c) # attributes c)"
    and "is_token (cookie_name c)" "is_cookie_value (cookie_value c)"
    and "has_prefix (cookie_name c) HOST_PREFIX \<Longrightarrow> domain c = None"
    and "\<forall>a\<in>set (attributes c). attribute_text a"
proof -
  let ?host = "has_prefix (cookie_name c) HOST_PREFIX"
  have guards: "is_token (cookie_name c) \<and> is_cookie_value (cookie_value c) \<and> (?host \<longrightarrow> domain c = None) \<and>
      \<not> (\<not> ?host \<and> (case path c of Some p \<Rightarrow> \<not> is_attribute_value p | None \<Rightarrow> False)) \<and>
      \<not> (case domain c of Some d \<Rightarrow> \<not> is_domain_value d | None \<Rightarrow> False) \<and>
      from_bytes H (join ''; '' ((cookie_name c @ ''='' @ cookie_value c) # attributes c)) = Some v"
    using assms(1) unfolding cookie_encode_def Let_def guard_Some join_concat attributes_rendered append_assoc by blast
  then have ok: "is_token (cookie_name c)" "is_cookie_value (cookie_value c)"
    and dom: "?host \<Longrightarrow> domain c = None" "\<And>d. domain c = Some d \<Longrightarrow> is_domain_value d"
    and pth: "\<And>p. \<not> ?host \<Longrightarrow> path c = Some p \<Longrightarrow> is_attribute_value p"
    by auto
  have "\<exists>r. from_bytes H r = Some v \<and> r = join ''; '' ((cookie_name c @ ''='' @ cookie_value c) # attributes c)"
    using guards by blast
  then show "v = join ''; '' ((cookie_name c @ ''='' @ cookie_value c) # attributes c)"
    using header_map_lawsD(6) [OF assms(2)] by blast
  show "is_token (cookie_name c)" "is_cookie_value (cookie_value c)" "?host \<Longrightarrow> domain c = None"
    by (fact ok dom)+
  have "\<And>d. domain c = Some d \<Longrightarrow> attribute_text d" using dom(2) attribute_text_domain by blast
  moreover have "\<And>p. \<not> ?host \<Longrightarrow> path c = Some p \<Longrightarrow> attribute_text p"
    using pth attribute_text_path by blast
  moreover have "attribute_text ''Path=''" "attribute_text ''Domain=''" "attribute_text ''Max-Age=''"
    "attribute_text ''Secure''" "attribute_text ''HttpOnly''" "attribute_text ''SameSite=''"
    "attribute_text ''Partitioned''" "attribute_text ''Path=/''"
    by (simp_all add: attribute_text_def attr_octet_def)
  ultimately show "\<forall>a\<in>set (attributes c). attribute_text a"
    unfolding attributes_def
    by (auto simp del: append_Cons append_Nil simp: attribute_text_decimal attribute_text_same_site
        split: option.splits if_splits)
qed

lemma cookie_octet_facts: "is_cookie_octet b \<Longrightarrow> \<not> is_ascii_ws b \<and> b \<noteq> dquote"
  by (auto simp: is_cookie_octet_def is_ascii_ws_def)

lemma token_byte_facts: "is_token_byte b \<Longrightarrow> \<not> is_ascii_ws b"
  by (auto simp: is_token_byte_def bytes_simps)

text \<open>One pair of a \<open>Cookie\<close> field is read as it was set.\<close>

lemma cookie_entry_pair:
  assumes "is_token n" "is_cookie_value v"
  shows "cookie_entry (n @ CHR ''='' # v) = Some (n, v)"
    and "cookie_entry (CHR '' '' # n @ CHR ''='' # v) = Some (n, v)"
proof -
  have eq: "CHR ''='' \<notin> set n" "n \<noteq> []"
    using assms(1) by (auto simp: is_token_def is_token_byte_def delimiters_def list_all_iff)
  have gv: "\<forall>b\<in>set v. \<not> is_ascii_ws b \<and> b \<noteq> dquote"
    using assms(2) cookie_octet_facts by (simp add: is_cookie_value_def list_all_iff)
  have gn: "\<forall>b\<in>set n. \<not> is_ascii_ws b"
    using assms(1) token_byte_facts by (simp add: is_token_def list_all_iff)
  have t: "trim_ascii (n @ CHR ''='' # v) = n @ CHR ''='' # v"
    by (rule trim_ascii_id) (use eq gn gv in \<open>auto simp: is_ascii_ws_def\<close>)
  have tn: "trim_ascii n = n" by (rule is_token_text [OF assms(1)])
  have tv: "trim_ascii v = v" by (rule trim_ascii_id) (use gv in \<open>cases "v = []"; simp\<close>)
  have uv: "unquoted v = v" using gv by (cases v) (auto simp: unquoted_def)
  have pos: "position (\<lambda>b. b = CHR ''='') (n @ CHR ''='' # v) = Some (length n)"
    by (rule position_append) (use eq in auto)
  show "cookie_entry (n @ CHR ''='' # v) = Some (n, v)"
    using t tn tv uv pos by (simp add: cookie_entry_def)
  then show "cookie_entry (CHR '' '' # n @ CHR ''='' # v) = Some (n, v)"
    by (simp add: cookie_entry_def)
qed

section \<open>Properties\<close>

text \<open>C11: a rendered \<open>Set-Cookie\<close> line says what the cookie holds and nothing more. Split at its
  semicolons it is the name and value followed by exactly the cookie's attributes, so no value
  smuggles an attribute in; every byte is printable; and a \<open>__Host-\<close> name in any case is rendered
  with \<open>Secure\<close> and \<open>Path=/\<close> and without \<open>Domain\<close>.\<close>

theorem set_cookie_exact:
  assumes "header_map_laws H" "cookie_encode H c = Some v"
  shows "split CHR '';'' v
           = (cookie_name c @ ''='' @ cookie_value c) # map ((#) CHR '' '') (attributes c) \<and>
         list_all is_visible v \<and>
         (has_prefix (cookie_name c) HOST_PREFIX \<longrightarrow>
            ''Secure'' \<in> set (attributes c) \<and> ''Path=/'' \<in> set (attributes c) \<and> domain c = None)"
proof (intro conjI)
  note parts = cookie_encode_parts [OF assms(2,1)]
  let ?nv = "cookie_name c @ ''='' @ cookie_value c"
  have nv: "attribute_text ?nv"
    using parts(2,3) attribute_text_token attribute_text_value
    by (simp only: attribute_text_append) (simp add: attribute_text_def attr_octet_def)
  show "split CHR '';'' v = ?nv # map ((#) CHR '' '') (attributes c)"
    unfolding parts(1) by (rule split_join_space) (use parts(5) attribute_text_semicolon attribute_text_semicolon [OF nv] in auto)
  have "\<forall>p\<in>set (?nv # attributes c). attribute_text p" using nv parts(5) by simp
  moreover have "attribute_text s \<Longrightarrow> b \<in> set s \<Longrightarrow> is_visible b" for s b
    using attribute_text_visible by (auto simp: list_all_iff)
  moreover have "\<forall>b\<in>set ''; ''. is_visible b" by (simp add: is_visible_def)
  ultimately show "list_all is_visible v"
    unfolding parts(1) list_all_iff using set_join [of "''; ''" "?nv # attributes c"] by blast
  show "has_prefix (cookie_name c) HOST_PREFIX \<longrightarrow>
      ''Secure'' \<in> set (attributes c) \<and> ''Path=/'' \<in> set (attributes c) \<and> domain c = None"
    using parts(4) by (auto simp: attributes_def is_secure_def)
qed

theorem set_cookie_exact_witness:
  "split CHR '';'' ''__host-id=7; Path=/; Secure; HttpOnly''
     = [''__host-id=7'', '' Path=/'', '' Secure'', '' HttpOnly'']"
proof -
  let ?c = "\<lparr>cookie_name = ''__host-id'', cookie_value = ''7'', path = None, domain = None,
     max_age = None, secure = False, http_only = True, same_site = None, partitioned = False\<rparr>"
  have p: "has_prefix ''__host-id'' HOST_PREFIX"
    by (simp add: has_prefix_def HOST_PREFIX_def eq_nocase_def ascii_lower_def is_ascii_upper_def
        char_of_def bit_Suc_0_iff)
  have "is_token ''__host-id''" "is_cookie_value ''7''"
    by (simp_all add: is_token_def is_token_byte_def delimiters_def is_ascii_graphic_def
        is_cookie_value_def is_cookie_octet_def)
  then have e: "cookie_encode fun_headers ?c = Some ''__host-id=7; Path=/; Secure; HttpOnly''"
    using p by (simp add: cookie_encode_def MAX_NAME_AND_VALUE_def is_secure_def fun_headers_def is_visible_def)
  have "attributes ?c = [''Path=/'', ''Secure'', ''HttpOnly'']"
    using p by (simp add: attributes_def is_secure_def)
  then show ?thesis using set_cookie_exact [OF fun_headers_laws e] by simp
qed

text \<open>C12: the jar holds what was set. A \<open>Cookie\<close> line carrying the pairs of any cookies the encoder
  accepts is read back as exactly those names and values, in order.\<close>

theorem cookie_roundtrip:
  assumes "cs \<noteq> []" "\<forall>c\<in>set cs. is_token (cookie_name c) \<and> is_cookie_value (cookie_value c)"
    and "get_all H headers ''cookie'' = [join ''; '' (map (\<lambda>c. cookie_name c @ ''='' @ cookie_value c) cs)]"
  shows "jar H headers = map (\<lambda>c. (cookie_name c, cookie_value c)) cs"
proof -
  let ?pair = "\<lambda>c. cookie_name c @ ''='' @ cookie_value c"
  obtain d ds where cs: "cs = d # ds" using assms(1) by (cases cs) auto
  have semi: "CHR '';'' \<notin> set (?pair c)" if "c \<in> set cs" for c
    using assms(2) that attribute_text_semicolon attribute_text_token attribute_text_value by auto
  have "split CHR '';'' (join ''; '' (map ?pair cs)) = ?pair d # map ((#) CHR '' '') (map ?pair ds)"
    unfolding cs list.map by (rule split_join_space) (use semi cs in auto)
  moreover have "filter_map cookie_entry (map ((#) CHR '' '') (map ?pair es))
      = map (\<lambda>c. (cookie_name c, cookie_value c)) es" if "set es \<subseteq> set cs" for es
    using that
  proof (induction es)
    case (Cons e es)
    then have "is_token (cookie_name e)" "is_cookie_value (cookie_value e)" using assms(2) by auto
    then show ?case using Cons cookie_entry_pair(2) by simp
  qed simp
  ultimately have p: "pairs H headers = map (\<lambda>c. (cookie_name c, cookie_value c)) cs"
    using assms cs cookie_entry_pair(1) by (simp add: pairs_def subset_iff)
  have "filter_map (\<lambda>(name, value).
       case ascii_text name of
         None \<Rightarrow> None
       | Some name \<Rightarrow> (case ascii_text value of None \<Rightarrow> None | Some value \<Rightarrow> Some (name, value)))
     (map (\<lambda>c. (cookie_name c, cookie_value c)) es) = map (\<lambda>c. (cookie_name c, cookie_value c)) es"
    if "set es \<subseteq> set cs" for es
    using that
  proof (induction es)
    case (Cons e es)
    then have "attribute_text (cookie_name e)" "attribute_text (cookie_value e)"
      using assms(2) attribute_text_token attribute_text_value by auto
    then have "ascii_text (cookie_name e) = Some (cookie_name e)"
      "ascii_text (cookie_value e) = Some (cookie_value e)"
      by (simp_all add: ascii_text_def attribute_text_ascii)
    then show ?case using Cons by simp
  qed simp
  then show ?thesis by (simp add: jar_def p)
qed

theorem cookie_roundtrip_witness:
  "jar fun_headers ((\<lambda>_. [])(''cookie'' := [''id=7; k=a=b''])) = [(''id'', ''7''), (''k'', ''a=b'')]"
proof -
  let ?c = "\<lambda>n v. \<lparr>cookie_name = n, cookie_value = v, path = None, domain = None,
     max_age = None, secure = False, http_only = True, same_site = None, partitioned = False\<rparr>"
  have ok: "\<forall>c\<in>set [?c ''id'' ''7'', ?c ''k'' ''a=b'']. is_token (cookie_name c) \<and> is_cookie_value (cookie_value c)"
    by (simp add: is_token_def is_token_byte_def delimiters_def is_ascii_graphic_def
        is_cookie_value_def is_cookie_octet_def)
  have "get_all fun_headers ((\<lambda>_. [])(''cookie'' := [''id=7; k=a=b''])) ''cookie''
      = [join ''; '' (map (\<lambda>c. cookie_name c @ ''='' @ cookie_value c) [?c ''id'' ''7'', ?c ''k'' ''a=b''])]"
    by (simp add: fun_headers_def)
  from cookie_roundtrip [OF _ ok this] show ?thesis by simp
qed

end
