(* ===== verification/Credentials.thy ===== *)
theory Credentials
  imports Base64 Utf8 Cookies
begin

text \<open>
  \<open>src/crates/kynos/src/security/carrier/\<close>: where a credential travels and how it is read: the
  Authorization field (\<open>parse.rs\<close>), bearer tokens, basic credentials and API keys (\<open>mod.rs\<close>,
  \<open>query.rs\<close>). Absence is \<open>Inr None\<close>; a
  present but malformed credential is \<open>Inl Unauthenticated\<close>. \<open>percent_decode_str\<close> belongs to the
  \<open>percent_encoding\<close> crate and is a parameter.
\<close>

section \<open>The query string\<close>

text \<open>\<open>src/crates/kynos/src/__private/uri.rs\<close>.\<close>

definition decode_query_component :: "(string \<Rightarrow> string) \<Rightarrow> string \<Rightarrow> string" where
  "decode_query_component percent_decode raw =
     (if CHR ''+'' \<in> set raw then percent_decode (replace_char CHR ''+'' '' '' raw)
      else percent_decode raw)"

definition query_names :: "(string \<Rightarrow> string) \<Rightarrow> string option \<Rightarrow> (string \<times> string) list" where
  "query_names percent_decode query =
     map (\<lambda>pair.
       let (name, value) = (case split_once CHR ''='' pair of Some nv \<Rightarrow> nv | None \<Rightarrow> (pair, []))
       in (decode_query_component percent_decode name, value))
       (filter (\<lambda>pair. pair \<noteq> []) (split CHR ''&'' (case query of Some q \<Rightarrow> q | None \<Rightarrow> [])))"

definition query_pairs :: "(string \<Rightarrow> string) \<Rightarrow> string option \<Rightarrow> (string \<times> string) list" where
  "query_pairs percent_decode query =
     map (\<lambda>(name, value). (name, decode_query_component percent_decode value))
       (query_names percent_decode query)"

section \<open>The Authorization field\<close>

datatype auth_rejection = Unauthenticated

record auth_field =
  scheme :: string
  credentials :: string

definition authorization ::
  "('h, 'x) header_map_scheme \<Rightarrow> 'h \<Rightarrow> auth_rejection + auth_field option" where
  "authorization H headers =
     (case get_all H headers ''authorization'' of
        [] \<Rightarrow> Inr None
      | line # others \<Rightarrow>
          if others \<noteq> [] then Inl Unauthenticated
          else (case to_str H line of
                  None \<Rightarrow> Inl Unauthenticated
                | Some v \<Rightarrow>
                    let (scheme', creds) =
                      (case split_once CHR '' '' v of Some sc \<Rightarrow> sc | None \<Rightarrow> (v, []))
                    in if scheme' = [] then Inl Unauthenticated
                       else Inr (Some \<lparr>scheme = scheme',
                                       credentials = dropWhile (\<lambda>c. c = CHR '' '') creds\<rparr>)))"

definition scheme_is :: "string \<Rightarrow> string \<Rightarrow> bool" where
  "scheme_is presented expected = eq_nocase presented expected"

section \<open>The readers\<close>

text \<open>What every reader of the Authorization field begins with.\<close>

definition with_scheme ::
  "('h, 'x) header_map_scheme \<Rightarrow> 'h \<Rightarrow> string \<Rightarrow>
   (auth_field \<Rightarrow> auth_rejection + 'a option) \<Rightarrow> auth_rejection + 'a option" where
  "with_scheme H headers expected read =
     (case authorization H headers of
        Inl e \<Rightarrow> Inl e
      | Inr None \<Rightarrow> Inr None
      | Inr (Some a) \<Rightarrow> if \<not> scheme_is (scheme a) expected then Inl Unauthenticated else read a)"

definition is_b64token :: "string \<Rightarrow> bool" where
  "is_b64token token =
     (let body = trim_end_with (\<lambda>c. c = CHR ''='') token
      in body \<noteq> [] \<and> list_all (\<lambda>b. is_ascii_alnum b \<or> b \<in> set ''-._~+/'') body)"

definition bearer :: "('h, 'x) header_map_scheme \<Rightarrow> 'h \<Rightarrow> auth_rejection + string option" where
  "bearer H headers =
     with_scheme H headers ''bearer'' (\<lambda>a.
       if \<not> is_b64token (credentials a) then Inl Unauthenticated else Inr (Some (credentials a)))"

record basic_credentials =
  username :: string
  password :: string

definition basic :: "('h, 'x) header_map_scheme \<Rightarrow> 'h \<Rightarrow> auth_rejection + basic_credentials option" where
  "basic H headers =
     with_scheme H headers ''basic'' (\<lambda>a.
       case base64_decode (credentials a) of
         None \<Rightarrow> Inl Unauthenticated
       | Some decoded \<Rightarrow>
           (case from_utf8 decoded of
              None \<Rightarrow> Inl Unauthenticated
            | Some plain \<Rightarrow>
                (case split_once CHR '':'' plain of
                   None \<Rightarrow> Inl Unauthenticated
                 | Some (user, pass) \<Rightarrow> Inr (Some \<lparr>username = user, password = pass\<rparr>))))"

definition http_scheme ::
  "('h, 'x) header_map_scheme \<Rightarrow> 'h \<Rightarrow> string \<Rightarrow> auth_rejection + auth_field option" where
  "http_scheme H headers expected = with_scheme H headers expected (\<lambda>a. Inr (Some a))"

datatype key_location = Key_header | Key_query | Key_cookie

definition key_in_query ::
  "(string \<Rightarrow> string) \<Rightarrow> string option \<Rightarrow> string \<Rightarrow> auth_rejection + string option" where
  "key_in_query percent_decode query name =
     (case find (\<lambda>(key, _). key = name) (query_pairs percent_decode query) of
        None \<Rightarrow> Inr None
      | Some (_, v) \<Rightarrow> (case from_utf8 v of Some v \<Rightarrow> Inr (Some v) | None \<Rightarrow> Inl Unauthenticated))"

definition api_key ::
  "('h, 'x) header_map_scheme \<Rightarrow> (string \<Rightarrow> string) \<Rightarrow> 'h \<Rightarrow> string option \<Rightarrow>
   key_location \<Rightarrow> string \<Rightarrow> auth_rejection + string option" where
  "api_key H percent_decode headers query location name =
     (case location of
        Key_header \<Rightarrow>
          if eq_nocase name ''authorization'' then Inl Unauthenticated
          else (case get_all H headers (to_lower name) of
                  [] \<Rightarrow> Inr None
                | line # others \<Rightarrow>
                    if others \<noteq> [] then Inl Unauthenticated
                    else (case to_str H line of
                            None \<Rightarrow> Inl Unauthenticated
                          | Some v \<Rightarrow> Inr (Some v)))
      | Key_query \<Rightarrow> key_in_query percent_decode query name
      | Key_cookie \<Rightarrow>
          (case value_of H headers name of
             Inl _ \<Rightarrow> Inl Unauthenticated
           | Inr key \<Rightarrow> Inr key))"

text \<open>The chain of the connection the request arrived on, \<open>None\<close> where none is recorded.\<close>

definition peer_certificates :: "'c list option \<Rightarrow> auth_rejection + 'c list option" where
  "peer_certificates connection =
     (case connection of
        None \<Rightarrow> Inr None
      | Some chain \<Rightarrow> if chain = [] then Inr None else Inr (Some chain))"

section \<open>Lemmas\<close>

lemma dropWhile_spaces: "\<exists>n. s = replicate n CHR '' '' @ dropWhile (\<lambda>c. c = CHR '' '') s"
proof (induction s)
  case (Cons c s)
  then obtain n where "s = replicate n CHR '' '' @ dropWhile (\<lambda>c. c = CHR '' '') s" by blast
  then show ?case by (cases "c = CHR '' ''") (auto intro: exI [of _ "Suc n"] exI [of _ 0])
qed simp

lemma with_scheme_Some:
  assumes laws: "header_map_laws H" and w: "with_scheme H h expected read = Inr (Some x)"
  obtains a where "read a = Inr (Some x)" "eq_nocase (scheme a) expected"
    "credentials a = [] \<or>
     (\<exists>n. get_all H h ''authorization'' = [scheme a @ CHR '' '' # replicate n CHR '' '' @ credentials a])"
proof -
  obtain a where a: "authorization H h = Inr (Some a)" "read a = Inr (Some x)" "eq_nocase (scheme a) expected"
    using w by (auto simp: with_scheme_def scheme_is_def split: sum.splits option.splits if_splits)
  then obtain line v where v: "get_all H h ''authorization'' = [line]" "to_str H line = Some v"
    by (auto simp: authorization_def split: list.splits if_splits option.splits)
  then have line: "line = v" using header_map_lawsD(4) [OF laws] by blast
  have parts: "(split_once CHR '' '' v = None \<and> credentials a = []) \<or>
      (\<exists>rest. split_once CHR '' '' v = Some (scheme a, rest) \<and> credentials a = dropWhile (\<lambda>c. c = CHR '' '') rest)"
    using a(1) v by (auto simp: authorization_def Let_def split: if_splits option.splits)
  show thesis
  proof (rule that [OF a(2,3)])
    show "credentials a = [] \<or>
     (\<exists>n. get_all H h ''authorization'' = [scheme a @ CHR '' '' # replicate n CHR '' '' @ credentials a])"
      using parts dropWhile_spaces v(1) unfolding line split_once_Some by metis
  qed
qed

lemma set_base64_encode: "c \<in> set (base64_encode bs) \<Longrightarrow> c = pad \<or> (\<exists>v. c = b64_char v)"
  by (induction bs rule: base64_encode.induct) auto

lemma b64_char_visible: "is_visible (b64_char v) \<and> b64_char v \<noteq> CHR '' ''"
proof -
  have "byte (b64_char v) \<in> {43, 47} \<union> {48..57} \<union> {65..90} \<union> {97..122}" by (auto simp: b64_char_def)
  then show ?thesis by (auto simp: is_visible_def)
qed

lemma base64_visible: "list_all is_visible (base64_encode bs) \<and> CHR '' '' \<notin> set (base64_encode bs)"
proof -
  have "is_visible c \<and> c \<noteq> CHR '' ''" if "c \<in> set (base64_encode bs)" for c
    using set_base64_encode [OF that] b64_char_visible by (auto simp: is_visible_def)
  then show ?thesis by (auto simp: list_all_iff)
qed

lemma eq_nocase_alpha: "eq_nocase s t \<Longrightarrow> list_all is_ascii_lower t \<Longrightarrow> list_all is_ascii_alpha s"
proof (induction s arbitrary: t)
  case (Cons c s)
  have low: "ascii_lower d = d" if "is_ascii_lower d" for d
    using that by (intro ascii_lower_id) (auto simp: bytes_simps)
  obtain d u where t: "t = d # u" "ascii_lower c = d" "eq_nocase s u" "is_ascii_lower d" "list_all is_ascii_lower u"
    using Cons.prems low by (cases t) (auto simp: eq_nocase_def)
  then have "is_ascii_alpha c" by (cases "is_ascii_upper c") (auto simp: is_ascii_alpha_def ascii_lower_id)
  then show ?case using Cons.IH t(3,5) by simp
qed simp

lemma alpha_visible: "is_ascii_alpha c \<Longrightarrow> is_visible c \<and> c \<noteq> CHR '' ''"
  by (auto simp: bytes_simps)

lemma authorization_read:
  assumes "header_map_laws H" "get_all H h ''authorization'' = [sch @ CHR '' '' # replicate n CHR '' '' @ creds]"
    "list_all is_ascii_alpha sch" "sch \<noteq> []" "list_all is_visible creds" "CHR '' '' \<notin> set creds"
  shows "authorization H h = Inr (Some \<lparr>scheme = sch, credentials = creds\<rparr>)"
proof -
  let ?line = "sch @ CHR '' '' # replicate n CHR '' '' @ creds"
  have sp: "is_visible CHR '' ''" by (simp add: is_visible_def)
  have "list_all is_visible sch" "CHR '' '' \<notin> set sch" using assms(3) alpha_visible by (auto simp: list_all_iff)
  then have "list_all is_visible ?line" using assms(5) sp by (auto simp: list_all_iff)
  then have v: "to_str H ?line = Some ?line" by (rule header_map_lawsD(5) [OF assms(1)])
  have s: "split_once CHR '' '' ?line = Some (sch, replicate n CHR '' '' @ creds)"
    using \<open>CHR '' '' \<notin> set sch\<close> by (simp add: split_once_Some)
  have "dropWhile (\<lambda>c. c = CHR '' '') creds = creds" using assms(6) by (cases creds) auto
  then have d: "dropWhile (\<lambda>c. c = CHR '' '') (replicate n CHR '' '' @ creds) = creds"
    by (induction n) simp_all
  show ?thesis unfolding authorization_def assms(2) by (simp add: v s d assms(4))
qed

section \<open>Properties\<close>

text \<open>C17: what the basic reader accepts. It yields a user and a password just when the request carries one
  Authorization line, the scheme \<open>basic\<close> in any case followed by the RFC 4648 encoding of the UTF-8
  text of the two joined by a colon, the user holding none. No other spelling of the credential is read.\<close>

theorem basic_credential_exact:
  assumes laws: "header_map_laws H"
  shows "basic H h = Inr (Some c) \<longleftrightarrow>
    (\<exists>scheme n. get_all H h ''authorization'' =
        [scheme @ CHR '' '' # replicate n CHR '' '' @ base64_encode (username c @ CHR '':'' # password c)] \<and>
      eq_nocase scheme ''basic'' \<and> CHR '':'' \<notin> set (username c) \<and>
      utf8_check (username c @ CHR '':'' # password c) = Utf8_ok)" (is "_ \<longleftrightarrow> ?rhs")
proof
  let ?plain = "username c @ CHR '':'' # password c"
  assume b: "basic H h = Inr (Some c)"
  show ?rhs
  proof (rule with_scheme_Some [OF laws b [unfolded basic_def]])
    fix a
    assume r: "(case base64_decode (credentials a) of None \<Rightarrow> Inl Unauthenticated
        | Some decoded \<Rightarrow> (case from_utf8 decoded of None \<Rightarrow> Inl Unauthenticated
          | Some plain \<Rightarrow> (case split_once CHR '':'' plain of None \<Rightarrow> Inl Unauthenticated
            | Some (user, pass) \<Rightarrow> Inr (Some \<lparr>username = user, password = pass\<rparr>)))) = Inr (Some c)"
      and s: "eq_nocase (scheme a) ''basic''"
      and f: "credentials a = [] \<or> (\<exists>n. get_all H h ''authorization'' =
        [scheme a @ CHR '' '' # replicate n CHR '' '' @ credentials a])"
    obtain decoded where d: "base64_decode (credentials a) = Some decoded" "utf8_check decoded = Utf8_ok"
      "split_once CHR '':'' decoded = Some (username c, password c)"
      using r by (auto simp: from_utf8_def split: option.splits if_splits)
    then have p: "decoded = ?plain" "CHR '':'' \<notin> set (username c)" by (simp_all add: split_once_Some)
    have "credentials a = base64_encode ?plain" using d(1) base64_exact p(1) by simp
    moreover have "credentials a \<noteq> []" using calculation base64_encode_Nil by simp
    ultimately show ?rhs using f s d(2) p by metis
  qed
next
  let ?plain = "username c @ CHR '':'' # password c"
  assume ?rhs
  then obtain sch n where f: "get_all H h ''authorization'' =
      [sch @ CHR '' '' # replicate n CHR '' '' @ base64_encode ?plain]"
    and s: "eq_nocase sch ''basic''" and u: "CHR '':'' \<notin> set (username c)" "utf8_check ?plain = Utf8_ok" by blast
  have "list_all is_ascii_lower ''basic''" by (simp add: is_ascii_lower_def)
  then have alpha: "list_all is_ascii_alpha sch" "sch \<noteq> []"
    using eq_nocase_alpha [OF s] eq_nocase_length [OF s] by auto
  have "authorization H h = Inr (Some \<lparr>scheme = sch, credentials = base64_encode ?plain\<rparr>)"
    using authorization_read [OF laws f alpha] base64_visible by blast
  moreover have "split_once CHR '':'' ?plain = Some (username c, password c)"
    using u(1) by (simp add: split_once_Some)
  ultimately show "basic H h = Inr (Some c)"
    using s u(2) base64_decode_encode by (simp add: basic_def with_scheme_def scheme_is_def from_utf8_def)
qed


theorem basic_credential_exact_witness:
  "basic fun_headers ((\<lambda>_. [])(''authorization'' := [''BASIC  YTpi''])) = Inr (Some \<lparr>username = ''a'', password = ''b''\<rparr>)"
proof -
  have e: "base64_encode ''a:b'' = ''YTpi''" by (simp add: b64_char_def char_of_def bit_Suc_0_iff)
  have u: "utf8_check ''a:b'' = Utf8_ok" by (simp add: utf8_check_ascii is_ascii_def)
  have s: "eq_nocase ''BASIC'' ''basic''" by (simp add: eq_nocase_def ascii_lower_def is_ascii_upper_def char_of_def bit_Suc_0_iff)
  have l: "get_all fun_headers ((\<lambda>_. [])(''authorization'' := [''BASIC  YTpi''])) ''authorization'' =
      [''BASIC'' @ CHR '' '' # replicate 1 CHR '' '' @ base64_encode ''a:b'']"
    unfolding e by (simp add: fun_headers_def)
  show ?thesis
    unfolding basic_credential_exact [OF fun_headers_laws]
    by (intro exI [of _ "''BASIC''"] exI [of _ 1] conjI)
      (use l s u in \<open>simp_all del: base64_encode.simps replicate.simps\<close>)
qed

end
