(* ===== verification/Endpoint_Uri.thy ===== *)
theory Endpoint_Uri
  imports Credentials
begin

text \<open>
  \<open>src/crates/kynos/src/__private/uri.rs\<close>: the check that a text percent-decodes to UTF-8 without
  decoding it, query components, and the path a route's template and its parameters render to.

  The encoder and decoder belong to the \<open>percent_encoding\<close> crate and are the parameter \<open>percent\<close>;
  \<open>percent_laws\<close> is their documented behaviour. The text of the modelled functions is a Rust
  \<open>str\<close>, so a list of UTF-8 bytes.
\<close>

section \<open>Percent encoding\<close>

definition hex_of :: "char \<Rightarrow> nat option" where
  "hex_of c =
     (if is_ascii_digit c then Some (byte c - 48)
      else if 97 \<le> byte c \<and> byte c \<le> 102 then Some (byte c - 87)
      else if 65 \<le> byte c \<and> byte c \<le> 70 then Some (byte c - 55)
      else None)"

text \<open>The octet the escape at the start of the octets encodes.\<close>

fun escape_at :: "string \<Rightarrow> char option" where
  "escape_at (p # high # low # _) =
     (if p \<noteq> CHR ''%'' then None
      else case hex_of high of
             None \<Rightarrow> None
           | Some h \<Rightarrow> (case hex_of low of None \<Rightarrow> None | Some l \<Rightarrow> Some (char_of (h * 16 + l))))"
| "escape_at _ = None"

definition escaped_octet :: "string \<Rightarrow> nat \<Rightarrow> char option" where
  "escaped_octet octets index = escape_at (drop index octets)"

definition hex_upper :: "nat \<Rightarrow> char" where
  "hex_upper n = (if n < 10 then char_of (n + 48) else char_of (n + 55))"

definition triplet :: "char \<Rightarrow> string" where
  "triplet b = [CHR ''%'', hex_upper (byte b div 16), hex_upper (byte b mod 16)]"

record percent =
  pct_encode :: "(char \<Rightarrow> bool) \<Rightarrow> string \<Rightarrow> string"
  pct_decode :: "string \<Rightarrow> string"

definition percent_laws :: "percent \<Rightarrow> bool" where
  "percent_laws P \<longleftrightarrow>
     (\<forall>escaped s. pct_encode P escaped s =
        concat (map (\<lambda>b. if escaped b \<or> \<not> is_ascii b then triplet b else [b]) s)) \<and>
     pct_decode P [] = [] \<and>
     (\<forall>b s. escape_at (b # s) = None \<longrightarrow> pct_decode P (b # s) = b # pct_decode P s) \<and>
     (\<forall>s b. escape_at s = Some b \<longrightarrow> pct_decode P s = b # pct_decode P (drop 3 s))"

fun decode_pct :: "string \<Rightarrow> string" where
  "decode_pct (p # h # l # s) =
     (case escape_at (p # h # l # s) of
        Some b \<Rightarrow> b # decode_pct s
      | None \<Rightarrow> p # decode_pct (h # l # s))"
| "decode_pct s = s"

definition std_percent :: percent where
  "std_percent =
     \<lparr>pct_encode = (\<lambda>escaped s. concat (map (\<lambda>b. if escaped b \<or> \<not> is_ascii b then triplet b else [b]) s)),
      pct_decode = decode_pct\<rparr>"

section \<open>The check in place\<close>

text \<open>The loop: the index, the escaped octets held, and where their character began. \<open>Some\<close> is the
  offset of the first escape of a sequence that is not UTF-8.\<close>

function check_from :: "string \<Rightarrow> nat \<Rightarrow> string \<Rightarrow> nat \<Rightarrow> nat option" where
  "check_from octets index pending began =
     (if \<not> index < length octets then (if pending \<noteq> [] then Some began else None)
      else case (if pending = [] then position (\<lambda>b. b = CHR ''%'') (drop index octets) else Some 0) of
        None \<Rightarrow> None
      | Some skipped \<Rightarrow>
          let index = index + skipped
          in case escaped_octet octets index of
               None \<Rightarrow> if pending \<noteq> [] then Some began else check_from octets (index + 1) [] began
             | Some octet \<Rightarrow>
                 if pending = [] \<and> is_ascii octet then check_from octets (index + 3) [] began
                 else
                   let began = (if pending = [] then index else began);
                       pending = pending @ [octet]
                   in (case utf8_check pending of
                         Utf8_ok \<Rightarrow> check_from octets (index + 3) [] began
                       | Utf8_incomplete \<Rightarrow>
                           if length pending < 4 then check_from octets (index + 3) pending began else Some began
                       | Utf8_bad \<Rightarrow> Some began))"
  by pat_completeness auto
termination
  by (relation "measure (\<lambda>(octets, index, _, _). length octets - index)") auto

declare check_from.simps [simp del]

definition check_percent_decoded_utf8 :: "string \<Rightarrow> nat option" where
  "check_percent_decoded_utf8 text = check_from text 0 [] 0"

section \<open>Query components\<close>

definition unreserved :: "char \<Rightarrow> bool" where
  "unreserved b \<longleftrightarrow> is_ascii_alnum b \<or> b = CHR ''-'' \<or> b = CHR ''.'' \<or> b = CHR ''_'' \<or> b = CHR ''~''"

definition QUERY_COMPONENT_ENCODE_SET :: "char \<Rightarrow> bool" where
  "QUERY_COMPONENT_ENCODE_SET b \<longleftrightarrow> \<not> unreserved b"

definition encode_query_component :: "percent \<Rightarrow> string \<Rightarrow> string" where
  "encode_query_component P raw = pct_encode P QUERY_COMPONENT_ENCODE_SET raw"

definition EXT_VALUE_ENCODE_SET :: "char \<Rightarrow> bool" where
  "EXT_VALUE_ENCODE_SET b \<longleftrightarrow> \<not> (is_ascii_alnum b \<or> b \<in> set ''!#$&+-.^_`|~'')"

definition encode_ext_value :: "percent \<Rightarrow> string \<Rightarrow> string" where
  "encode_ext_value P v = pct_encode P EXT_VALUE_ENCODE_SET v"

definition decode_path_value :: "percent \<Rightarrow> string \<Rightarrow> string option" where
  "decode_path_value P v = from_utf8 (pct_decode P v)"

section \<open>Rendering a path\<close>

definition PATH_SEGMENT_ENCODE_SET :: "char \<Rightarrow> bool" where
  "PATH_SEGMENT_ENCODE_SET b \<longleftrightarrow> byte b < 32 \<or> byte b = 127 \<or> b = bslash \<or> b = dquote \<or> b \<in> set '' #%/<>?[]^`{|}''"

text \<open>\<open>str::replace\<close>: every occurrence, from the left, none overlapping another.\<close>

function replace_str :: "string \<Rightarrow> string \<Rightarrow> string \<Rightarrow> string" where
  "replace_str from into s =
     (if from = [] then s
      else case s of
        [] \<Rightarrow> []
      | c # cs \<Rightarrow>
          (case strip_prefix from s of
             Some rest \<Rightarrow> into @ replace_str from into rest
           | None \<Rightarrow> c # replace_str from into cs))"
  by pat_completeness auto
termination
  by (relation "measure (\<lambda>(_, _, s). length s)") (auto simp: strip_prefix_Some)

declare replace_str.simps [simp del]

text \<open>\<open>.\<close> or \<open>..\<close>, literal or escaped: the loop counts the dots.\<close>

function dots_from :: "string \<Rightarrow> nat \<Rightarrow> bool" where
  "dots_from rest dots =
     (if rest = [] then dots = 1 \<or> dots = 2
      else case strip_prefix ''.'' rest of
        Some after \<Rightarrow> dots_from after (dots + 1)
      | None \<Rightarrow>
          if 3 \<le> length rest \<and> eq_nocase (take 3 rest) ''%2e'' then dots_from (drop 3 rest) (dots + 1)
          else False)"
  by pat_completeness auto
termination
  by (relation "measure (\<lambda>(rest, _). length rest)") (auto simp: strip_prefix_Some)

declare dots_from.simps [simp del]

definition is_dot_segment :: "string \<Rightarrow> bool" where
  "is_dot_segment segment = dots_from segment 0"

definition dot_segment :: "percent \<Rightarrow> string \<Rightarrow> string \<Rightarrow> (string \<times> string) option" where
  "dot_segment P template rendered =
     map_option (\<lambda>(segment, rendered). (segment, if length (pct_decode P rendered) = 1 then ''.'' else ''..''))
       (find (\<lambda>(segment, rendered). CHR ''{'' \<in> set segment \<and> is_dot_segment rendered)
         (zip (split CHR ''/'' template) (split CHR ''/'' rendered)))"

text \<open>The ways a path has no rendering, each a panic.\<close>

datatype unrenderable =
    WrongCount
  | Undeclared string
  | EmptyValue string
  | DotSegment string string

definition braced :: "string \<Rightarrow> string" where
  "braced name = ''{'' @ name @ ''}''"

fun render_values ::
  "percent \<Rightarrow> string list \<Rightarrow> (string \<times> string) list \<Rightarrow> string \<Rightarrow> unrenderable + string" where
  "render_values P names [] rendered = Inr rendered"
| "render_values P names ((name, v) # values) rendered =
     (if name \<notin> set names then Inl (Undeclared name)
      else if v = [] then Inl (EmptyValue name)
      else render_values P names values
             (replace_str (braced name) (pct_encode P PATH_SEGMENT_ENCODE_SET v) rendered))"

definition render_endpoint_path ::
  "percent \<Rightarrow> string list \<Rightarrow> string \<Rightarrow> (string \<times> string) list \<Rightarrow> unrenderable + string" where
  "render_endpoint_path P names template values =
     (if length values \<noteq> length names then Inl WrongCount
      else case render_values P names values template of
        Inl e \<Rightarrow> Inl e
      | Inr rendered \<Rightarrow>
          (case dot_segment P template rendered of
             Some (segment, dots) \<Rightarrow> Inl (DotSegment segment dots)
           | None \<Rightarrow> Inr rendered))"

text \<open>\<open>with_query\<close>, short of the parse.\<close>

definition append_query :: "string \<Rightarrow> string \<Rightarrow> string" where
  "append_query target query = (if query \<noteq> [] then target @ ''?'' @ query else target)"

section \<open>Lemmas: decoding\<close>

lemma percent_lawsD:
  assumes "percent_laws P"
  shows "pct_encode P escaped s = concat (map (\<lambda>b. if escaped b \<or> \<not> is_ascii b then triplet b else [b]) s)"
    and "pct_decode P [] = []"
    and "escape_at (b # s) = None \<Longrightarrow> pct_decode P (b # s) = b # pct_decode P s"
    and "escape_at t = Some c \<Longrightarrow> pct_decode P t = c # pct_decode P (drop 3 t)"
  using assms unfolding percent_laws_def by blast+

lemma std_percent_laws: "percent_laws std_percent"
proof -
  have "decode_pct (b # s) = b # decode_pct s" if "escape_at (b # s) = None" for b s
    using that by (cases s; cases "tl s") simp_all
  moreover have "decode_pct s = b # decode_pct (drop 3 s)" if "escape_at s = Some b" for s b
    using that by (cases s rule: escape_at.cases) (simp_all add: numeral_3_eq_3)
  ultimately show ?thesis by (simp add: percent_laws_def std_percent_def)
qed

lemma escape_at_percent: "escape_at s = Some b \<Longrightarrow> s \<noteq> [] \<and> hd s = CHR ''%'' \<and> 3 \<le> length s"
  by (cases s rule: escape_at.cases) (auto split: if_splits)

lemma escape_at_ascii: "escape_at s = Some b \<Longrightarrow> list_all is_ascii (take 3 s)"
  by (cases s rule: escape_at.cases)
     (auto simp: numeral_3_eq_3 hex_of_def bytes_simps split: if_splits option.splits)

lemma pct_decode_literal:
  assumes "percent_laws P" "CHR ''%'' \<notin> set a"
  shows "pct_decode P (a @ s) = a @ pct_decode P s"
  using assms(2)
proof (induction a)
  case (Cons b a)
  then have "escape_at (b # a @ s) = None" using escape_at_percent [of "b # a @ s"] by (cases "escape_at (b # a @ s)") auto
  then show ?case using Cons percent_lawsD(3) [OF assms(1)] by simp
qed simp

section \<open>Lemmas: the check in place\<close>

text \<open>The octets held are a proper beginning of one character.\<close>

definition held :: "string \<Rightarrow> bool" where
  "held pending \<longleftrightarrow> pending = [] \<or>
     (length pending < utf8_width (hd pending) \<and> utf8_check pending = Utf8_incomplete)"

lemma utf8_width_le: "utf8_width a \<le> 4"
  by (simp add: utf8_width_def Let_def)

lemma utf8_width_ascii: "utf8_width a = 1 \<longleftrightarrow> is_ascii a"
  by (auto simp: utf8_width_def Let_def bytes_simps)

lemma held_step:
  assumes "held pending" "pending \<noteq> [] \<or> \<not> is_ascii octet"
  shows "utf8_check (pending @ [octet]) = Utf8_incomplete \<Longrightarrow>
    held (pending @ [octet]) \<and> length (pending @ [octet]) < 4"
proof (cases pending)
  case Nil
  assume "utf8_check (pending @ [octet]) = Utf8_incomplete"
  then show ?thesis
    using Nil assms(2) utf8_width_ascii [of octet] by (auto simp: held_def utf8_check_Cons split: if_splits)
next
  case (Cons a r)
  assume i: "utf8_check (pending @ [octet]) = Utf8_incomplete"
  have w: "length pending < utf8_width a" using assms(1) Cons by (simp add: held_def)
  have "length r + 1 \<noteq> utf8_width a - 1"
  proof
    assume l: "length r + 1 = utf8_width a - 1"
    show False
    proof (cases r)
      case Nil
      then show False using i l w Cons utf8_width_le [of a] by (auto simp: utf8_check_Cons split: if_splits)
    next
      case (Cons b bs)
      then show False using i l w \<open>pending = a # r\<close> by (auto simp: utf8_check_Cons [of a] split: if_splits)
    qed
  qed
  then have "length pending + 1 < utf8_width a" using w Cons by simp
  then show ?thesis using i Cons utf8_width_le [of a] by (simp add: held_def)
qed

lemma check_from_end:
  "\<not> index < length octets \<Longrightarrow> check_from octets index pending began = (if pending \<noteq> [] then Some began else None)"
  by (subst check_from.simps) simp

lemma check_from_step:
  assumes "index < length octets" "pending \<noteq> [] \<or> octets ! index = CHR ''%''"
  shows "check_from octets index pending began =
    (case escape_at (drop index octets) of
       None \<Rightarrow> if pending \<noteq> [] then Some began else check_from octets (index + 1) [] began
     | Some octet \<Rightarrow>
         if pending = [] \<and> is_ascii octet then check_from octets (index + 3) [] began
         else
           let began = (if pending = [] then index else began)
           in (case utf8_check (pending @ [octet]) of
                 Utf8_ok \<Rightarrow> check_from octets (index + 3) [] began
               | Utf8_incomplete \<Rightarrow>
                   if length (pending @ [octet]) < 4 then check_from octets (index + 3) (pending @ [octet]) began
                   else Some began
               | Utf8_bad \<Rightarrow> Some began))"
proof -
  have "drop index octets = octets ! index # drop (Suc index) octets" using assms(1) by (rule Cons_nth_drop_Suc [symmetric])
  then have "(if pending = [] then position (\<lambda>b. b = CHR ''%'') (drop index octets) else Some 0) = Some 0"
    using assms(2) by simp
  then show ?thesis
    using assms(1)
    by (subst check_from.simps) (cases "escape_at (drop index octets)"; cases "pending = []"; simp add: escaped_octet_def Let_def split: utf8.split)
qed

lemma check_from_skip:
  assumes "index < length octets" "position (\<lambda>b. b = CHR ''%'') (drop index octets) = Some k"
  shows "check_from octets index [] began = check_from octets (index + k) [] began"
proof -
  have k: "index + k < length octets" "octets ! (index + k) = CHR ''%''" using assms by (auto simp: position_Some)
  have "drop (index + k) octets = CHR ''%'' # drop (Suc (index + k)) octets"
    using Cons_nth_drop_Suc [OF k(1)] k(2) by simp
  then have "position (\<lambda>b. b = CHR ''%'') (drop (index + k) octets) = Some 0" by simp
  then show ?thesis
    using assms k(1) by (subst (1 2) check_from.simps) simp
qed

lemma utf8_check_hd: "utf8_check (b # s) = Utf8_ok \<Longrightarrow> \<not> is_utf8_continuation b"
  by (auto simp: utf8_check_Cons utf8_width_def bytes_simps Let_def split: if_splits)

lemma utf8_check_drop_escape:
  assumes "utf8_check t = Utf8_ok" "escape_at t = Some c"
  shows "utf8_check (drop 3 t) = Utf8_ok"
  using assms escape_at_ascii [OF assms(2)]
  by (cases t rule: escape_at.cases) (simp_all add: numeral_3_eq_3 utf8_check_ascii)

lemma check_from_correct:
  assumes laws: "percent_laws P"
  shows "held pending \<Longrightarrow> utf8_check (drop index octets) = Utf8_ok \<Longrightarrow>
    check_from octets index pending began = None \<longleftrightarrow>
    utf8_check (pending @ pct_decode P (drop index octets)) = Utf8_ok"
proof (induction "length octets - index" arbitrary: index pending began rule: less_induct)
  case less
  let ?t = "drop index octets"
  show ?case
  proof (cases "index < length octets")
    case False
    then show ?thesis
      using less.prems percent_lawsD(2) [OF laws] by (auto simp: check_from_end held_def)
  next
    case True
    have t: "?t = octets ! index # drop (Suc index) octets" using Cons_nth_drop_Suc [OF True] by simp
    show ?thesis
    proof (cases "pending \<noteq> [] \<or> octets ! index = CHR ''%''")
      case here: True
      note step = check_from_step [OF True here, of began]
      show ?thesis
      proof (cases "escape_at ?t")
        case None
        then have d: "pct_decode P ?t = octets ! index # pct_decode P (drop (Suc index) octets)"
          using t percent_lawsD(3) [OF laws] by metis
        show ?thesis
        proof (cases "pending = []")
          case True
          have a: "is_ascii (octets ! index)" using here True by (simp add: is_ascii_def)
          have "utf8_check (drop (index + 1) octets) = Utf8_ok"
            using less.prems(2) a unfolding t by (simp add: utf8_check_ascii)
          then show ?thesis
            using less.hyps [of "index + 1" "[]" began] True None \<open>index < length octets\<close> a
            unfolding step by (simp add: d held_def utf8_check_ascii)
        next
          case False
          have "\<not> is_utf8_continuation (octets ! index)" using less.prems(2) unfolding t by (rule utf8_check_hd)
          then have "utf8_check (pending @ pct_decode P ?t) \<noteq> Utf8_ok"
            using utf8_check_append [of pending "pct_decode P ?t"] less.prems(1) False d by (simp add: held_def)
          then show ?thesis unfolding step using None False by simp
        qed
      next
        case (Some octet)
        have d: "pct_decode P ?t = octet # pct_decode P (drop (index + 3) octets)"
          using percent_lawsD(4) [OF laws Some] by (simp add: add.commute)
        have rest: "utf8_check (drop (index + 3) octets) = Utf8_ok"
          using utf8_check_drop_escape [OF less.prems(2) Some] by (simp add: add.commute)
        have lt: "length octets - (index + 3) < length octets - index" using True by simp
        note ih = less.hyps [OF lt _ rest]
        show ?thesis
        proof (cases "pending = [] \<and> is_ascii octet")
          case True
          then show ?thesis unfolding step using Some ih [of "[]" began] by (simp add: d held_def utf8_check_ascii)
        next
          case False
          have split: "pending @ pct_decode P ?t = (pending @ [octet]) @ pct_decode P (drop (index + 3) octets)"
            by (simp add: d)
          note app = utf8_check_append [of "pending @ [octet]" "pct_decode P (drop (index + 3) octets)"]
          show ?thesis
          proof (cases "utf8_check (pending @ [octet])")
            case Utf8_ok
            then show ?thesis unfolding step split using Some False app ih [of "[]"] by (auto simp: held_def Let_def)
          next
            case Utf8_incomplete
            then show ?thesis
              unfolding step split
              using Some False held_step [OF less.prems(1), of octet] ih [of "pending @ [octet]"] by (auto simp: Let_def)
          next
            case Utf8_bad
            then show ?thesis unfolding step split using Some False app by (auto simp: Let_def)
          qed
        qed
      qed
    next
      case elsewhere: False
      show ?thesis
      proof (cases "position (\<lambda>b. b = CHR ''%'') ?t")
        case None
        then have "CHR ''%'' \<notin> set ?t" by (auto simp: position_None)
        then have "pct_decode P ?t = ?t" using pct_decode_literal [OF laws, of ?t "[]"] percent_lawsD(2) [OF laws] by simp
        then show ?thesis using None elsewhere True less.prems(2) by (subst check_from.simps) simp
      next
        case (Some k)
        have k: "k < length ?t" "?t ! k = CHR ''%''" "CHR ''%'' \<notin> set (take k ?t)"
          using Some by (auto simp: position_Some in_set_conv_nth)
        have k0: "0 < k" using k elsewhere True by (cases k) auto
        have cut: "?t = take k ?t @ CHR ''%'' # drop (Suc k) ?t"
          using id_take_nth_drop [OF k(1)] k(2) by simp
        have ok: "utf8_check (take k ?t) = Utf8_ok" "utf8_check (drop (index + k) octets) = Utf8_ok"
        proof -
          have ascii: "is_ascii CHR ''%''" by (simp add: is_ascii_def)
          show "utf8_check (take k ?t) = Utf8_ok"
            using utf8_check_at_ascii(1) [of "take k ?t" "CHR ''%''" "drop (Suc k) ?t"] less.prems(2) cut ascii by simp
          then have "utf8_check (drop k ?t) = Utf8_ok"
            using utf8_check_append [of "take k ?t" "drop k ?t"] less.prems(2) by (metis append_take_drop_id)
          then show "utf8_check (drop (index + k) octets) = Utf8_ok" by (simp add: add.commute)
        qed
        have "pct_decode P ?t = take k ?t @ pct_decode P (drop k ?t)"
          using pct_decode_literal [OF laws k(3), of "drop k ?t"] by (metis append_take_drop_id)
        then have "utf8_check (pct_decode P ?t) = utf8_check (pct_decode P (drop (index + k) octets))"
          using utf8_check_append [of "take k ?t" "pct_decode P (drop k ?t)"] ok(1) by (simp add: add.commute)
        then show ?thesis
          using less.hyps [of "index + k" "[]" began] check_from_skip [OF True Some, of began] elsewhere True k0 ok(2)
          by (simp add: held_def)
      qed
    qed
  qed
qed

section \<open>Lemmas: dot segments\<close>

lemma hex_of_letters: "hex_of CHR ''2'' = Some 2" "hex_of CHR ''e'' = Some 14" "hex_of CHR ''E'' = Some 14"
  by (simp_all add: hex_of_def bytes_simps)

lemma hex_of_Some_2: "hex_of c = Some 2 \<longleftrightarrow> c = CHR ''2''"
  by (auto simp: hex_of_def bytes_simps byte_inject [symmetric] split: if_splits)

lemma hex_of_Some_14: "hex_of c = Some 14 \<longleftrightarrow> c = CHR ''e'' \<or> c = CHR ''E''"
  by (auto simp: hex_of_def bytes_simps byte_inject [symmetric] split: if_splits)

lemma hex_of_less: "hex_of c = Some n \<Longrightarrow> n < 16"
  by (auto simp: hex_of_def bytes_simps split: if_splits)

text \<open>The escape of a dot, in either case.\<close>

lemma ascii_lower_eq:
  "ascii_lower c = CHR ''%'' \<longleftrightarrow> c = CHR ''%''" "ascii_lower c = CHR ''2'' \<longleftrightarrow> c = CHR ''2''"
  "ascii_lower c = CHR ''e'' \<longleftrightarrow> c = CHR ''e'' \<or> c = CHR ''E''"
  by (auto simp: byte_inject [symmetric] byte_ascii_lower bytes_simps split: if_splits)

lemma ascii_lower_literals:
  "ascii_lower CHR ''%'' = CHR ''%''" "ascii_lower CHR ''2'' = CHR ''2''" "ascii_lower CHR ''e'' = CHR ''e''"
  by (simp_all add: ascii_lower_def bytes_simps)

lemma char_of_dot:
  assumes "a < 16" "b < 16"
  shows "char_of (a * 16 + b :: nat) = CHR ''.'' \<longleftrightarrow> a = 2 \<and> b = 14"
proof -
  have "char_of (a * 16 + b) = CHR ''.'' \<longleftrightarrow> byte (char_of (a * 16 + b)) = byte CHR ''.''" by (simp only: byte_inject)
  also have "\<dots> \<longleftrightarrow> a * 16 + b = 46" using assms by simp
  finally show ?thesis using assms by presburger
qed

lemma escape_dot: "escape_at s = Some CHR ''.'' \<longleftrightarrow> 3 \<le> length s \<and> eq_nocase (take 3 s) ''%2e''"
proof (cases s rule: escape_at.cases)
  case (1 p h l r)
  have "escape_at s = Some CHR ''.'' \<longleftrightarrow> p = CHR ''%'' \<and> hex_of h = Some 2 \<and> hex_of l = Some 14"
  proof (cases "hex_of h"; cases "hex_of l")
    fix a b
    assume ab: "hex_of h = Some a" "hex_of l = Some b"
    then have "char_of (a * 16 + b) = CHR ''.'' \<longleftrightarrow> a = 2 \<and> b = 14" using hex_of_less by (intro char_of_dot) blast+
    then show ?thesis using ab by (simp add: 1)
  qed (simp_all add: 1)
  then show ?thesis
    by (simp add: 1 numeral_3_eq_3 eq_nocase_def ascii_lower_literals ascii_lower_eq hex_of_Some_2 hex_of_Some_14)
qed auto

lemma dots_from_decode:
  assumes laws: "percent_laws P"
  shows "dots_from s n \<longleftrightarrow> (\<exists>m. pct_decode P s = replicate m CHR ''.'' \<and> (n + m = 1 \<or> n + m = 2))"
proof (induction s n rule: dots_from.induct)
  case (1 s n)
  show ?case
  proof (cases "s = []")
    case True
    then show ?thesis using percent_lawsD(2) [OF laws] by (subst dots_from.simps) auto
  next
    case False
    then obtain c cs where s: "s = c # cs" by (cases s) auto
    have more: "(\<exists>m. CHR ''.'' # t = replicate m CHR ''.'' \<and> (n + m = 1 \<or> n + m = 2)) \<longleftrightarrow>
        (\<exists>m. t = replicate m CHR ''.'' \<and> (n + 1 + m = 1 \<or> n + 1 + m = 2))" for t
    proof -
      have "CHR ''.'' # t = replicate m CHR ''.'' \<longleftrightarrow> (\<exists>m'. m = Suc m' \<and> t = replicate m' CHR ''.'')" for m
        by (cases m) auto
      then show ?thesis by auto
    qed
    show ?thesis
    proof (cases "c = CHR ''.''")
      case True
      have "escape_at s = None" using escape_at_percent [of s] s True by (cases "escape_at s") auto
      then have "pct_decode P s = CHR ''.'' # pct_decode P cs" using percent_lawsD(3) [OF laws] s True by simp
      then show ?thesis using 1(2) [OF False, of cs] s True more by (subst dots_from.simps) simp
    next
      case lit: False
      show ?thesis
      proof (cases "escape_at s = Some CHR ''.''")
        case True
        then have "pct_decode P s = CHR ''.'' # pct_decode P (drop 3 s)" using percent_lawsD(4) [OF laws] by blast
        then show ?thesis
          using 1(1) [OF False] True [unfolded escape_dot] s lit more by (subst dots_from.simps) simp
      next
        case no: False
        have "\<exists>b t. pct_decode P s = b # t \<and> b \<noteq> CHR ''.''"
        proof (cases "escape_at s")
          case None
          then show ?thesis using percent_lawsD(3) [OF laws] s lit by metis
        next
          case (Some b)
          then show ?thesis using percent_lawsD(4) [OF laws Some] no by blast
        qed
        then have "\<not> (\<exists>m. pct_decode P s = replicate m CHR ''.'')" by (metis list.set_intros(1) in_set_replicate)
        then show ?thesis using False no [unfolded escape_dot] s lit by (subst dots_from.simps) auto
      qed
    qed
  qed
qed

lemma is_dot_segment_decode:
  assumes "percent_laws P"
  shows "is_dot_segment s \<longleftrightarrow> pct_decode P s = ''.'' \<or> pct_decode P s = ''..''"
  unfolding is_dot_segment_def dots_from_decode [OF assms]
  by (auto simp: numeral_2_eq_2 intro: exI [of _ 1] exI [of _ 2])

section \<open>Lemmas: encoding\<close>

lemma hex_of_upper: "n < 16 \<Longrightarrow> hex_of (hex_upper n) = Some n"
  by (simp add: hex_of_def hex_upper_def bytes_simps)

lemma hex_upper_kinds: "n < 16 \<Longrightarrow> is_ascii_alnum (hex_upper n)"
  by (simp add: hex_upper_def bytes_simps)

lemma escape_at_triplet: "escape_at (triplet b @ s) = Some b"
proof -
  have "byte b div 16 < 16" using byte_less [of b] by (simp add: less_mult_imp_div_less)
  then show ?thesis by (simp add: triplet_def hex_of_upper)
qed

lemma set_triplet: "c \<in> set (triplet b) \<Longrightarrow> c = CHR ''%'' \<or> is_ascii_alnum c"
proof -
  assume c: "c \<in> set (triplet b)"
  have "byte b div 16 < 16" using byte_less [of b] by (simp add: less_mult_imp_div_less)
  then show ?thesis using c hex_upper_kinds [of "byte b div 16"] hex_upper_kinds [of "byte b mod 16"]
    by (auto simp: triplet_def)
qed

lemma pct_decode_encode:
  assumes laws: "percent_laws P" and "escaped CHR ''%''"
  shows "pct_decode P (pct_encode P escaped s) = s"
  unfolding percent_lawsD(1) [OF laws]
proof (induction s)
  case Nil
  then show ?case using percent_lawsD(2) [OF laws] by simp
next
  case (Cons b s)
  let ?rest = "concat (map (\<lambda>b. if escaped b \<or> \<not> is_ascii b then triplet b else [b]) s)"
  show ?case
  proof (cases "escaped b \<or> \<not> is_ascii b")
    case True
    have "pct_decode P (triplet b @ ?rest) = b # pct_decode P ?rest"
      using percent_lawsD(4) [OF laws escape_at_triplet [of b ?rest]] by (simp add: triplet_def)
    then show ?thesis using True Cons by simp
  next
    case False
    then have "escape_at (b # ?rest) = None"
      using escape_at_percent [of "b # ?rest"] assms(2) by (cases "escape_at (b # ?rest)") auto
    then show ?thesis using False Cons percent_lawsD(3) [OF laws] by simp
  qed
qed

lemma set_pct_encode:
  assumes "percent_laws P" "c \<in> set (pct_encode P escaped s)"
  shows "c = CHR ''%'' \<or> is_ascii_alnum c \<or> \<not> escaped c"
  using assms(2) set_triplet unfolding percent_lawsD(1) [OF assms(1)] by (fastforce split: if_splits)

lemma decode_encode_query_component:
  assumes "percent_laws P"
  shows "decode_query_component (pct_decode P) (encode_query_component P s) = s"
proof -
  have "CHR ''+'' \<notin> set (encode_query_component P s)"
    using set_pct_encode [OF assms, of "CHR ''+''" QUERY_COMPONENT_ENCODE_SET s]
    by (auto simp: encode_query_component_def QUERY_COMPONENT_ENCODE_SET_def unreserved_def bytes_simps)
  moreover have "QUERY_COMPONENT_ENCODE_SET CHR ''%''"
    by (simp add: QUERY_COMPONENT_ENCODE_SET_def unreserved_def bytes_simps)
  ultimately show ?thesis
    by (simp add: decode_query_component_def encode_query_component_def pct_decode_encode [OF assms])
qed

section \<open>Lemmas: rendering\<close>

lemma length_split: "length (split d s) = Suc (count_list s d)"
  by (induction s) (auto split: list.split)

lemma count_replace:
  "from \<noteq> [] \<Longrightarrow> d \<notin> set from \<Longrightarrow> d \<notin> set into \<Longrightarrow> count_list (replace_str from into s) d = count_list s d"
proof (induction "from" into s rule: replace_str.induct)
  case (1 "from" into s)
  show ?case
  proof (cases s)
    case Nil
    then show ?thesis using 1(3) by (subst replace_str.simps) simp
  next
    case (Cons c cs)
    show ?thesis
    proof (cases "strip_prefix from s")
      case None
      then show ?thesis using 1(1) [OF 1(3) Cons None 1(3-5)] 1(3) Cons by (subst replace_str.simps) simp
    next
      case (Some rest)
      then have "s = from @ rest" by (simp add: strip_prefix_Some)
      then have "count_list s d = count_list rest d" using 1(4) by (simp add: count_list_0_iff)
      then show ?thesis
        using 1(2) [OF 1(3) Cons Some 1(3-5)] 1(3,5) Cons Some
        by (subst replace_str.simps) (simp add: count_list_0_iff)
    qed
  qed
qed

lemma render_values_count:
  assumes laws: "percent_laws P" and names: "list_all (\<lambda>n. CHR ''/'' \<notin> set n) names"
  shows "render_values P names vals template = Inr rendered \<Longrightarrow>
    count_list rendered CHR ''/'' = count_list template CHR ''/''"
proof (induction vals arbitrary: template)
  case (Cons nv vs)
  obtain n v where nv: "nv = (n, v)" by fastforce
  have n: "n \<in> set names" using Cons.prems by (simp add: nv split: if_splits)
  have "CHR ''/'' \<notin> set (braced n)" using names n by (auto simp: braced_def list_all_iff)
  moreover have "CHR ''/'' \<notin> set (pct_encode P PATH_SEGMENT_ENCODE_SET v)"
    using set_pct_encode [OF laws, of "CHR ''/''" PATH_SEGMENT_ENCODE_SET v]
    by (auto simp: PATH_SEGMENT_ENCODE_SET_def bytes_simps)
  ultimately have "count_list (replace_str (braced n) (pct_encode P PATH_SEGMENT_ENCODE_SET v) template) CHR ''/'' =
      count_list template CHR ''/''"
    by (intro count_replace) (simp add: braced_def)
  then show ?case using Cons.IH Cons.prems by (simp add: nv split: if_splits)
qed simp

section \<open>Properties\<close>

text \<open>C31: the check in place agrees with decoding. It accepts a text exactly when the octets the text
  percent-decodes to are UTF-8, however literal text, whole escapes and malformed ones are mixed.\<close>

theorem percent_check_exact:
  assumes "percent_laws P" "from_utf8 text = Some text"
  shows "check_percent_decoded_utf8 text = None \<longleftrightarrow> from_utf8 (pct_decode P text) = Some (pct_decode P text)"
proof -
  have "utf8_check text = Utf8_ok" using assms(2) by (simp add: from_utf8_def split: if_splits)
  then show ?thesis
    using check_from_correct [OF assms(1), of "[]" 0 "text" 0]
    by (simp add: check_percent_decoded_utf8_def from_utf8_def held_def split: if_splits)
qed

theorem percent_check_exact_witness:
  "from_utf8 (pct_decode std_percent ''a%C3%A9%zz'') = Some (pct_decode std_percent ''a%C3%A9%zz'')"
proof -
  have "check_percent_decoded_utf8 ''a%C3%A9%zz'' = None" by code_simp
  then show ?thesis
    using percent_check_exact [OF std_percent_laws, of "''a%C3%A9%zz''"]
    by (simp add: from_utf8_ascii is_ascii_def)
qed

text \<open>C32: a rendered path keeps the shape of its template. It has as many segments, and none that
  held a variable decodes to \<open>.\<close> or \<open>..\<close>, which a resolver would remove.\<close>

theorem rendered_path_safe:
  assumes "percent_laws P" "list_all (\<lambda>n. CHR ''/'' \<notin> set n) names"
    and "render_endpoint_path P names template vals = Inr rendered"
  shows "length (split CHR ''/'' rendered) = length (split CHR ''/'' template) \<and>
    (\<forall>i < length (split CHR ''/'' template). CHR ''{'' \<in> set (split CHR ''/'' template ! i) \<longrightarrow>
       pct_decode P (split CHR ''/'' rendered ! i) \<notin> {''.'', ''..''})"
proof -
  have r: "render_values P names vals template = Inr rendered" "dot_segment P template rendered = None"
    using assms(3) by (auto simp: render_endpoint_path_def split: if_splits sum.splits option.splits)
  have l: "length (split CHR ''/'' rendered) = length (split CHR ''/'' template)"
    using render_values_count [OF assms(1,2) r(1)] by (simp add: length_split)
  have "\<not> (CHR ''{'' \<in> set segment \<and> is_dot_segment piece)"
    if "(segment, piece) \<in> set (zip (split CHR ''/'' template) (split CHR ''/'' rendered))" for segment piece
    using r(2) that by (auto simp: dot_segment_def find_None_iff)
  then have "\<not> (CHR ''{'' \<in> set (split CHR ''/'' template ! i) \<and> is_dot_segment (split CHR ''/'' rendered ! i))"
    if "i < length (split CHR ''/'' template)" for i
    using that l by (metis in_set_zip fst_conv snd_conv)
  then show ?thesis using l is_dot_segment_decode [OF assms(1)] by auto
qed

theorem rendered_path_safe_witness:
  "\<exists>r. render_endpoint_path std_percent [''id''] ''/users/{id}'' [(''id'', ''a/b'')] = Inr r \<and>
     length (split CHR ''/'' r) = 3"
proof -
  have r: "render_endpoint_path std_percent [''id''] ''/users/{id}'' [(''id'', ''a/b'')] = Inr ''/users/a%2Fb''"
    by code_simp
  show ?thesis using rendered_path_safe [OF std_percent_laws _ r] r by simp
qed

end
