(* ===== verification/Path_Template.thy ===== *)
theory Path_Template
  imports Body_Read "HOL-Library.Sublist"
begin

text \<open>
  Path templates such as \<open>/users/{id}\<close> (\<open>src/crates/kynos-openapi/src/model/paths/template.rs\<close>) and
  the JSON Pointers the description's own checks report locations with
  (\<open>src/crates/kynos-openapi/src/pointer.rs\<close>). A template is a Rust \<open>String\<close>, so a list of UTF-8
  bytes; every byte the parser tests for is ASCII, so reading it byte by byte is reading it by
  characters, except where an error names the character.
\<close>

section \<open>Parsing\<close>

datatype invalid_path_template =
    MissingLeadingSlash string
  | UnbalancedBraces string
  | EmptyExpression string
  | DuplicateVariable string string
  | NotAPath string
  | IllegalLiteralCharacter string string
  | MalformedPercentEncoding string
  | EmptySegment string

record path_template =
  raw :: string
  variables :: "string list"

definition is_path_character :: "char \<Rightarrow> bool" where
  "is_path_character c \<longleftrightarrow> is_ascii_alnum c \<or> c = CHR 0x27 \<or> c \<in> set ''-._~!$&()*+,;=:@''"

text \<open>A literal run between expressions: the error it has.\<close>

fun check_literal :: "string \<Rightarrow> string \<Rightarrow> invalid_path_template option" where
  "check_literal template [] = None"
| "check_literal template (c # cs) =
     (if c = CHR ''/'' then check_literal template cs
      else if c = CHR ''}'' then Some (UnbalancedBraces template)
      else if c = CHR ''%'' then
        (case cs of
           high # low # rest \<Rightarrow>
             if is_ascii_hexdigit high \<and> is_ascii_hexdigit low then check_literal template rest
             else Some (MalformedPercentEncoding template)
         | _ \<Rightarrow> Some (MalformedPercentEncoding template))
      else if is_path_character c then check_literal template cs
      else Some (IllegalLiteralCharacter template (take (max 1 (utf8_width c)) (c # cs))))"

text \<open>Whether no segment is empty: the flags say whether the scan is inside an expression and whether
  the segment holds nothing yet.\<close>

fun segments_from :: "bool \<Rightarrow> bool \<Rightarrow> string \<Rightarrow> bool" where
  "segments_from in_expression segment_is_empty [] = True"
| "segments_from in_expression segment_is_empty (c # cs) =
     (if c = CHR ''{'' then segments_from True False cs
      else if c = CHR ''}'' then segments_from False segment_is_empty cs
      else if c = CHR ''/'' \<and> \<not> in_expression then \<not> segment_is_empty \<and> segments_from in_expression True cs
      else segments_from in_expression False cs)"

definition check_segments :: "string \<Rightarrow> invalid_path_template option" where
  "check_segments template =
     (if segments_from False True (drop 1 template) then None else Some (EmptySegment template))"

fun query_from :: "bool \<Rightarrow> string \<Rightarrow> bool" where
  "query_from in_expression [] = False"
| "query_from in_expression (c # cs) =
     (if c = CHR ''{'' then query_from True cs
      else if c = CHR ''}'' then query_from False cs
      else if c = CHR ''?'' \<or> c = CHR ''#'' then \<not> in_expression \<or> query_from in_expression cs
      else query_from in_expression cs)"

definition has_query_or_fragment :: "string \<Rightarrow> bool" where
  "has_query_or_fragment template = query_from False template"

function parse_from :: "string \<Rightarrow> string list \<Rightarrow> string \<Rightarrow> invalid_path_template + path_template" where
  "parse_from template names rest =
     (case split_once CHR ''{'' rest of
        None \<Rightarrow>
          if CHR ''}'' \<in> set rest then Inl (UnbalancedBraces template)
          else (case check_literal template rest of
                  Some e \<Rightarrow> Inl e
                | None \<Rightarrow>
                    (case check_segments template of
                       Some e \<Rightarrow> Inl e
                     | None \<Rightarrow> Inr \<lparr>raw = template, variables = names\<rparr>))
      | Some (literal, after_open) \<Rightarrow>
          (case check_literal template literal of
             Some e \<Rightarrow> Inl e
           | None \<Rightarrow>
               (case split_once CHR ''}'' after_open of
                  None \<Rightarrow> Inl (UnbalancedBraces template)
                | Some (name, rest) \<Rightarrow>
                    if name = [] then Inl (EmptyExpression template)
                    else if CHR ''{'' \<in> set name then Inl (UnbalancedBraces template)
                    else if name \<in> set names then Inl (DuplicateVariable template name)
                    else parse_from template (names @ [name]) rest)))"
  by pat_completeness auto
termination by (relation "measure (\<lambda>(_, _, rest). length rest)") (auto simp: split_once_Some)

declare parse_from.simps [simp del]

definition template_parse :: "string \<Rightarrow> invalid_path_template + path_template" where
  "template_parse template =
     (if \<not> starts_with ''/'' template then Inl (MissingLeadingSlash template)
      else if has_query_or_fragment template then Inl (NotAPath template)
      else parse_from template [] template)"

text \<open>\<open>normalized\<close>, where \<open>None\<close> is its panic on braces no parse accepts.\<close>

function normalized_from :: "string \<Rightarrow> string \<Rightarrow> string option" where
  "normalized_from out rest =
     (case split_once CHR ''{'' rest of
        None \<Rightarrow> Some (out @ rest)
      | Some (literal, after_open) \<Rightarrow>
          (case split_once CHR ''}'' after_open of
             None \<Rightarrow> None
           | Some (_, rest) \<Rightarrow> normalized_from (out @ literal @ ''{}'') rest))"
  by pat_completeness auto
termination by (relation "measure (\<lambda>(_, rest). length rest)") (auto simp: split_once_Some)

declare normalized_from.simps [simp del]

definition normalized :: "path_template \<Rightarrow> string option" where
  "normalized t = normalized_from [] (raw t)"

definition with_prefix :: "path_template \<Rightarrow> string \<Rightarrow> invalid_path_template + path_template" where
  "with_prefix t pre =
     (let pre = trim_end_with (\<lambda>c. c = CHR ''/'') pre
      in if pre = [] then Inr t else template_parse (pre @ raw t))"

section \<open>Pointers into a description\<close>

datatype token = Root_token | Key_token string | Index_token nat

text \<open>A location is the chain of its tokens, the document's first.\<close>

definition push_escaped :: "string \<Rightarrow> string \<Rightarrow> string" where
  "push_escaped pointer key =
     foldl (\<lambda>pointer c.
       if c = CHR ''~'' then pointer @ ''~0'' else if c = CHR ''/'' then pointer @ ''~1'' else pointer @ [c]) pointer key"

definition pointer_token :: "string \<Rightarrow> string" where
  "pointer_token key = push_escaped [] key"

definition escaped_len :: "string \<Rightarrow> nat" where
  "escaped_len key = length key + length (filter (\<lambda>c. c = CHR ''~'' \<or> c = CHR ''/'') key)"

fun render_token :: "string \<Rightarrow> token \<Rightarrow> string" where
  "render_token pointer Root_token = pointer @ ''#''"
| "render_token pointer (Key_token key) = push_escaped (pointer @ ''/'') key"
| "render_token pointer (Index_token i) = pointer @ ''/'' @ decimal i"

definition at_pointer :: "token list \<Rightarrow> string" where
  "at_pointer at = foldl render_token [] at"

text \<open>How many decimal digits, by \<open>checked_ilog10\<close>.\<close>

fun digits_of :: "nat \<Rightarrow> nat" where
  "digits_of i = (if i < 10 then 1 else digits_of (i div 10) + 1)"

declare digits_of.simps [simp del]

fun token_len :: "token \<Rightarrow> nat" where
  "token_len Root_token = 1"
| "token_len (Key_token key) = 1 + escaped_len key"
| "token_len (Index_token i) = 1 + digits_of i"

definition at_len :: "token list \<Rightarrow> nat" where
  "at_len at = sum_list (map token_len at)"

section \<open>Lemmas: literals and segments\<close>

text \<open>The literal grammar: \<open>pchar\<close>, slashes and percent triplets.\<close>

inductive path_literal :: "string \<Rightarrow> bool" where
  empty: "path_literal []"
| char: "is_path_character c \<or> c = CHR ''/'' \<Longrightarrow> path_literal s \<Longrightarrow> path_literal (c # s)"
| triplet: "is_ascii_hexdigit h \<Longrightarrow> is_ascii_hexdigit l \<Longrightarrow> path_literal s \<Longrightarrow>
    path_literal (CHR ''%'' # h # l # s)"

inductive_simps path_literal_Nil [simp]: "path_literal []"
inductive_simps path_literal_Cons: "path_literal (c # s)"

lemma path_character_kinds:
  "\<not> is_path_character CHR ''%''" "\<not> is_path_character CHR ''{''" "\<not> is_path_character CHR ''}''"
  "\<not> is_path_character CHR ''?''" "\<not> is_path_character CHR ''#''" "\<not> is_path_character CHR ''/''"
  "\<not> is_ascii_hexdigit CHR ''{''" "\<not> is_ascii_hexdigit CHR ''}''" "\<not> is_ascii_hexdigit CHR ''?''" "\<not> is_ascii_hexdigit CHR ''#''"
  by (simp_all add: is_path_character_def bytes_simps)

lemma check_literal_iff: "check_literal template s = None \<longleftrightarrow> path_literal s"
proof (induction template s rule: check_literal.induct)
  case (2 template c cs)
  consider "c = CHR ''/''" | "c = CHR ''}''" | "c = CHR ''%''" | "c \<noteq> CHR ''/''" "c \<noteq> CHR ''}''" "c \<noteq> CHR ''%''" by blast
  then show ?case
  proof cases
    case 3
    show ?thesis
    proof (cases cs)
      case Nil
      then show ?thesis using 3 by (simp add: path_literal_Cons path_character_kinds)
    next
      case (Cons h hs)
      then show ?thesis using 3 2(2) by (cases hs) (auto simp: path_literal_Cons [of "CHR ''%''"] path_character_kinds)
    qed
  qed (use 2 in \<open>auto simp: path_literal_Cons path_character_kinds\<close>)
qed simp

lemma path_literal_plain:
  "path_literal s \<Longrightarrow> CHR ''{'' \<notin> set s \<and> CHR ''}'' \<notin> set s \<and> CHR ''?'' \<notin> set s \<and> CHR ''#'' \<notin> set s"
proof (induction rule: path_literal.induct)
  case (triplet h l s)
  then have "h \<noteq> CHR ''{''" "h \<noteq> CHR ''}''" "h \<noteq> CHR ''?''" "h \<noteq> CHR ''#''"
    "l \<noteq> CHR ''{''" "l \<noteq> CHR ''}''" "l \<noteq> CHR ''?''" "l \<noteq> CHR ''#''"
    using path_character_kinds by blast+
  then show ?case using triplet by auto
qed (use path_character_kinds in auto)

text \<open>A template as its pieces, each a literal and the name of the expression after it, and its
  normal form.\<close>

definition flat :: "(string \<times> string) list \<Rightarrow> string \<Rightarrow> string" where
  "flat ps lit = concat (map (\<lambda>(l, n). l @ ''{'' @ n @ ''}'') ps) @ lit"

definition normal :: "(string \<times> string) list \<Rightarrow> string \<Rightarrow> string" where
  "normal ps lit = concat (map (\<lambda>(l, n). l @ ''{}'') ps) @ lit"

definition good_piece :: "string \<times> string \<Rightarrow> bool" where
  "good_piece p \<longleftrightarrow> path_literal (fst p) \<and> snd p \<noteq> [] \<and> CHR ''{'' \<notin> set (snd p) \<and> CHR ''}'' \<notin> set (snd p)"

lemma flat_simps [simp]:
  "flat [] lit = lit" "flat ((l, n) # ps) lit = l @ CHR ''{'' # n @ CHR ''}'' # flat ps lit"
  "normal [] lit = lit" "normal ((l, n) # ps) lit = l @ ''{}'' @ normal ps lit"
  by (simp_all add: flat_def normal_def)

lemma query_from_literal: "path_literal l \<Longrightarrow> query_from False (l @ s) = query_from False s"
proof -
  have "CHR ''{'' \<notin> set l \<and> CHR ''}'' \<notin> set l \<and> CHR ''?'' \<notin> set l \<and> CHR ''#'' \<notin> set l \<Longrightarrow> ?thesis"
    by (induction l) auto
  then show "path_literal l \<Longrightarrow> ?thesis" using path_literal_plain by blast
qed

lemma query_from_name: "CHR ''{'' \<notin> set n \<Longrightarrow> CHR ''}'' \<notin> set n \<Longrightarrow> query_from True (n @ CHR ''}'' # s) = query_from False s"
  by (induction n) auto

lemma query_from_flat: "list_all good_piece ps \<Longrightarrow> path_literal lit \<Longrightarrow> \<not> query_from False (flat ps lit)"
proof (induction ps)
  case Nil
  then show ?case using query_from_literal [of lit "[]"] by simp
next
  case (Cons p ps)
  then show ?case by (cases p) (simp add: good_piece_def query_from_literal query_from_name)
qed

fun no_double :: "bool \<Rightarrow> string \<Rightarrow> bool" where
  "no_double slash [] = True"
| "no_double slash (c # cs) = (if c = CHR ''/'' then \<not> slash \<and> no_double True cs else no_double False cs)"

lemma no_double_sublist: "no_double slash s \<longleftrightarrow> \<not> sublist ''//'' (if slash then CHR ''/'' # s else s)"
proof (induction slash s rule: no_double.induct)
  case (2 slash c cs)
  have "sublist ''//'' (CHR ''/'' # CHR ''/'' # s)" for s by (rule prefix_imp_sublist) simp
  then show ?case using 2 by (auto simp: sublist_Cons_right)
qed (auto simp: sublist_Cons_right)

lemma segments_literal:
  "CHR ''{'' \<notin> set l \<Longrightarrow> CHR ''}'' \<notin> set l \<Longrightarrow> (\<And>e. segments_from False e s = no_double e t) \<Longrightarrow>
   segments_from False e (l @ s) = no_double e (l @ t)"
  by (induction l arbitrary: e) auto

lemma segments_name:
  "CHR ''{'' \<notin> set n \<Longrightarrow> CHR ''}'' \<notin> set n \<Longrightarrow> segments_from True False (n @ CHR ''}'' # s) = segments_from False False s"
  by (induction n) auto

lemma segments_flat:
  "list_all good_piece ps \<Longrightarrow> path_literal lit \<Longrightarrow> segments_from False e (flat ps lit) = no_double e (normal ps lit)"
proof (induction ps arbitrary: e)
  case Nil
  then show ?case using segments_literal [of lit "[]" "[]" e] path_literal_plain [of lit] by simp
next
  case (Cons p ps)
  obtain l n where p: "p = (l, n)" by fastforce
  have l: "CHR ''{'' \<notin> set l" "CHR ''}'' \<notin> set l" using Cons.prems path_literal_plain [of l] by (simp_all add: p good_piece_def)
  have n: "CHR ''{'' \<notin> set n" "CHR ''}'' \<notin> set n" using Cons.prems by (simp_all add: p good_piece_def)
  have "segments_from False e (CHR ''{'' # n @ CHR ''}'' # flat ps lit) = no_double e (''{}'' @ normal ps lit)" for e
    using Cons n by (simp add: segments_name)
  then show ?case unfolding p flat_simps by (rule segments_literal [OF l])
qed

section \<open>Lemmas: parsing\<close>

definition derives :: "string \<Rightarrow> string list \<Rightarrow> string \<Rightarrow> path_template \<Rightarrow> bool" where
  "derives template names rest t \<longleftrightarrow>
     (\<exists>ps lit. rest = flat ps lit \<and> t = \<lparr>raw = template, variables = names @ map snd ps\<rparr> \<and> list_all good_piece ps \<and>
        path_literal lit \<and> distinct (map snd ps) \<and> set names \<inter> set (map snd ps) = {} \<and> check_segments template = None)"

lemma derives_end:
  assumes "CHR ''{'' \<notin> set rest"
  shows "derives template names rest t \<longleftrightarrow>
    path_literal rest \<and> t = \<lparr>raw = template, variables = names\<rparr> \<and> check_segments template = None"
proof -
  have "ps = []" if "rest = flat ps lit" for ps lit using that assms by (cases ps) auto
  then have "rest = flat ps lit \<longleftrightarrow> ps = [] \<and> rest = lit" for ps lit by (metis flat_simps(1))
  then show ?thesis by (auto simp: derives_def)
qed

lemma derives_step:
  assumes "split_once CHR ''{'' rest = Some (l, a)"
  shows "derives template names rest t \<longleftrightarrow>
    path_literal l \<and> (\<exists>n r. split_once CHR ''}'' a = Some (n, r) \<and> n \<noteq> [] \<and> CHR ''{'' \<notin> set n \<and> n \<notin> set names \<and>
      derives template (names @ [n]) r t)" (is "?L = ?R")
proof
  assume ?L
  then obtain ps lit where d: "rest = flat ps lit" "t = \<lparr>raw = template, variables = names @ map snd ps\<rparr>"
      "list_all good_piece ps" "path_literal lit" "distinct (map snd ps)" "set names \<inter> set (map snd ps) = {}"
      "check_segments template = None"
    unfolding derives_def by blast
  have "ps \<noteq> []" using assms d(1,4) path_literal_plain [of lit] by (auto simp: split_once_Some)
  then obtain l0 n ps' where ps: "ps = (l0, n) # ps'" by (cases ps) auto
  have "split_once CHR ''{'' rest = Some (l0, n @ CHR ''}'' # flat ps' lit)"
    using d(1,3) ps path_literal_plain [of l0] by (simp add: split_once_Some good_piece_def)
  then have l: "l = l0" "a = n @ CHR ''}'' # flat ps' lit" using assms by simp_all
  have "split_once CHR ''}'' a = Some (n, flat ps' lit)" using l(2) d(3) ps by (simp add: split_once_Some good_piece_def)
  moreover have "derives template (names @ [n]) (flat ps' lit) t"
    unfolding derives_def
    by (rule exI [of _ ps'], rule exI [of _ lit]) (use d ps in auto)
  ultimately show ?R using d(3,6) ps l(1) by (auto simp: good_piece_def)
next
  assume ?R
  then obtain n r where r: "path_literal l" "split_once CHR ''}'' a = Some (n, r)" "n \<noteq> []" "CHR ''{'' \<notin> set n"
      "n \<notin> set names" "derives template (names @ [n]) r t" by blast
  from r(6) obtain ps lit where d: "r = flat ps lit" "t = \<lparr>raw = template, variables = (names @ [n]) @ map snd ps\<rparr>"
      "list_all good_piece ps" "path_literal lit" "distinct (map snd ps)" "set (names @ [n]) \<inter> set (map snd ps) = {}"
      "check_segments template = None"
    unfolding derives_def by blast
  have f: "rest = flat ((l, n) # ps) lit" using assms r(2) d(1) by (simp add: split_once_Some)
  show ?L
    unfolding derives_def
    by (rule exI [of _ "(l, n) # ps"], rule exI [of _ lit]) (use d r f in \<open>auto simp: good_piece_def split_once_Some\<close>)
qed

lemma parse_from_iff: "parse_from template names rest = Inr t \<longleftrightarrow> derives template names rest t"
proof (induction template names rest rule: parse_from.induct)
  case (1 template names rest)
  show ?case
  proof (cases "split_once CHR ''{'' rest")
    case None
    then have d: "derives template names rest t \<longleftrightarrow>
        path_literal rest \<and> t = \<lparr>raw = template, variables = names\<rparr> \<and> check_segments template = None"
      by (intro derives_end) (simp add: split_once_None)
    have c: "check_literal template rest = None \<longleftrightarrow> path_literal rest" by (rule check_literal_iff)
    show ?thesis
    proof (cases "path_literal rest")
      case True
      then have "CHR ''}'' \<notin> set rest" "check_literal template rest = None" using path_literal_plain c by blast+
      then show ?thesis unfolding d using None True
        by (subst parse_from.simps) (cases "check_segments template"; auto)
    next
      case False
      then obtain e where "check_literal template rest = Some e" using c by auto
      then show ?thesis unfolding d using None False by (subst parse_from.simps) simp
    qed
  next
    case (Some la)
    obtain l a where la: "la = (l, a)" by fastforce
    show ?thesis
    proof (cases "check_literal template l")
      case (Some e)
      then show ?thesis
        using \<open>split_once CHR ''{'' rest = Some la\<close> la check_literal_iff [of template l]
        by (subst parse_from.simps) (simp add: derives_step)
    next
      case None
      have l: "path_literal l" using None check_literal_iff by blast
      note ih = 1 [OF Some la [symmetric] None]
      show ?thesis
        using Some la l None ih
        by (subst parse_from.simps) (auto simp: derives_step split: option.split)
    qed
  qed
qed

lemma normalized_from_flat:
  "list_all good_piece ps \<Longrightarrow> path_literal lit \<Longrightarrow> normalized_from out (flat ps lit) = Some (out @ normal ps lit)"
proof (induction ps arbitrary: out)
  case Nil
  then have "split_once CHR ''{'' lit = None" using path_literal_plain [of lit] by (simp add: split_once_None)
  then show ?case by (subst normalized_from.simps) simp
next
  case (Cons p ps)
  obtain l n where p: "p = (l, n)" by fastforce
  have g: "path_literal l" "CHR ''}'' \<notin> set n" using Cons.prems by (simp_all add: p good_piece_def)
  have "split_once CHR ''{'' (flat (p # ps) lit) = Some (l, n @ CHR ''}'' # flat ps lit)"
    using path_literal_plain [OF g(1)] by (simp add: p split_once_Some)
  moreover have "split_once CHR ''}'' (n @ CHR ''}'' # flat ps lit) = Some (n, flat ps lit)"
    using g(2) by (simp add: split_once_Some)
  ultimately show ?case using Cons by (subst normalized_from.simps) (simp add: p)
qed

lemma check_segments_flat:
  assumes "list_all good_piece ps" "path_literal lit" "starts_with ''/'' (flat ps lit)"
  shows "check_segments (flat ps lit) = None \<longleftrightarrow> \<not> sublist ''//'' (normal ps lit)"
proof -
  obtain r where r: "flat ps lit = CHR ''/'' # r" using assms(3) by (auto simp: starts_with_iff)
  have "segments_from False False (flat ps lit) = no_double False (normal ps lit)"
    by (rule segments_flat [OF assms(1,2)])
  then show ?thesis by (simp add: check_segments_def r no_double_sublist)
qed

section \<open>Lemmas: pointers\<close>

lemma push_escaped_eq: "push_escaped p key = p @ escape_token key"
proof -
  have "push_escaped p key = p @ concat (map escape_char key)"
    by (induction key arbitrary: p) (simp_all add: push_escaped_def escape_char_def)
  then show ?thesis by (simp add: escape_token_chars)
qed

lemma length_escape: "length (escape_token key) = escaped_len key"
  unfolding escape_token_chars by (induction key) (simp_all add: escape_char_def escaped_len_def)

lemma digits_of_length: "digits_of i = length (decimal i)"
proof (induction i rule: digits_of.induct)
  case (1 i)
  then show ?case by (cases "i < 10") (simp_all add: digits_of.simps [of i] decimal_lt decimal_ge)
qed

lemma render_token_append: "render_token p t = p @ render_token [] t"
  by (cases t) (simp_all add: push_escaped_eq)

lemma at_pointer_concat: "foldl render_token p ts = p @ concat (map (render_token []) ts)"
proof (induction ts arbitrary: p)
  case (Cons t ts)
  show ?case using Cons.IH [of "render_token p t"] render_token_append [of p t] by simp
qed simp

text \<open>The length reserved is the length written.\<close>

lemma at_len_exact: "length (at_pointer ts) = at_len ts"
proof -
  have "length (render_token [] t) = token_len t" for t
    by (cases t) (simp_all add: push_escaped_eq length_escape digits_of_length)
  then show ?thesis by (simp add: at_pointer_def at_pointer_concat at_len_def length_concat comp_def)
qed

section \<open>Properties\<close>

text \<open>C33: the template parser accepts exactly the path grammar. A template parses when it begins with a
  slash and is a sequence of literals and braced names, the literals \<open>pchar\<close>, slashes and percent
  triplets, the names non-empty, free of braces and distinct, and no segment is empty; its variables
  are then those names in order, and its normal form is the template with each name left out.\<close>

theorem template_grammar_exact:
  "template_parse template = Inr t \<longleftrightarrow>
   (\<exists>ps lit. template = flat ps lit \<and> starts_with ''/'' template \<and> list_all good_piece ps \<and> path_literal lit \<and>
      distinct (map snd ps) \<and> \<not> sublist ''//'' (normal ps lit) \<and>
      t = \<lparr>raw = template, variables = map snd ps\<rparr> \<and> normalized t = Some (normal ps lit))"
proof -
  have n: "normalized \<lparr>raw = flat ps lit, variables = vs\<rparr> = Some (normal ps lit)"
    if "list_all good_piece ps" "path_literal lit" for ps lit vs
    using normalized_from_flat [OF that] by (simp add: normalized_def)
  have "template_parse template = Inr t \<longleftrightarrow>
    starts_with ''/'' template \<and> \<not> has_query_or_fragment template \<and> derives template [] template t"
    by (simp add: template_parse_def parse_from_iff [symmetric])
  then show ?thesis
    unfolding derives_def has_query_or_fragment_def
    by (auto simp: query_from_flat check_segments_flat n) blast
qed

end
