(* ===== verification/Methods.thy ===== *)
theory Methods
  imports Prelude
begin

text \<open>
  The HTTP methods a Path Item has a field for (\<open>src/crates/kynos-openapi/src/model/paths/method.rs\<close>), which both the
  route table and the OpenAPI document are keyed by. The feature \<open>openapi32\<close> (a default) is on.
\<close>

datatype http_method = Get | Put | Post | Delete | Options | Head | Patch | Trace | Query

definition all_methods :: "http_method list" where
  "all_methods = [Get, Put, Post, Delete, Options, Head, Patch, Trace, Query]"

fun as_wire_str :: "http_method \<Rightarrow> string" where
  "as_wire_str Get = ''GET''"
| "as_wire_str Put = ''PUT''"
| "as_wire_str Post = ''POST''"
| "as_wire_str Delete = ''DELETE''"
| "as_wire_str Options = ''OPTIONS''"
| "as_wire_str Head = ''HEAD''"
| "as_wire_str Patch = ''PATCH''"
| "as_wire_str Trace = ''TRACE''"
| "as_wire_str Query = ''QUERY''"

definition from_wire_str :: "string \<Rightarrow> http_method option" where
  "from_wire_str name = find (\<lambda>m. as_wire_str m = name) all_methods"

fun field_name :: "http_method \<Rightarrow> string" where
  "field_name Get = ''get''"
| "field_name Put = ''put''"
| "field_name Post = ''post''"
| "field_name Delete = ''delete''"
| "field_name Options = ''options''"
| "field_name Head = ''head''"
| "field_name Patch = ''patch''"
| "field_name Trace = ''trace''"
| "field_name Query = ''query''"

end
