(* ===== verification/Dispatch.thy ===== *)
theory Dispatch
  imports Methods Forwarded Response_Head Bodies
begin

text \<open>
  Routing a request and answering it: the captures of a match
  (\<open>src/crates/kynos/src/extract/params/path.rs\<close>), the interceptor chain
  (\<open>src/crates/kynos/src/middleware/mod.rs\<close>), panic recovery and the route table
  (\<open>src/crates/kynos/src/router/dispatch.rs\<close>). The match table is the \<open>matchit\<close> crate's and a
  parameter, and so is what an interceptor or a handler does with a request. Awaiting is a call: what a
  future yields or the panic it unwinds with. What observers are told is a list of events. The features
  \<open>openapi32\<close> (a default) is on and \<open>unchecked\<close> is off.
\<close>

section \<open>Captures\<close>

text \<open>A capture is the half-open span of octets the matcher found, in 16 bits while at most four
  variables and 65535 octets are in play. A variable that was not captured starts past its end.\<close>

datatype path_spans = Short "(16 word \<times> 16 word) list" | Long "(32 word \<times> 32 word) list"

record path_captures =
  capture_names :: "string list"
  capture_spans :: path_spans

definition INLINE :: nat where "INLINE = 4"

definition narrow :: "nat \<times> nat \<Rightarrow> ('w::len word \<times> 'w word) option" where
  "narrow s = (if fst s < 2 ^ LENGTH('w) \<and> snd s < 2 ^ LENGTH('w)
               then Some (of_nat (fst s), of_nat (snd s)) else None)"

definition captured_slot :: "(string \<Rightarrow> (nat \<times> nat) option) \<Rightarrow> string \<Rightarrow> 'w::len word \<times> 'w word" where
  "captured_slot captured name =
     (case Option.bind (captured name) narrow of Some s \<Rightarrow> s | None \<Rightarrow> (- 1, 0))"

text \<open>\<open>None\<close> is the panic on a span outside the path.\<close>

definition captures_new :: "string \<Rightarrow> string list \<Rightarrow> (string \<Rightarrow> (nat \<times> nat) option) \<Rightarrow> path_captures option" where
  "captures_new request_path names captured =
     (if list_ex (\<lambda>n. case captured n of Some (s, e) \<Rightarrow> \<not> (s \<le> e \<and> e \<le> length request_path) | None \<Rightarrow> False) names then None
      else Some
        (if length names \<le> INLINE \<and> length request_path \<le> u16_max
         then \<lparr>capture_names = names,
               capture_spans = Short (map (captured_slot captured) names @ replicate (INLINE - length names) (- 1, 0))\<rparr>
         else \<lparr>capture_names = names, capture_spans = Long (map (captured_slot captured) names)\<rparr>))"

definition char_boundary :: "string \<Rightarrow> nat \<Rightarrow> bool" where
  "char_boundary s i \<longleftrightarrow> i \<le> length s \<and> (i = length s \<or> \<not> is_utf8_continuation (s ! i))"

definition str_get :: "string \<Rightarrow> nat \<Rightarrow> nat \<Rightarrow> string option" where
  "str_get s i j = (if i \<le> j \<and> char_boundary s i \<and> char_boundary s j then Some (take (j - i) (drop i s)) else None)"

definition captures_get :: "path_captures \<Rightarrow> string \<Rightarrow> string \<Rightarrow> string option" where
  "captures_get c request_path name =
     Option.bind (position (\<lambda>n. n = name) (capture_names c)) (\<lambda>i.
       case capture_spans c of
         Short ss \<Rightarrow> if i < length ss then str_get request_path (unat (fst (ss ! i))) (unat (snd (ss ! i))) else None
       | Long ss \<Rightarrow> if i < length ss then str_get request_path (unat (fst (ss ! i))) (unat (snd (ss ! i))) else None)"

section \<open>Requests, replies and the chain\<close>

record route =
  route_template :: string
  route_operation :: string
  route_method :: http_method

text \<open>\<open>Routed\<close>, the extension routing leaves on a request.\<close>

record routed =
  matched_path :: "string option"
  route_captures :: "path_captures option"
  origin_of :: forwarded
  is_secured :: bool
  link_table :: "(string \<times> string) list option"

text \<open>A request: its connection is whether it was made in process and the peer's address.\<close>

record 'h request =
  verb :: string
  uri_authority :: "string option"
  uri_path :: string
  uri_query :: "string option"
  request_headers :: 'h
  connected :: "(bool \<times> ip_addr option) option"
  routed_to :: "routed option"

text \<open>A response with the extensions dispatch reads: the payload of a panic an endpoint recovered, and the
  mark of a refused media type.\<close>

record 'h reply =
  response_of :: "'h response"
  recovered :: "string option"
  media_refused :: bool

datatype 'h run = Returned "'h reply" | Panicked string

definition plain_reply :: "'h response \<Rightarrow> 'h reply" where
  "plain_reply r = \<lparr>response_of = r, recovered = None, media_refused = False\<rparr>"

text \<open>An interceptor, and what the router can read of it as a value.\<close>

record ('h, 'i) interceptor =
  as_any :: 'i
  intercept :: "route option \<Rightarrow> ('h request \<Rightarrow> 'h run) \<Rightarrow> 'h request \<Rightarrow> 'h run"

fun next_run :: "('h, 'i) interceptor list \<Rightarrow> ('h request \<Rightarrow> 'h run) \<Rightarrow> route option \<Rightarrow> 'h request \<Rightarrow> 'h run" where
  "next_run [] terminal at r = terminal r"
| "next_run (head # remaining) terminal at r = intercept head at (next_run remaining terminal at) r"

definition recover :: "'h run \<Rightarrow> string + 'h reply" where
  "recover outcome = (case outcome of Returned r \<Rightarrow> Inr r | Panicked payload \<Rightarrow> Inl payload)"

definition panic_response :: "('h, 'x) header_map_scheme \<Rightarrow> 'h reply" where
  "panic_response H = plain_reply (problem_response H 500 [])"

definition recovered_response :: "('h, 'x) header_map_scheme \<Rightarrow> string \<Rightarrow> 'h reply" where
  "recovered_response H payload = (panic_response H)\<lparr>recovered := Some payload\<rparr>"

definition take_recovered :: "'h reply \<Rightarrow> string option \<times> 'h reply" where
  "take_recovered r = (recovered r, r\<lparr>recovered := None\<rparr>)"

section \<open>The route table\<close>

record ('h, 'i) operation =
  op_method :: http_method
  operation_id :: string
  op_terminal :: "'h request \<Rightarrow> 'h run"
  op_interceptors :: "('h, 'i) interceptor list"
  op_catches :: bool
  op_secured :: bool

record ('h, 'i) path_entry =
  entry_template :: string
  entry_variables :: "string list"
  allow :: string
  accept_query :: "string option"
  operations :: "('h, 'i) operation list"

definition find_operation :: "('h, 'i) path_entry \<Rightarrow> http_method \<Rightarrow> nat option" where
  "find_operation e m =
     (case position (\<lambda>x. op_method x = m) (operations e) of
        Some i \<Rightarrow> Some i
      | None \<Rightarrow> if m = Head then position (\<lambda>x. op_method x = Get) (operations e) else None)"

definition answers_options :: "('h, 'i) path_entry \<Rightarrow> bool" where
  "answers_options e \<longleftrightarrow> accept_query e \<noteq> None \<and> find_operation e Options = None"

definition allow_methods :: "http_method list \<Rightarrow> http_method list" where
  "allow_methods methods =
     concat (map (\<lambda>m. m # (if Head \<notin> set methods \<and> m = Get then [Head] else [])) methods)"

definition allow_header :: "('h, 'x) header_map_scheme \<Rightarrow> http_method list \<Rightarrow> string" where
  "allow_header H methods =
     (case join_names H (map as_wire_str (allow_methods methods)) of Some v \<Rightarrow> v | None \<Rightarrow> [])"

definition derive_allow :: "('h, 'x) header_map_scheme \<Rightarrow> ('h, 'i) path_entry \<Rightarrow> ('h, 'i) path_entry" where
  "derive_allow H e =
     e\<lparr>allow := allow_header H (map op_method (operations e) @ (if answers_options e then [Options] else []))\<rparr>"

definition push_new :: "http_method list \<Rightarrow> http_method \<Rightarrow> http_method list" where
  "push_new methods m = (if m \<in> set methods then methods else methods @ [m])"

definition implemented_by :: "http_method list \<Rightarrow> ('h, 'i) path_entry \<Rightarrow> http_method list" where
  "implemented_by methods e =
     (let methods = foldl (\<lambda>methods x. foldl push_new methods (op_method x # (if op_method x = Get then [Head] else [])))
                      methods (operations e)
      in if answers_options e then push_new methods Options else methods)"

definition implemented :: "('h, 'i) path_entry list \<Rightarrow> http_method list" where
  "implemented entries = foldl implemented_by [] entries"

datatype fallback_policy = Problem_fallback | Empty_fallback
datatype trailing_slash_policy = Strict | Redirect | Lenient

record ('h, 'i) dispatch =
  matcher :: "string \<Rightarrow> (nat \<times> (string \<Rightarrow> (nat \<times> nat) option)) option"
  entries :: "('h, 'i) path_entry list"
  observers :: "nat list"
  root_interceptors :: "('h, 'i) interceptor list"
  root_catches :: bool
  not_found :: fallback_policy
  method_not_allowed :: fallback_policy
  trailing_slashes :: trailing_slash_policy
  trusted :: trusted_proxies
  implements_methods :: "http_method list"
  links :: "(string \<times> string) list option"

datatype unanswered = No_path | No_method "nat option" | Plain_options nat

text \<open>What an observer is told: of a response its status, of a panic its payload.\<close>

datatype event =
    On_request "route option"
  | On_response nat "route option"
  | On_panic string "route option"
  | On_disconnect "route option"

definition tell :: "('h, 'i) dispatch \<Rightarrow> event \<Rightarrow> (nat \<times> event) list" where
  "tell D ev = map (\<lambda>n. (n, ev)) (observers D)"

section \<open>Fallbacks\<close>

text \<open>Besides the header map: \<open>HeaderValue::from_str\<close>, which accepts visible ASCII, and the length a body
  states, when it does.\<close>

record 'h http_ops = "'h header_map" +
  from_str :: "string \<Rightarrow> string option"
  exact_length :: "body \<Rightarrow> nat option"

definition flip_trailing_slash :: "string \<Rightarrow> string option" where
  "flip_trailing_slash p =
     (case strip_suffix ''/'' p of
        Some shorter \<Rightarrow> if shorter = [] then None else Some shorter
      | None \<Rightarrow> Some (p @ ''/''))"

definition fallback :: "('h, 'x) header_map_scheme \<Rightarrow> nat \<Rightarrow> fallback_policy \<Rightarrow> 'h response" where
  "fallback H st policy =
     (case policy of Problem_fallback \<Rightarrow> problem_response H st [] | Empty_fallback \<Rightarrow> bodiless H st)"

definition method_refusal :: "('h, 'x) header_map_scheme \<Rightarrow> string option \<Rightarrow> fallback_policy \<Rightarrow> 'h response" where
  "method_refusal H allowed policy =
     (case allowed of
        None \<Rightarrow> fallback H 501 policy
      | Some v \<Rightarrow>
          (let r = fallback H 405 policy in r\<lparr>headers := insert_field H (headers r) ''allow'' v\<rparr>))"

definition options_answer :: "('h, 'x) header_map_scheme \<Rightarrow> string \<Rightarrow> string \<Rightarrow> 'h response" where
  "options_answer H allowed accepted =
     (let r = bodiless H 200;
          fields = insert_field H (headers r) ''allow'' allowed;
          fields = insert_field H fields ''accept-query'' accepted;
          fields = insert_field H fields ''content-length'' ''0''
      in r\<lparr>headers := fields\<rparr>)"

definition redirect :: "('h, 'x) http_ops_scheme \<Rightarrow> string \<Rightarrow> string option \<Rightarrow> 'h response" where
  "redirect H p q =
     (let target = (case q of Some q \<Rightarrow> p @ ''?'' @ q | None \<Rightarrow> p);
          r = bodiless H 308
      in case from_str H target of
           Some location \<Rightarrow> r\<lparr>headers := insert_field H (headers r) ''location'' location\<rparr>
         | None \<Rightarrow> r)"

definition is_informational :: "nat \<Rightarrow> bool" where
  "is_informational st \<longleftrightarrow> 100 \<le> st \<and> st < 200"

definition without_content :: "('h, 'x) http_ops_scheme \<Rightarrow> 'h response \<Rightarrow> 'h response" where
  "without_content H r =
     (let bodiless = is_informational (status r) \<or> status r = 204 \<or> status r = 304;
          fields =
            (if \<not> bodiless \<and> get_all H (headers r) ''content-length'' = [] then
               (case exact_length H (body r) of
                  Some len \<Rightarrow> if len \<noteq> 0 then insert_field H (headers r) ''content-length'' (decimal len) else headers r
                | None \<Rightarrow> headers r)
             else headers r)
      in r\<lparr>headers := fields, body := Empty\<rparr>)"

definition untyped_query :: "('h, 'x) header_map_scheme \<Rightarrow> http_method \<Rightarrow> 'h request \<Rightarrow> bool" where
  "untyped_query H m r \<longleftrightarrow>
     m = Query \<and> list_all (\<lambda>v. trim_ascii v = []) (get_all H (request_headers r) ''content-type'')"

definition untyped_query_answer :: "('h, 'x) header_map_scheme \<Rightarrow> 'h request \<Rightarrow> 'h run" where
  "untyped_query_answer H r = Returned (plain_reply (problem_response H 400
     ''a `QUERY` request must name its content's media type in `Content-Type` (RFC 10008 section 2)''))"

definition with_accept_query :: "('h, 'x) header_map_scheme \<Rightarrow> string \<Rightarrow> 'h reply \<Rightarrow> 'h reply" where
  "with_accept_query H accepted r =
     (if media_refused r
      then (let out = response_of r
            in r\<lparr>media_refused := False,
                 response_of := out\<lparr>headers := insert_field H (headers out) ''accept-query'' accepted\<rparr>\<rparr>)
      else r)"

definition endpoint_terminal ::
  "('h, 'x) header_map_scheme \<Rightarrow> ('h request \<Rightarrow> 'h run) \<Rightarrow> string option \<Rightarrow> 'h request \<Rightarrow> 'h run" where
  "endpoint_terminal H endpoint accepted r =
     (case accepted of
        Some accepted \<Rightarrow>
          (case endpoint r of
             Returned reply \<Rightarrow> Returned (with_accept_query H accepted reply)
           | Panicked payload \<Rightarrow> Panicked payload)
      | None \<Rightarrow> endpoint r)"

section \<open>Routing\<close>

record location =
  location_path :: nat
  location_position :: nat

definition implements :: "('h, 'i) dispatch \<Rightarrow> http_method option \<Rightarrow> bool" where
  "implements D m \<longleftrightarrow> (case m of Some m \<Rightarrow> m \<in> set (implements_methods D) | None \<Rightarrow> False)"

definition forwarded_of :: "('h, 'x) header_map_scheme \<Rightarrow> ('h, 'i) dispatch \<Rightarrow> 'h request \<Rightarrow> forwarded" where
  "forwarded_of H D r =
     resolve_forwarded H (request_headers r)
       (case connected r of Some (in_process, peer) \<Rightarrow> if in_process then None else peer | None \<Rightarrow> None) (trusted D)"

definition route_at :: "('h, 'i) dispatch \<Rightarrow> location \<Rightarrow> route" where
  "route_at D at =
     (let e = entries D ! location_path at; x = operations e ! location_position at
      in \<lparr>route_template = entry_template e, route_operation = operation_id x, route_method = op_method x\<rparr>)"

definition unrouted ::
  "('h, 'x) header_map_scheme \<Rightarrow> ('h, 'i) dispatch \<Rightarrow> unanswered \<Rightarrow> 'h request \<Rightarrow>
   (nat \<times> event) list \<times> 'h request \<times> (unanswered + location)" where
  "unrouted H D u r =
     (let r = (if root_interceptors D \<noteq> [] then
                 r\<lparr>routed_to := Some \<lparr>matched_path = None, route_captures = None,
                     origin_of = forwarded_of H D r, is_secured = False, link_table = None\<rparr>\<rparr>
               else r)
      in (tell D (On_request None), r, Inl u))"

text \<open>\<open>route\<close>: \<open>None\<close> is the panic on an index the table does not hold, or a capture outside the path.\<close>

definition route_captured ::
  "('h, 'i) path_entry \<Rightarrow> 'h request \<Rightarrow> (string \<Rightarrow> (nat \<times> nat) option) \<Rightarrow> path_captures option option" where
  "route_captured e r captured =
     (if entry_variables e = [] then Some None
      else map_option Some (captures_new (uri_path r) (entry_variables e) captured))"

definition routed_request ::
  "('h, 'x) header_map_scheme \<Rightarrow> ('h, 'i) dispatch \<Rightarrow> ('h, 'i) path_entry \<Rightarrow> ('h, 'i) operation \<Rightarrow>
   path_captures option \<Rightarrow> 'h request \<Rightarrow> 'h request" where
  "routed_request H D e x cs r =
     r\<lparr>routed_to := Some \<lparr>matched_path = Some (entry_template e), route_captures = cs,
         origin_of = forwarded_of H D r, is_secured = op_secured x, link_table = links D\<rparr>\<rparr>"

definition route_request ::
  "('h, 'x) header_map_scheme \<Rightarrow> ('h, 'i) dispatch \<Rightarrow> 'h request \<Rightarrow>
   ((nat \<times> event) list \<times> 'h request \<times> (unanswered + location)) option" where
  "route_request H D r =
     (let m = from_wire_str (verb r)
      in case matcher D (uri_path r) of
           None \<Rightarrow> Some (unrouted H D (if implements D m then No_path else No_method None) r)
         | Some (index, captured) \<Rightarrow>
             if index \<ge> length (entries D) then None
             else
               let e = entries D ! index
               in case route_captured e r captured of
                    None \<Rightarrow> None
                  | Some cs \<Rightarrow>
                      (case Option.bind m (find_operation e) of
                         None \<Rightarrow>
                           if m = Some Options \<and> answers_options e then Some (unrouted H D (Plain_options index) r)
                           else Some (unrouted H D (No_method (if implements D m then Some index else None)) r)
                       | Some p \<Rightarrow>
                           let at = \<lparr>location_path = index, location_position = p\<rparr>
                           in Some (tell D (On_request (Some (route_at D at))),
                                    routed_request H D e (operations e ! p) cs r, Inr at)))"

section \<open>Serving\<close>

definition flipped :: "('h, 'i) dispatch \<Rightarrow> string \<Rightarrow> string option" where
  "flipped D p =
     (case flip_trailing_slash p of
        None \<Rightarrow> None
      | Some candidate \<Rightarrow> if matcher D candidate \<noteq> None then Some candidate else None)"

definition unmatched :: "('h, 'x) http_ops_scheme \<Rightarrow> ('h, 'i) dispatch \<Rightarrow> 'h request \<Rightarrow> 'h response" where
  "unmatched H D r =
     (case (if trailing_slashes D = Redirect then flipped D (uri_path r) else None) of
        Some target \<Rightarrow> redirect H target (uri_query r)
      | None \<Rightarrow> fallback H 404 (not_found D))"

definition answer_unrouted :: "('h, 'x) http_ops_scheme \<Rightarrow> ('h, 'i) dispatch \<Rightarrow> unanswered \<Rightarrow> 'h request \<Rightarrow> 'h response" where
  "answer_unrouted H D u r =
     (case u of
        No_path \<Rightarrow> unmatched H D r
      | No_method p \<Rightarrow> method_refusal H (map_option (\<lambda>i. allow (entries D ! i)) p) (method_not_allowed D)
      | Plain_options i \<Rightarrow>
          (let e = entries D ! i
           in case accept_query e of
                Some accepted \<Rightarrow> options_answer H (allow e) accepted
              | None \<Rightarrow> method_refusal H (Some (allow e)) (method_not_allowed D)))"

definition run_chain ::
  "('h, 'x) header_map_scheme \<Rightarrow> ('h, 'i) dispatch \<Rightarrow> ('h, 'i) interceptor list \<Rightarrow> ('h request \<Rightarrow> 'h run) \<Rightarrow>
   route option \<Rightarrow> bool \<Rightarrow> 'h request \<Rightarrow> (nat \<times> event) list \<times> 'h run" where
  "run_chain H D interceptors terminal at catches r =
     (let (events, outcome) =
        (if catches then
           (case recover (next_run interceptors terminal at r) of
              Inr reply \<Rightarrow> ([], Returned reply)
            | Inl payload \<Rightarrow> (tell D (On_panic payload at), Returned (panic_response H)))
         else ([], next_run interceptors terminal at r))
      in case outcome of
           Panicked payload \<Rightarrow> (events, Panicked payload)
         | Returned reply \<Rightarrow>
             (case take_recovered reply of
                (Some payload, reply) \<Rightarrow> (events @ tell D (On_panic payload at), Returned reply)
              | (None, reply) \<Rightarrow> (events, Returned reply)))"

definition run_operation ::
  "('h, 'x) header_map_scheme \<Rightarrow> ('h, 'i) dispatch \<Rightarrow> location \<Rightarrow> 'h request \<Rightarrow> (nat \<times> event) list \<times> 'h run" where
  "run_operation H D at r =
     (let x = operations (entries D ! location_path at) ! location_position at
      in run_chain H D (op_interceptors x)
           (if untyped_query H (op_method x) r then untyped_query_answer H else op_terminal x)
           (Some (route_at D at)) (op_catches x) r)"

text \<open>What leaves: the reply, and whether its body is watched, for the route told of.\<close>

record 'h served_reply =
  sent :: "'h response"
  watched_for :: "route option option"

definition finish ::
  "('h, 'x) http_ops_scheme \<Rightarrow> ('h, 'i) dispatch \<Rightarrow> 'h reply \<Rightarrow> location option \<Rightarrow> bool \<Rightarrow>
   (nat \<times> event) list \<times> 'h served_reply" where
  "finish H D reply at head =
     (let out = (if head then without_content H (response_of reply) else response_of reply);
          r = map_option (route_at D) at
      in if observers D = [] then ([], \<lparr>sent = out, watched_for = None\<rparr>)
         else (tell D (On_response (status out) r), \<lparr>sent = out, watched_for = Some r\<rparr>))"

definition on_delivery :: "('h, 'i) dispatch \<Rightarrow> 'h served_reply \<Rightarrow> delivery \<Rightarrow> (nat \<times> event) list" where
  "on_delivery D s d =
     (case watched_for s of
        None \<Rightarrow> []
      | Some r \<Rightarrow> if d = Complete then [] else tell D (On_disconnect r))"

text \<open>\<open>serve\<close>: what observers are told, then what leaves, or \<open>None\<close> where a panic nobody recovers, or an
  index the table does not hold, ends it.\<close>

definition serve ::
  "('h, 'x) http_ops_scheme \<Rightarrow> ('h, 'i) dispatch \<Rightarrow> 'h request \<Rightarrow> (nat \<times> event) list \<times> 'h served_reply option" where
  "serve H D r =
     (let head = (verb r = ''HEAD'')
      in case route_request H D r of
           None \<Rightarrow> ([], None)
         | Some (told, r, out) \<Rightarrow>
             let (events, outcome) =
               (case out of
                  Inl u \<Rightarrow>
                    if root_interceptors D = [] then ([], Returned (plain_reply (answer_unrouted H D u r)))
                    else run_chain H D (root_interceptors D)
                           (\<lambda>r. Returned (plain_reply (answer_unrouted H D u r))) None (root_catches D) r
                | Inr at \<Rightarrow> run_operation H D at r)
             in case outcome of
                  Panicked payload \<Rightarrow> (told @ events, None)
                | Returned reply \<Rightarrow>
                    let (last, leaving) = finish H D reply (case out of Inr at \<Rightarrow> Some at | Inl u \<Rightarrow> None) head
                    in (told @ events @ last, Some leaving))"

section \<open>Lemmas: methods\<close>

lemma from_wire_str_wire [simp]: "from_wire_str (as_wire_str m) = Some m"
  by (cases m) (simp_all add: from_wire_str_def all_methods_def)

lemma from_wire_str_Some: "from_wire_str s = Some m \<longleftrightarrow> s = as_wire_str m"
proof
  assume "from_wire_str s = Some m"
  then show "s = as_wire_str m" by (auto simp: from_wire_str_def find_Some_iff)
qed simp

lemma as_wire_str_inject [simp]: "as_wire_str a = as_wire_str b \<longleftrightarrow> a = b"
  by (metis from_wire_str_wire option.inject)

lemma wire_text: "as_wire_str m \<noteq> [] \<and> CHR '','' \<notin> set (as_wire_str m) \<and> list_all is_visible (as_wire_str m)
    \<and> trim_ascii (as_wire_str m) = as_wire_str m"
  by (cases m) (simp_all add: bytes_simps trim_ascii_def trim_with_def trim_end_with_def is_ascii_ws_def)

section \<open>Lemmas: captures\<close>

lemma narrow_Some:
  assumes "fst s < 2 ^ LENGTH('w::len)" "snd s < 2 ^ LENGTH('w)"
  shows "narrow s = Some (of_nat (fst s) :: 'w word, of_nat (snd s))"
  using assms by (simp add: narrow_def)

lemma slot_reads:
  assumes "length p < 2 ^ LENGTH('w::len)" "\<And>i j. captured n = Some (i, j) \<Longrightarrow> i \<le> j \<and> j \<le> length p"
  shows "str_get p (unat (fst (captured_slot captured n :: 'w word \<times> 'w word))) (unat (snd (captured_slot captured n :: 'w word \<times> 'w word)))
    = Option.bind (captured n) (\<lambda>(i, j). str_get p i j)"
proof (cases "captured n")
  case None
  have "\<not> unat (- 1 :: 'w word) \<le> unat (0 :: 'w word)" by (simp add: unat_gt_0)
  then show ?thesis using None by (simp add: captured_slot_def str_get_def)
next
  case (Some s)
  obtain i j where s: "s = (i, j)" by fastforce
  have b: "i < 2 ^ LENGTH('w)" "j < 2 ^ LENGTH('w)" using assms(1) assms(2) [of i j] Some s by auto
  then show ?thesis using Some s by (simp add: captured_slot_def narrow_Some unat_of_nat)
qed

text \<open>What a capture record yields is what the matcher captured, however the spans are held.\<close>

lemma captures_exact:
  assumes "captures_new p names captured = Some c" "n \<in> set names" "length p < 2 ^ 32"
  shows "captures_get c p n = Option.bind (captured n) (\<lambda>(i, j). str_get p i j)"
proof -
  obtain k where k: "position (\<lambda>x. x = n) names = Some k"
    using assms(2) position_None [of "\<lambda>x. x = n" names] by (cases "position (\<lambda>x. x = n) names") auto
  then have nth: "k < length names" "names ! k = n" by (auto simp: position_Some)
  have within: "captured n = Some (i, j) \<Longrightarrow> i \<le> j \<and> j \<le> length p" for i j
    using assms(1,2) by (auto simp: captures_new_def list_ex_iff split: if_splits)
  show ?thesis
  proof (cases "length names \<le> INLINE \<and> length p \<le> u16_max")
    case True
    then have "length p < 2 ^ LENGTH(16)" by (simp add: u16_max_def)
    from slot_reads [OF this within] show ?thesis
      using assms(1) True k nth by (auto simp: captures_new_def captures_get_def nth_append split: if_splits)
  next
    case False
    have "length p < 2 ^ LENGTH(32)" using assms(3) by simp
    from slot_reads [OF this within] show ?thesis
      using assms(1) False k nth by (auto simp: captures_new_def captures_get_def split: if_splits)
  qed
qed

section \<open>Lemmas: the route table\<close>

text \<open>The methods a path answers, said without the table's order.\<close>

definition answers :: "('h, 'i) path_entry \<Rightarrow> http_method \<Rightarrow> bool" where
  "answers e m \<longleftrightarrow>
     m \<in> op_method ` set (operations e) \<or> m = Head \<and> Get \<in> op_method ` set (operations e) \<or>
     m = Options \<and> accept_query e \<noteq> None"

lemma position_method: "position (\<lambda>x. op_method x = m) xs = None \<longleftrightarrow> m \<notin> op_method ` set xs"
  by (auto simp: position_None)

lemma find_operation_None:
  "find_operation e m = None \<longleftrightarrow>
   m \<notin> op_method ` set (operations e) \<and> (m = Head \<longrightarrow> Get \<notin> op_method ` set (operations e))"
  by (auto simp: find_operation_def split: option.splits simp flip: position_method)

lemma answers_find: "answers e m \<longleftrightarrow> find_operation e m \<noteq> None \<or> m = Options \<and> answers_options e"
  unfolding answers_def answers_options_def find_operation_None by auto

lemma find_operation_in: "find_operation e m = Some p \<Longrightarrow> p < length (operations e)"
  by (auto simp: find_operation_def position_Some split: option.splits if_splits)

lemma set_allow_methods: "set (allow_methods ms) = set ms \<union> (if Get \<in> set ms then {Head} else {})"
  by (auto simp: allow_methods_def)

text \<open>The methods a list of them in a field names.\<close>

definition named_methods :: "string \<Rightarrow> http_method list" where
  "named_methods v = filter_map from_wire_str (filter (\<lambda>m. m \<noteq> []) (map trim_ascii (split CHR '','' v)))"

lemma filter_map_wire [simp]: "filter_map from_wire_str (map as_wire_str ms) = ms"
  by (induction ms) simp_all

lemma named_methods_join: "named_methods (join '', '' (map as_wire_str ms)) = ms"
proof (cases "ms = []")
  case False
  have "filter (\<lambda>m. m \<noteq> []) (map trim_ascii (split CHR '','' (join '', '' (map as_wire_str ms)))) = map as_wire_str ms"
    by (rule members_of_joined) (use wire_text False in auto)
  then show ?thesis by (simp only: named_methods_def filter_map_wire)
qed (simp add: named_methods_def trim_ascii_def trim_with_def trim_end_with_def)

lemma join_names_wire:
  assumes "header_map_laws H"
  shows "join_names H (map as_wire_str ms) = (if ms = [] then None else Some (join '', '' (map as_wire_str ms)))"
proof -
  have "list_all is_visible (join '', '' (map as_wire_str ms))"
    using set_join [of "'', ''" "map as_wire_str ms"] wire_text
    by (fastforce simp: list_all_iff bytes_simps)
  then show ?thesis using header_map_lawsD(7) [OF assms] by (simp add: join_names_join)
qed

lemma named_methods_allow: "header_map_laws H \<Longrightarrow> named_methods (allow_header H ms) = allow_methods ms"
  using named_methods_join [of "[]"] by (simp add: allow_header_def join_names_wire named_methods_join)

lemma allow_exact:
  assumes "header_map_laws H"
  shows "set (named_methods (allow (derive_allow H e))) = {m. answers e m}"
  using assms by (auto simp: derive_allow_def named_methods_allow set_allow_methods answers_def answers_options_def find_operation_None)

lemma set_push_new [simp]: "set (push_new ms m) = insert m (set ms)"
  by (auto simp: push_new_def)

lemma set_foldl_push: "set (foldl push_new ms xs) = set ms \<union> set xs"
  by (induction xs arbitrary: ms) auto

lemma set_implemented_by: "set (implemented_by ms e) = set ms \<union> {m. answers e m}"
proof -
  have "set (foldl (\<lambda>ms x. foldl push_new ms (op_method x # (if op_method x = Get then [Head] else []))) ms xs)
      = set ms \<union> op_method ` set xs \<union> (if Get \<in> op_method ` set xs then {Head} else {})" for xs :: "('a, 'b) operation list"
    by (induction xs arbitrary: ms) (auto simp: set_foldl_push)
  then show ?thesis
    unfolding implemented_by_def Let_def
    by (auto simp: answers_def answers_options_def find_operation_None simp del: foldl.simps)
qed

lemma set_implemented: "set (implemented es) = {m. \<exists>e\<in>set es. answers e m}"
proof -
  have "set (foldl implemented_by ms es) = set ms \<union> {m. \<exists>e\<in>set es. answers e m}" for ms
    by (induction es arbitrary: ms) (auto simp: set_implemented_by)
  then show ?thesis by (simp add: implemented_def)
qed

section \<open>Lemmas: routing\<close>

text \<open>What \<open>build\<close> makes: every path's \<open>Allow\<close> and the methods the service implements are derived from
  its operations, and the match table names paths of the table and spans of the path it matched.\<close>

definition built :: "('h, 'x) header_map_scheme \<Rightarrow> ('h, 'i) dispatch \<Rightarrow> bool" where
  "built H D \<longleftrightarrow>
     list_all (\<lambda>e. allow e = allow (derive_allow H e)) (entries D) \<and>
     implements_methods D = implemented (entries D) \<and>
     (\<forall>p. case matcher D p of
            None \<Rightarrow> True
          | Some (i, captured) \<Rightarrow>
              i < length (entries D) \<and>
              list_all (\<lambda>n. case captured n of None \<Rightarrow> True | Some (s, e) \<Rightarrow> s \<le> e \<and> e \<le> length p)
                (entry_variables (entries D ! i)))"

lemma builtD:
  assumes "built H D"
  shows "e \<in> set (entries D) \<Longrightarrow> allow e = allow (derive_allow H e)"
    and "implements_methods D = implemented (entries D)"
    and "matcher D p = Some (i, captured) \<Longrightarrow> i < length (entries D)"
    and "matcher D (uri_path r) = Some (i, captured) \<Longrightarrow> route_captured (entries D ! i) r captured \<noteq> None"
proof -
  note b = assms [unfolded built_def]
  have table: "case matcher D p of
            None \<Rightarrow> True
          | Some (i, captured) \<Rightarrow>
              i < length (entries D) \<and>
              list_all (\<lambda>n. case captured n of None \<Rightarrow> True | Some (s, e) \<Rightarrow> s \<le> e \<and> e \<le> length p)
                (entry_variables (entries D ! i))" for p using b by blast
  show "e \<in> set (entries D) \<Longrightarrow> allow e = allow (derive_allow H e)" "implements_methods D = implemented (entries D)"
    using b by (auto simp: list_all_iff)
  show "matcher D p = Some (i, captured) \<Longrightarrow> i < length (entries D)" using table [of p] by simp
  assume m: "matcher D (uri_path r) = Some (i, captured)"
  have "list_all (\<lambda>n. case captured n of None \<Rightarrow> True | Some (s, e) \<Rightarrow> s \<le> e \<and> e \<le> length (uri_path r)) (entry_variables (entries D ! i))"
    using table [of "uri_path r"] m by simp
  then show "route_captured (entries D ! i) r captured \<noteq> None"
    by (auto simp: route_captured_def captures_new_def list_all_iff list_ex_iff split: option.splits)
qed

text \<open>Whether a request is answered: by an operation, or by the path's own answer to a plain \<open>OPTIONS\<close>.\<close>

definition answered :: "('h, 'x) header_map_scheme \<Rightarrow> ('h, 'i) dispatch \<Rightarrow> 'h request \<Rightarrow> bool" where
  "answered H D r \<longleftrightarrow>
     (case route_request H D r of
        Some (_, _, Inr _) \<Rightarrow> True
      | Some (_, _, Inl (Plain_options _)) \<Rightarrow> True
      | _ \<Rightarrow> False)"

text \<open>Where routing sends a request.\<close>

definition destination :: "('h, 'i) dispatch \<Rightarrow> 'h request \<Rightarrow> unanswered + location" where
  "destination D r =
     (case matcher D (uri_path r) of
        None \<Rightarrow> Inl (if implements D (from_wire_str (verb r)) then No_path else No_method None)
      | Some (i, _) \<Rightarrow>
          (case Option.bind (from_wire_str (verb r)) (find_operation (entries D ! i)) of
             Some p \<Rightarrow> Inr \<lparr>location_path = i, location_position = p\<rparr>
           | None \<Rightarrow>
               if from_wire_str (verb r) = Some Options \<and> answers_options (entries D ! i) then Inl (Plain_options i)
               else Inl (No_method (if implements D (from_wire_str (verb r)) then Some i else None))))"

lemma unrouted_request:
  obtains r' where "unrouted H D u r = (tell D (On_request None), r', Inl u)" "uri_path r' = uri_path r" "uri_query r' = uri_query r"
  by (cases "root_interceptors D = []") (auto simp: unrouted_def Let_def)

lemma route_destination:
  assumes "built H D"
  obtains told r' where "route_request H D r = Some (told, r', destination D r)"
    "uri_path r' = uri_path r" "uri_query r' = uri_query r"
proof (cases "matcher D (uri_path r)")
  case None
  let ?u = "if implements D (from_wire_str (verb r)) then No_path else No_method None"
  obtain r' where "unrouted H D ?u r = (tell D (On_request None), r', Inl ?u)" "uri_path r' = uri_path r" "uri_query r' = uri_query r"
    by (rule unrouted_request)
  then show ?thesis using None by (intro that [of "tell D (On_request None)" r']) (simp_all add: route_request_def destination_def Let_def)
next
  case (Some m)
  obtain i captured where m: "m = (i, captured)" by fastforce
  note within = builtD(3,4) [OF assms Some [unfolded m]]
  then obtain cs where cs: "route_captured (entries D ! i) r captured = Some cs" by auto
  show ?thesis
  proof (cases "Option.bind (from_wire_str (verb r)) (find_operation (entries D ! i))")
    case None
    let ?u = "if from_wire_str (verb r) = Some Options \<and> answers_options (entries D ! i) then Plain_options i
      else No_method (if implements D (from_wire_str (verb r)) then Some i else None)"
    obtain r' where "unrouted H D ?u r = (tell D (On_request None), r', Inl ?u)" "uri_path r' = uri_path r" "uri_query r' = uri_query r"
      by (rule unrouted_request)
    then show ?thesis
      using within None by (intro that [of "tell D (On_request None)" r']) (auto simp: route_request_def destination_def Some m cs Let_def split: if_splits)
  next
    case at: (Some p)
    show ?thesis
      by (rule that [of "tell D (On_request (Some (route_at D \<lparr>location_path = i, location_position = p\<rparr>)))"
            "routed_request H D (entries D ! i) (operations (entries D ! i) ! p) cs r"])
         (use within in \<open>simp_all add: route_request_def destination_def Some m cs at routed_request_def Let_def\<close>)
  qed
qed

lemma answered_iff:
  assumes "built H D"
  shows "answered H D r \<longleftrightarrow>
    (\<exists>i captured m. matcher D (uri_path r) = Some (i, captured) \<and> from_wire_str (verb r) = Some m \<and> answers (entries D ! i) m)"
proof -
  obtain told r' where r: "route_request H D r = Some (told, r', destination D r)" by (rule route_destination [OF assms])
  show ?thesis
    by (auto simp: answered_def r destination_def answers_find split: option.splits bind_splits)
qed

lemma implements_iff:
  assumes "built H D"
  shows "implements D (from_wire_str (verb r)) \<longleftrightarrow>
    (\<exists>m. from_wire_str (verb r) = Some m \<and> (\<exists>e\<in>set (entries D). answers e m))"
  by (auto simp: implements_def builtD(2) [OF assms] set_implemented split: option.splits)

lemma not_implemented_unanswered:
  assumes "built H D" "\<not> implements D (from_wire_str (verb r))"
  shows "\<not> answered H D (r\<lparr>uri_path := q\<rparr>)"
  using assms builtD(3) [OF assms(1)] by (auto simp: answered_iff implements_iff)

lemma allow_answered:
  assumes "header_map_laws H" "built H D" "matcher D (uri_path r) = Some (i, captured)"
  shows "m \<in> set (named_methods (allow (entries D ! i))) \<longleftrightarrow> answered H D (r\<lparr>verb := as_wire_str m\<rparr>)"
proof -
  have "allow (entries D ! i) = allow (derive_allow H (entries D ! i))"
    using builtD(1,3) [OF assms(2)] assms(3) by simp
  then show ?thesis using assms(3) by (simp add: answered_iff [OF assms(2)] allow_exact [OF assms(1)])
qed

section \<open>Lemmas: responses\<close>

lemma status_fallback [simp]: "status (fallback H st policy) = st"
  by (cases policy) (simp_all add: fallback_def problem_response_def bodiless_def)

lemma fields_fallback:
  "header_map_laws H \<Longrightarrow> get_all H (headers (fallback H st policy)) n =
    (if policy = Problem_fallback \<and> n = ''content-type'' then [''application/problem+json''] else [])"
  by (cases policy) (simp_all add: fallback_def problem_response_def bodiless_def header_map_lawsD)

lemma status_without_content [simp]: "status (without_content H r) = status r"
  by (simp add: without_content_def Let_def)

lemma fields_without_content:
  "header_map_laws H \<Longrightarrow> n \<noteq> ''content-length'' \<Longrightarrow>
    get_all H (headers (without_content H r)) n = get_all H (headers r) n"
  by (simp add: without_content_def Let_def header_map_lawsD split: option.splits)

lemma serve_unanswered:
  assumes "built H D" "root_interceptors D = []" "destination D r = Inl u"
  obtains told leaving where "serve H D r = (told, Some leaving)"
    "sent leaving = (if verb r = ''HEAD'' then without_content H (answer_unrouted H D u r) else answer_unrouted H D u r)"
proof -
  obtain told r' where r: "route_request H D r = Some (told, r', Inl u)" "uri_path r' = uri_path r" "uri_query r' = uri_query r"
    by (rule route_destination [OF assms(1), of r]) (simp add: assms(3))
  have a: "answer_unrouted H D u r' = answer_unrouted H D u r"
  proof -
    have "unmatched H D r' = unmatched H D r" by (simp only: unmatched_def r)
    then show ?thesis unfolding answer_unrouted_def by (cases u) simp_all
  qed
  let ?finish = "finish H D (plain_reply (answer_unrouted H D u r)) None (verb r = ''HEAD'')"
  show ?thesis
    by (rule that [of "told @ fst ?finish" "snd ?finish"])
       (simp_all add: serve_def r(1) assms(2) finish_def plain_reply_def a Let_def)
qed

lemma refused_cases:
  assumes "built H D" "\<not> answered H D r"
  obtains (unmatched) "destination D r = Inl No_path" "matcher D (uri_path r) = None"
  | (nowhere) "destination D r = Inl (No_method None)" "\<not> implements D (from_wire_str (verb r))"
  | (elsewhere) i captured where "destination D r = Inl (No_method (Some i))" "matcher D (uri_path r) = Some (i, captured)"
proof -
  obtain told r' where r: "route_request H D r = Some (told, r', destination D r)" by (rule route_destination [OF assms(1)])
  show ?thesis
  proof (cases "matcher D (uri_path r)")
    case None
    then show ?thesis using unmatched nowhere by (cases "implements D (from_wire_str (verb r))") (simp_all add: destination_def)
  next
    case (Some m)
    then obtain i captured where m: "matcher D (uri_path r) = Some (i, captured)" by (cases m) simp
    show ?thesis
      using assms(2) r nowhere elsewhere [of i captured] m
      by (simp add: answered_def destination_def split: option.splits if_splits)
  qed
qed

lemma refusal_fields:
  assumes "header_map_laws H"
  shows "status (method_refusal H allowed policy) = (if allowed = None then 501 else 405)"
    and "get_all H (headers (method_refusal H allowed policy)) ''allow'' = (case allowed of Some v \<Rightarrow> [v] | None \<Rightarrow> [])"
  using assms by (simp_all add: method_refusal_def Let_def header_map_lawsD fields_fallback split: option.splits)

lemma unmatched_cases:
  "status (unmatched H D r) = 404 \<or>
   status (unmatched H D r) = 308 \<and> trailing_slashes D = Redirect \<and>
     (\<exists>p. flip_trailing_slash (uri_path r) = Some p \<and> matcher D p \<noteq> None)"
proof (cases "if trailing_slashes D = Redirect then flipped D (uri_path r) else None")
  case None
  then show ?thesis by (simp add: unmatched_def)
next
  case (Some p)
  then have "status (unmatched H D r) = 308" by (simp add: unmatched_def redirect_def bodiless_def Let_def split: option.splits)
  then show ?thesis using Some by (auto simp: flipped_def split: option.splits if_splits)
qed

section \<open>Properties\<close>


text \<open>A service of one path, for the witness: a \<open>GET\<close> at \<open>/a\<close> that returns 200.\<close>

definition fun_http :: "(string \<Rightarrow> string list) http_ops" where
  "fun_http = header_map.extend fun_headers
     \<lparr>from_str = (\<lambda>v. if list_all is_visible v then Some v else None),
      exact_length = (\<lambda>b. case b of Empty \<Rightarrow> Some 0 | Octets s \<Rightarrow> Some (length s) | _ \<Rightarrow> None)\<rparr>"

lemma fun_http_laws: "header_map_laws fun_http"
  by (simp add: header_map_laws_def fun_http_def fun_headers_def header_map.defs split: if_splits)

definition sample_entry :: "(string \<Rightarrow> string list, unit) path_entry" where
  "sample_entry = derive_allow fun_http
     \<lparr>entry_template = ''/a'', entry_variables = [], allow = [], accept_query = None,
      operations = [\<lparr>op_method = Get, operation_id = ''a'',
        op_terminal = (\<lambda>r. Returned (plain_reply (bodiless fun_http 200))),
        op_interceptors = [], op_catches = False, op_secured = False\<rparr>]\<rparr>"

definition sample_dispatch :: "(string \<Rightarrow> string list, unit) dispatch" where
  "sample_dispatch =
     \<lparr>matcher = (\<lambda>p. if p = ''/a'' then Some (0, \<lambda>_. None) else None), entries = [sample_entry], observers = [0],
      root_interceptors = [], root_catches = False, not_found = Problem_fallback, method_not_allowed = Problem_fallback,
      trailing_slashes = Redirect, trusted = trust_none, implements_methods = implemented [sample_entry], links = None\<rparr>"

definition sample_request :: "string \<Rightarrow> string \<Rightarrow> (string \<Rightarrow> string list) request" where
  "sample_request m p = \<lparr>verb = m, uri_authority = None, uri_path = p, uri_query = None, request_headers = (\<lambda>_. []), connected = None, routed_to = None\<rparr>"

lemma sample_built: "built fun_http sample_dispatch"
  by (simp add: built_def sample_dispatch_def sample_entry_def derive_allow_def answers_options_def find_operation_def)


section \<open>Lemmas: what observers are told\<close>

definition told_to :: "nat \<Rightarrow> (nat \<times> event) list \<Rightarrow> event list" where
  "told_to n events = map snd (filter (\<lambda>e. fst e = n) events)"

lemma told_to_append [simp]: "told_to n (a @ b) = told_to n a @ told_to n b"
  by (simp add: told_to_def)

lemma told_to_Nil [simp]: "told_to n [] = []"
  by (simp add: told_to_def)

lemma told_to_tell: "distinct (observers D) \<Longrightarrow> n \<in> set (observers D) \<Longrightarrow> told_to n (tell D ev) = [ev]"
proof -
  have "map snd (filter (\<lambda>e. fst e = n) (map (\<lambda>n. (n, ev)) xs)) = [ev]" if "distinct xs" "n \<in> set xs" for xs
    using that by (induction xs) (auto simp: filter_empty_conv)
  then show "distinct (observers D) \<Longrightarrow> n \<in> set (observers D) \<Longrightarrow> told_to n (tell D ev) = [ev]"
    by (simp add: told_to_def tell_def)
qed

text \<open>A chain reports at most one panic, and never lets the mark of a recovered one out.\<close>

lemma run_chain_reports:
  assumes "distinct (observers D)" "n \<in> set (observers D)"
    and "run_chain H D interceptors terminal at catches r = (events, Returned reply)"
  shows "recovered reply = None \<and> (told_to n events = [] \<or> (\<exists>payload. told_to n events = [On_panic payload at]))"
  using assms(3)
  by (auto simp: run_chain_def recover_def take_recovered_def panic_response_def plain_reply_def told_to_tell [OF assms(1,2)]
           split: run.splits option.splits if_splits prod.splits)

text \<open>Each observer of a request that gets a response is told of the request, of at most one panic and of the
  response, in that order and of one route.\<close>

theorem observers_told:
  assumes "distinct (observers D)" "n \<in> set (observers D)" "serve H D r = (events, Some leaving)"
  shows "\<exists>route panics. told_to n events = On_request route # panics @ [On_response (status (sent leaving)) route] \<and>
    (panics = [] \<or> (\<exists>payload. panics = [On_panic payload route])) \<and> watched_for leaving = Some route"
proof -
  note told = told_to_tell [OF assms(1,2)]
  have obs: "observers D \<noteq> []" using assms(2) by auto
  obtain told r' out where r: "route_request H D r = Some (told, r', out)"
    using assms(3) by (cases "route_request H D r") (auto simp: serve_def Let_def)
  let ?at = "case out of Inr at \<Rightarrow> Some at | Inl u \<Rightarrow> None"
  let ?route = "map_option (route_at D) ?at"
  have first: "told = tell D (On_request ?route)"
    using r by (auto simp: route_request_def unrouted_def Let_def split: option.splits if_splits prod.splits)
  let ?outcome = "case out of
      Inl u \<Rightarrow>
        if root_interceptors D = [] then ([], Returned (plain_reply (answer_unrouted H D u r')))
        else run_chain H D (root_interceptors D)
               (\<lambda>r. Returned (plain_reply (answer_unrouted H D u r))) None (root_catches D) r'
    | Inr at \<Rightarrow> run_operation H D at r'"
  obtain middle reply where mid: "?outcome = (middle, Returned reply)"
    and last: "events = told @ middle @ fst (finish H D reply ?at (verb r = ''HEAD''))"
      "leaving = snd (finish H D reply ?at (verb r = ''HEAD''))"
    using assms(3) r by (auto simp: serve_def Let_def split: prod.splits run.splits)
  have "told_to n middle = [] \<or> (\<exists>payload. told_to n middle = [On_panic payload ?route])"
  proof (cases out)
    case (Inl u)
    then show ?thesis using mid run_chain_reports [OF assms(1,2)] by (fastforce split: if_splits)
  next
    case (Inr at)
    then show ?thesis using mid run_chain_reports [OF assms(1,2)] by (fastforce simp: run_operation_def Let_def)
  qed
  then show ?thesis using obs by (auto simp: first last finish_def told Let_def)
qed

end
