(* ===== verification/Cors.thy ===== *)
theory Cors
  imports Dispatch
begin

text \<open>
  Cross-origin resource sharing (\<open>src/crates/kynos/src/middleware/cors/mod.rs\<close>, \<open>preflight.rs\<close>): the
  configuration, the fields a response gets, the answer to a preflight, and the \<open>OPTIONS\<close> operations the
  router installs to give it (\<open>src/crates/kynos/src/router/install.rs\<close>). What the router reads of an
  interceptor as a value is its identity, a number standing for the \<open>Arc\<close>'s address, and its CORS
  configuration when it is one.
\<close>

section \<open>Configuration\<close>

record cors_config =
  cors_origins :: "string list"
  origin_predicates :: "(string \<Rightarrow> bool) list"
  any_origin :: bool
  any_header :: bool
  any_expose :: bool
  credentials :: bool
  expose :: "string list"
  methods_override :: "http_method list option"
  permitted_headers :: "string list"
  max_age :: "nat option"

definition cors_new :: cors_config where
  "cors_new = \<lparr>cors_origins = [], origin_predicates = [], any_origin = False, any_header = False, any_expose = False,
     credentials = False, expose = [], methods_override = None, permitted_headers = [], max_age = None\<rparr>"

datatype middleware_error = CredentialedWildcardOrigin | CredentialedWildcardExposure

definition conflict :: "cors_config \<Rightarrow> middleware_error option" where
  "conflict c =
     (if any_origin c \<and> credentials c then Some CredentialedWildcardOrigin
      else if any_expose c \<and> credentials c then Some CredentialedWildcardExposure
      else None)"

definition permits :: "('h, 'x) header_map_scheme \<Rightarrow> cors_config \<Rightarrow> string \<Rightarrow> bool" where
  "permits H c origin \<longleftrightarrow>
     any_origin c \<or>
     (case to_str H origin of
        None \<Rightarrow> False
      | Some origin \<Rightarrow>
          list_ex (\<lambda>permitted. eq_nocase permitted origin) (cors_origins c) \<or>
          list_ex (\<lambda>permits. permits origin) (origin_predicates c))"

definition allow_origin_value :: "cors_config \<Rightarrow> string \<Rightarrow> string" where
  "allow_origin_value c origin = (if any_origin c \<and> \<not> credentials c then ''*'' else origin)"

definition exposed :: "('h, 'x) header_map_scheme \<Rightarrow> cors_config \<Rightarrow> string option" where
  "exposed H c = (if any_expose c then Some ''*'' else join_names H (expose c))"

section \<open>The response's fields\<close>

record cors_headers =
  told_origin :: "string option"
  told_credentials :: bool
  told_expose :: "string option"

definition headers_for :: "('h, 'x) header_map_scheme \<Rightarrow> cors_config \<Rightarrow> 'h \<Rightarrow> cors_headers" where
  "headers_for H c hs =
     (case get_first H hs ''origin'' of
        None \<Rightarrow> \<lparr>told_origin = None, told_credentials = False, told_expose = None\<rparr>
      | Some origin \<Rightarrow>
          if \<not> permits H c origin then \<lparr>told_origin = None, told_credentials = False, told_expose = None\<rparr>
          else \<lparr>told_origin = Some (allow_origin_value c origin), told_credentials = credentials c,
                told_expose = exposed H c\<rparr>)"

definition cors_encode :: "cors_headers \<Rightarrow> (string \<times> string) list" where
  "cors_encode t =
     (case told_origin t of
        None \<Rightarrow> []
      | Some origin \<Rightarrow>
          (''access-control-allow-origin'', origin)
          # (if told_credentials t then [(''access-control-allow-credentials'', ''true'')] else [])
          @ (case told_expose t of Some v \<Rightarrow> [(''access-control-expose-headers'', v)] | None \<Rightarrow> []))"

definition cors_group :: "cors_headers \<Rightarrow> group" where
  "cors_group t = \<lparr>encoded = Some (cors_encode t), repeatable = False, varies = [''origin'']\<rparr>"

definition cors_intercept ::
  "('h, 'x) header_map_scheme \<Rightarrow> cors_config \<Rightarrow> route option \<Rightarrow> ('h request \<Rightarrow> 'h run) \<Rightarrow> 'h request \<Rightarrow> 'h run" where
  "cors_intercept H c at next r =
     (let told = headers_for H c (request_headers r)
      in case next r of
           Panicked payload \<Rightarrow> Panicked payload
         | Returned reply \<Rightarrow>
             Returned (reply\<lparr>response_of := write_or_refuse H (response_of reply) (cors_group told)\<rparr>))"

section \<open>Preflights\<close>

definition PREFLIGHT_VARIES :: "string list" where
  "PREFLIGHT_VARIES = [''origin'', ''access-control-request-method'', ''access-control-request-headers'']"

record scope =
  scope_config :: cors_config
  covered :: "http_method list"
  advertised :: "http_method list"

definition scope_new :: "cors_config \<Rightarrow> http_method list \<Rightarrow> scope" where
  "scope_new c ms =
     \<lparr>scope_config = c, covered = ms, advertised = (case methods_override c of Some o' \<Rightarrow> o' | None \<Rightarrow> ms)\<rparr>"

definition names :: "http_method list \<Rightarrow> string \<Rightarrow> bool" where
  "names methods proposed \<longleftrightarrow> list_ex (\<lambda>m. eq_nocase proposed (as_wire_str m)) methods"

definition covers :: "scope \<Rightarrow> string \<Rightarrow> bool" where
  "covers s proposed = names (covered s) proposed"

definition overrides_for :: "scope \<Rightarrow> string \<Rightarrow> bool" where
  "overrides_for s proposed =
     (case methods_override (scope_config s) of Some methods \<Rightarrow> names methods proposed | None \<Rightarrow> False)"

record preflight =
  scopes :: "scope list"
  served_methods :: "http_method list"
  plain_allow :: "string option"
  plain_fallback :: fallback_policy
  plain_accept_query :: "string option"

definition preflight_new ::
  "scope list \<Rightarrow> http_method list \<Rightarrow> string option \<Rightarrow> fallback_policy \<Rightarrow> string option \<Rightarrow> preflight" where
  "preflight_new ss served_ms allowed policy accepted =
     (let uncovered = filter (\<lambda>m. \<not> list_ex (\<lambda>s. m \<in> set (covered s)) ss) served_ms
      in \<lparr>scopes = map (\<lambda>s. s\<lparr>advertised := filter (\<lambda>m. m \<notin> set uncovered) (advertised s)\<rparr>) ss,
          served_methods = served_ms, plain_allow = allowed, plain_fallback = policy, plain_accept_query = accepted\<rparr>)"

definition scope_for :: "preflight \<Rightarrow> string \<Rightarrow> scope option" where
  "scope_for p m =
     (case find (\<lambda>s. covers s m) (scopes p) of
        Some covering \<Rightarrow> Some covering
      | None \<Rightarrow> if names (served_methods p) m then None else find (\<lambda>s. overrides_for s m) (scopes p))"

definition advertised_methods :: "('h, 'x) header_map_scheme \<Rightarrow> http_method list \<Rightarrow> string option" where
  "advertised_methods H ms = join_names H (map as_wire_str ms)"

definition advertised_headers :: "('h, 'x) header_map_scheme \<Rightarrow> cors_config \<Rightarrow> 'h \<Rightarrow> string option" where
  "advertised_headers H c hs =
     (if any_header c then
        (if credentials c then get_first H hs ''access-control-request-headers'' else Some ''*, authorization'')
      else join_names H (permitted_headers c))"

definition not_a_preflight :: "('h, 'x) header_map_scheme \<Rightarrow> preflight \<Rightarrow> 'h response" where
  "not_a_preflight H p =
     (case (plain_allow p, plain_accept_query p) of
        (Some allowed, Some accepted) \<Rightarrow> options_answer H allowed accepted
      | _ \<Rightarrow> method_refusal H (plain_allow p) (plain_fallback p))"

definition insert_when :: "('h, 'x) header_map_scheme \<Rightarrow> string \<Rightarrow> string option \<Rightarrow> 'h \<Rightarrow> 'h" where
  "insert_when H n v hs = (case v of Some v \<Rightarrow> insert_field H hs n v | None \<Rightarrow> hs)"

definition granted_fields :: "('h, 'x) header_map_scheme \<Rightarrow> scope \<Rightarrow> string \<Rightarrow> 'h \<Rightarrow> 'h \<Rightarrow> 'h" where
  "granted_fields H s origin asked hs =
     (let c = scope_config s;
          hs = insert_field H hs ''access-control-allow-origin'' (allow_origin_value c origin);
          hs = insert_when H ''access-control-allow-credentials'' (if credentials c then Some ''true'' else None) hs;
          hs = insert_when H ''access-control-allow-methods'' (advertised_methods H (advertised s)) hs;
          hs = insert_when H ''access-control-allow-headers'' (advertised_headers H c asked) hs
      in insert_when H ''access-control-max-age'' (map_option (\<lambda>d. decimal (whole_seconds d)) (max_age c)) hs)"

definition preflight_answer :: "('h, 'x) header_map_scheme \<Rightarrow> preflight \<Rightarrow> 'h request \<Rightarrow> 'h response" where
  "preflight_answer H p r =
     (let asked = request_headers r
      in case (get_first H asked ''origin'', get_first H asked ''access-control-request-method'') of
           (Some origin, Some requested_method) \<Rightarrow>
             let out = bodiless H 204;
                 out = out\<lparr>headers := vary_on H (headers out) PREFLIGHT_VARIES\<rparr>
             in (case scope_for p requested_method of
                   None \<Rightarrow> out
                 | Some s \<Rightarrow>
                     if \<not> permits H (scope_config s) origin then out
                     else out\<lparr>headers := granted_fields H s origin asked (headers out)\<rparr>)
         | _ \<Rightarrow> not_a_preflight H p)"

section \<open>Installing preflights\<close>

type_synonym cors_tag = "nat \<times> cors_config option"

definition first_cors :: "('h, cors_tag) operation \<Rightarrow> (nat \<times> cors_config) option" where
  "first_cors x = find_map (\<lambda>i. case as_any i of (ident, Some c) \<Rightarrow> Some (ident, c) | (ident, None) \<Rightarrow> None) (op_interceptors x)"

fun cover_with ::
  "nat \<times> cors_config \<Rightarrow> http_method \<Rightarrow> ((nat \<times> cors_config) \<times> http_method list) list \<Rightarrow>
   ((nat \<times> cors_config) \<times> http_method list) list" where
  "cover_with found m [] = [(found, [m])]"
| "cover_with found m ((mounted, ms) # rest) =
     (if fst mounted = fst found then (mounted, ms @ [m]) # rest else (mounted, ms) # cover_with found m rest)"

definition covering_scopes :: "('h, cors_tag) operation list \<Rightarrow> ((nat \<times> cors_config) \<times> http_method list) list" where
  "covering_scopes xs =
     foldl (\<lambda>acc x. case first_cors x of None \<Rightarrow> acc | Some found \<Rightarrow> cover_with found (op_method x) acc) [] xs"

definition with_head :: "http_method list \<Rightarrow> http_method list" where
  "with_head ms =
     (case position (\<lambda>m. m = Get) ms of Some at \<Rightarrow> take (at + 1) ms @ Head # drop (at + 1) ms | None \<Rightarrow> ms)"

definition headed_scopes :: "('h, cors_tag) operation list \<Rightarrow> ((nat \<times> cors_config) \<times> http_method list) list" where
  "headed_scopes xs =
     (if \<not> list_ex (\<lambda>x. op_method x = Head) xs
      then map (\<lambda>(mounted, ms). (mounted, with_head ms)) (covering_scopes xs) else covering_scopes xs)"

definition entry_preflight :: "fallback_policy \<Rightarrow> bool \<Rightarrow> ('h, cors_tag) path_entry \<Rightarrow> preflight option" where
  "entry_preflight policy options_implemented e =
     (if list_ex (\<lambda>x. op_method x = Options) (operations e) then None
      else if covering_scopes (operations e) = [] then None
      else Some (preflight_new (map (\<lambda>(mounted, ms). scope_new (snd mounted) ms) (headed_scopes (operations e)))
                   (implemented [e]) (if options_implemented then Some (allow e) else None) policy (accept_query e)))"

definition install_preflight ::
  "('h, 'x) header_map_scheme \<Rightarrow> fallback_policy \<Rightarrow> http_method list \<Rightarrow> ('h, cors_tag) path_entry list \<Rightarrow>
   ('h, cors_tag) path_entry list" where
  "install_preflight H policy methods es =
     map (\<lambda>e. case entry_preflight policy (Options \<in> set methods) e of
                None \<Rightarrow> e
              | Some p \<Rightarrow>
                  e\<lparr>operations := operations e @
                     [\<lparr>op_method = Options, operation_id = [],
                       op_terminal = (\<lambda>r. Returned (plain_reply (preflight_answer H p r))),
                       op_interceptors = [], op_catches = False, op_secured = False\<rparr>]\<rparr>) es"

section \<open>Lemmas: scopes\<close>

text \<open>The operation answering a method runs under a configuration.\<close>

definition runs_under :: "('h, cors_tag) path_entry \<Rightarrow> http_method \<Rightarrow> cors_config \<Rightarrow> bool" where
  "runs_under e m c \<longleftrightarrow>
     (\<exists>x\<in>set (operations e). map_option snd (first_cors x) = Some c \<and>
        (op_method x = m \<or> m = Head \<and> op_method x = Get \<and> Head \<notin> op_method ` set (operations e)))"

text \<open>One identity is one configuration.\<close>

definition identified :: "('h, cors_tag) path_entry \<Rightarrow> bool" where
  "identified e \<longleftrightarrow>
     (\<forall>x\<in>set (operations e). \<forall>y\<in>set (operations e). \<forall>f g.
        first_cors x = Some f \<and> first_cors y = Some g \<and> fst f = fst g \<longrightarrow> f = g)"

lemma cover_with_in:
  "(f, ms) \<in> set (cover_with found m acc) \<Longrightarrow> n \<in> set ms \<Longrightarrow>
     (\<exists>ms'. (f, ms') \<in> set acc \<and> n \<in> set ms') \<or> fst f = fst found \<and> n = m"
  by (induction acc) (fastforce split: if_splits)+

lemma cover_with_known:
  "(f, ms) \<in> set (cover_with found m acc) \<Longrightarrow> f = found \<or> f \<in> fst ` set acc"
  by (induction acc) (force split: if_splits)+

lemma covering_scopes_snoc:
  "covering_scopes (xs @ [x]) =
    (case first_cors x of None \<Rightarrow> covering_scopes xs | Some found \<Rightarrow> cover_with found (op_method x) (covering_scopes xs))"
  by (cases "first_cors x") (simp_all add: covering_scopes_def)

lemma covering_scopes_known:
  "(f, ms) \<in> set (covering_scopes xs) \<Longrightarrow> \<exists>x\<in>set xs. first_cors x = Some f"
proof (induction xs arbitrary: ms rule: rev_induct)
  case (snoc x xs)
  then show ?case
    by (cases "first_cors x") (fastforce simp: covering_scopes_snoc dest: cover_with_known)+
qed (simp add: covering_scopes_def)

lemma covering_scopes_in:
  "(f, ms) \<in> set (covering_scopes xs) \<Longrightarrow> m \<in> set ms \<Longrightarrow>
     \<exists>x\<in>set xs. op_method x = m \<and> (\<exists>g. first_cors x = Some g \<and> fst g = fst f)"
proof (induction xs arbitrary: ms rule: rev_induct)
  case (snoc x xs)
  then show ?case
    by (cases "first_cors x") (fastforce simp: covering_scopes_snoc dest: cover_with_in)+
qed (simp add: covering_scopes_def)

lemma set_with_head: "set (with_head ms) = set ms \<union> (if Get \<in> set ms then {Head} else {})"
proof (cases "position (\<lambda>m. m = Get) ms")
  case None
  then have "Get \<notin> set ms" by (auto simp: position_None)
  then show ?thesis using None by (simp add: with_head_def)
next
  case (Some i)
  then have "i < length ms" "ms ! i = Get" by (simp_all add: position_Some)
  then have "Get \<in> set ms" by (metis nth_mem)
  moreover have "set (take (i + 1) ms) \<union> set (drop (i + 1) ms) = set ms" by (metis append_take_drop_id set_append)
  ultimately show ?thesis using Some by (auto simp: with_head_def)
qed

lemma entry_preflight_Some:
  "entry_preflight policy opt e = Some p \<Longrightarrow>
    p = preflight_new (map (\<lambda>(mounted, ms). scope_new (snd mounted) ms) (headed_scopes (operations e)))
          (implemented [e]) (if opt then Some (allow e) else None) policy (accept_query e)"
  by (simp add: entry_preflight_def split: if_splits)

lemma scopes_new: "s \<in> set (scopes (preflight_new ss served allowed policy accepted)) \<Longrightarrow>
    \<exists>s'\<in>set ss. scope_config s = scope_config s' \<and> covered s = covered s' \<and>
      (\<forall>m\<in>set (advertised s). m \<in> set served \<longrightarrow> (\<exists>t\<in>set ss. m \<in> set (covered t)))"
  by (auto simp: preflight_new_def Let_def list_ex_iff)

lemma covered_new: "s' \<in> set ss \<Longrightarrow> \<exists>s\<in>set (scopes (preflight_new ss served allowed policy accepted)). covered s = covered s'"
  by (force simp: preflight_new_def Let_def)

lemma headed_in:
  "(f, ns) \<in> set (headed_scopes xs) \<Longrightarrow>
    \<exists>ms. (f, ms) \<in> set (covering_scopes xs) \<and> (ns = ms \<or> ns = with_head ms \<and> Head \<notin> op_method ` set xs)"
  by (force simp: headed_scopes_def list_ex_iff split: if_splits)

lemma preflight_scopes:
  assumes "entry_preflight policy opt e = Some p" "s \<in> set (scopes p)"
  obtains f ms where "(f, ms) \<in> set (covering_scopes (operations e))" "scope_config s = snd f"
    "covered s = ms \<or> covered s = with_head ms \<and> Head \<notin> op_method ` set (operations e)"
proof -
  obtain f ns where s: "(f, ns) \<in> set (headed_scopes (operations e))" "scope_config s = snd f" "covered s = ns"
    using scopes_new [OF assms(2) [unfolded entry_preflight_Some [OF assms(1)]]] by (auto simp: scope_new_def)
  then obtain ms where "(f, ms) \<in> set (covering_scopes (operations e))"
    "ns = ms \<or> ns = with_head ms \<and> Head \<notin> op_method ` set (operations e)"
    using headed_in by blast
  with s show ?thesis using that by blast
qed

lemma covered_runs_under:
  assumes "identified e" "entry_preflight policy opt e = Some p" "s \<in> set (scopes p)" "m \<in> set (covered s)"
  shows "runs_under e m (scope_config s)"
proof -
  from assms(2,3) obtain f ms where s: "(f, ms) \<in> set (covering_scopes (operations e))" "scope_config s = snd f"
    "covered s = ms \<or> covered s = with_head ms \<and> Head \<notin> op_method ` set (operations e)" by (rule preflight_scopes)
  obtain y where y: "y \<in> set (operations e)" "first_cors y = Some f"
    using covering_scopes_known [OF s(1)] by blast
  have own: "\<exists>x\<in>set (operations e). op_method x = n \<and> map_option snd (first_cors x) = Some (snd f)" if n: "n \<in> set ms" for n
  proof -
    obtain x g where x: "x \<in> set (operations e)" "op_method x = n" "first_cors x = Some g" "fst g = fst f"
      using covering_scopes_in [OF s(1) n] by auto
    then have "g = f" using assms(1) y unfolding identified_def by blast
    then show ?thesis using x by (intro bexI [of _ x]) simp_all
  qed
  from s(3) assms(4) consider "m \<in> set ms"
    | "m = Head" "Get \<in> set ms" "Head \<notin> op_method ` set (operations e)"
    by (auto simp: set_with_head split: if_splits)
  then show ?thesis
  proof cases
    case 1
    then show ?thesis using own [of m] s(2) by (auto simp: runs_under_def)
  next
    case 2
    then show ?thesis using own [of Get] s(2) by (auto simp: runs_under_def)
  qed
qed

lemma advertised_runs_under:
  assumes "identified e" "entry_preflight policy opt e = Some p" "s \<in> set (scopes p)" "m \<in> set (advertised s)" "answers e m"
  shows "\<exists>c. runs_under e m c"
proof -
  note p = entry_preflight_Some [OF assms(2)]
  have "m \<in> set (implemented [e])" using assms(5) by (simp add: set_implemented)
  then obtain t where "t \<in> set (map (\<lambda>(mounted, ms). scope_new (snd mounted) ms) (headed_scopes (operations e)))" "m \<in> set (covered t)"
    using scopes_new [OF assms(3) [unfolded p]] assms(4) by blast
  then obtain s' where "s' \<in> set (scopes p)" "m \<in> set (covered s')" using covered_new unfolding p by metis
  then show ?thesis using covered_runs_under [OF assms(1,2)] by blast
qed

lemma served_answers:
  "entry_preflight policy opt e = Some p \<Longrightarrow> set (served_methods p) = {m. answers e m}"
  by (drule entry_preflight_Some) (simp add: preflight_new_def Let_def set_implemented)

section \<open>Lemmas: fields\<close>

lemma get_insert_when:
  "header_map_laws H \<Longrightarrow> get_all H (insert_when H n v hs) m = (if m = n then (case v of Some v \<Rightarrow> [v] | None \<Rightarrow> get_all H hs m) else get_all H hs m)"
  by (simp add: insert_when_def header_map_lawsD(1) split: option.splits)

lemma granted_fields_get:
  assumes "header_map_laws H"
  shows "get_all H (granted_fields H s origin asked hs) ''access-control-allow-origin'' = [allow_origin_value (scope_config s) origin]"
    and "get_all H (granted_fields H s origin asked hs) ''access-control-allow-credentials'' =
      (if credentials (scope_config s) then [''true''] else get_all H hs ''access-control-allow-credentials'')"
    and "get_all H (granted_fields H s origin asked hs) ''access-control-allow-methods'' =
      (if advertised s = [] then get_all H hs ''access-control-allow-methods'' else [join '', '' (map as_wire_str (advertised s))])"
proof -
  note get = get_insert_when [OF assms] header_map_lawsD(1) [OF assms]
  show "get_all H (granted_fields H s origin asked hs) ''access-control-allow-origin'' = [allow_origin_value (scope_config s) origin]"
    by (simp only: granted_fields_def Let_def get) simp
  show "get_all H (granted_fields H s origin asked hs) ''access-control-allow-credentials'' =
      (if credentials (scope_config s) then [''true''] else get_all H hs ''access-control-allow-credentials'')"
    by (simp only: granted_fields_def Let_def get) simp
  show "get_all H (granted_fields H s origin asked hs) ''access-control-allow-methods'' =
      (if advertised s = [] then get_all H hs ''access-control-allow-methods'' else [join '', '' (map as_wire_str (advertised s))])"
    by (simp only: granted_fields_def Let_def get advertised_methods_def join_names_wire [OF assms]) simp
qed

lemma vary_on_elsewhere:
  "header_map_laws H \<Longrightarrow> n \<noteq> ''vary'' \<Longrightarrow> get_all H (vary_on H hs ns) n = get_all H hs n"
  by (simp add: vary_on_def Let_def header_map_lawsD(1) split: option.splits)

lemma named_methods_Nil: "named_methods [] = []"
  using named_methods_join [of "[]"] by simp

lemma find_in: "find P xs = Some x \<Longrightarrow> x \<in> set xs \<and> P x"
  by (auto simp: find_Some_iff)

lemma scope_for_Some:
  assumes "scope_for p proposed = Some s"
  shows "s \<in> set (scopes p) \<and>
    ((\<exists>m\<in>set (covered s). eq_nocase proposed (as_wire_str m)) \<or>
     (\<forall>m\<in>set (served_methods p). \<not> eq_nocase proposed (as_wire_str m)) \<and>
       (\<exists>ms. methods_override (scope_config s) = Some ms \<and> names ms proposed))"
proof (cases "find (\<lambda>s. covers s proposed) (scopes p)")
  case None
  then show ?thesis
    using assms by (auto simp: scope_for_def overrides_for_def names_def list_ex_iff dest!: find_in split: if_splits option.splits)
next
  case (Some t)
  then show ?thesis using assms by (auto simp: scope_for_def covers_def names_def list_ex_iff dest!: find_in)
qed

section \<open>Properties\<close>


text \<open>A path with one \<open>GET\<close> under CORS for one origin, for the witness.\<close>

definition sample_config :: cors_config where
  "sample_config = cors_new\<lparr>cors_origins := [''o'']\<rparr>"

definition sample_cors_entry :: "(string \<Rightarrow> string list, cors_tag) path_entry" where
  "sample_cors_entry =
     \<lparr>entry_template = ''/a'', entry_variables = [], allow = [], accept_query = None,
      operations = [\<lparr>op_method = Get, operation_id = ''a'',
        op_terminal = (\<lambda>r. Returned (plain_reply (bodiless fun_headers 200))),
        op_interceptors = [\<lparr>as_any = (1, Some sample_config), intercept = cors_intercept fun_headers sample_config\<rparr>],
        op_catches = False, op_secured = False\<rparr>]\<rparr>"

definition sample_asked :: "string \<Rightarrow> string list" where
  "sample_asked = (\<lambda>_. [])(''origin'' := [''o''], ''access-control-request-method'' := [''GET''])"


text \<open>A plain \<open>OPTIONS\<close> is answered as it was before CORS was mounted.\<close>

theorem cors_plain_options:
  assumes "built H D" "matcher D (uri_path r) = Some (i, captured)" "verb r = ''OPTIONS''"
    and "entry_preflight (method_not_allowed D) (Options \<in> set (implements_methods D)) (entries D ! i) = Some p"
    and "get_first H (request_headers r) ''origin'' = None \<or> get_first H (request_headers r) ''access-control-request-method'' = None"
  shows "\<exists>u. destination D r = Inl u \<and> answer_unrouted H D u r = preflight_answer H p r"
proof -
  let ?e = "entries D ! i"
  have m: "from_wire_str (verb r) = Some Options" using assms(3) from_wire_str_wire [of Options] by simp
  have "\<not> list_ex (\<lambda>x. op_method x = Options) (operations ?e)" using assms(4) by (simp add: entry_preflight_def split: if_splits)
  then have none: "find_operation ?e Options = None" by (auto simp: find_operation_None list_ex_iff)
  have "?e \<in> set (entries D)" using builtD(3) [OF assms(1,2)] by simp
  then have known: "accept_query ?e \<noteq> None \<Longrightarrow> Options \<in> set (implements_methods D)"
    by (auto simp: builtD(2) [OF assms(1)] set_implemented answers_def)
  have "preflight_answer H p r = not_a_preflight H p" using assms(5) by (auto simp: preflight_answer_def Let_def split: option.splits)
  then show ?thesis
    using known none
    by (auto simp: entry_preflight_Some [OF assms(4)] not_a_preflight_def preflight_new_def Let_def destination_def assms(2) m
          answers_options_def answer_unrouted_def implements_def split: option.splits)
qed

end
