(* ===== verification/Cache.thy ===== *)
theory Cache
  imports Dispatch Http_Date "HOL-Library.List_Lexorder" "HOL-Library.Char_ord"
begin

unbundle bit_operations_syntax

text \<open>
  The response cache (\<open>src/crates/kynos/src/middleware/cache/mod.rs\<close>): what may be stored and for how
  long (\<open>freshness.rs\<close>), what a store holds and the contract of a store an application supplies
  (\<open>store.rs\<close>), and the interceptor. A time is a number of nanoseconds since the epoch. One call reads
  the clock twice: when it looks the request up, and when the handler has answered. Calls are taken one
  after another, so a store is changed by one of them at a time.
\<close>

section \<open>Freshness\<close>

text \<open>Besides the header map and the bodies: the names of a map's fields, and a body's octets when it is read
  whole, \<open>None\<close> where the read fails.\<close>

record 'h cache_ops = "'h http_ops" +
  field_names :: "'h \<Rightarrow> string list"
  collect_body :: "body \<Rightarrow> string option"

definition CACHEABLE :: "nat list" where
  "CACHEABLE = [200, 203, 204, 300, 301, 308, 404, 405, 410, 414, 501]"

definition HOP_BY_HOP :: "string list" where
  "HOP_BY_HOP = [''connection'', ''proxy-connection'', ''keep-alive'', ''te'', ''trailer'', ''transfer-encoding'', ''upgrade'', ''age'']"

datatype unstorable =
    Unstorable_method | Unstorable_status | RequestNoStore | ResponseNoStore | Private | NoCache
  | VaryWildcard | SetCookie | Authorized | NoFreshness

record requested =
  no_cache :: bool
  no_store :: bool
  authorized :: bool

definition directives :: "('h, 'x) header_map_scheme \<Rightarrow> 'h \<Rightarrow> string list" where
  "directives H hs =
     filter (\<lambda>d. d \<noteq> [])
       (map (\<lambda>d. to_lower (trim d))
         (concat (map (split CHR '','') (filter_map (to_str H) (get_all H hs ''cache-control'')))))"

definition requested_of :: "('h, 'x) header_map_scheme \<Rightarrow> 'h \<Rightarrow> requested" where
  "requested_of H hs =
     foldl (\<lambda>req d. if d = ''no-cache'' then req\<lparr>no_cache := True\<rparr>
                    else if d = ''no-store'' then req\<lparr>no_store := True\<rparr> else req)
       \<lparr>no_cache = False, no_store = False, authorized = get_all H hs ''authorization'' \<noteq> []\<rparr> (directives H hs)"

definition storable_method :: "string \<Rightarrow> bool" where
  "storable_method m \<longleftrightarrow> m = ''GET'' \<or> m = ''HEAD''"

text \<open>The argument a directive gives a name: empty where it has none, \<open>None\<close> where it is another one.\<close>

definition argument :: "string \<Rightarrow> string \<Rightarrow> string option" where
  "argument directive name =
     (case strip_prefix name directive of
        None \<Rightarrow> None
      | Some rest \<Rightarrow> if rest = [] then Some rest else strip_prefix ''='' rest)"

definition SATURATED :: nat where "SATURATED = 2 ^ 31"

definition delta_seconds :: "string \<Rightarrow> nat option" where
  "delta_seconds arg =
     (let digits = unquoted_str arg
      in if digits \<noteq> [] \<and> list_all is_ascii_digit digits
         then Some (case parse_uint u64_max digits of Some n \<Rightarrow> n | None \<Rightarrow> SATURATED) else None)"

definition vary :: "('h, 'x) header_map_scheme \<Rightarrow> 'h \<Rightarrow> string list" where
  "vary H hs =
     remdups_adj (sort
       (filter (\<lambda>n. n \<noteq> [])
         (map (\<lambda>n. to_lower (trim n))
           (concat (map (split CHR '','') (filter_map (to_str H) (get_all H hs ''vary'')))))))"

definition shared :: "string list \<Rightarrow> bool" where
  "shared control \<longleftrightarrow> list_ex (\<lambda>v. v = ''public'' \<or> starts_with ''s-maxage='' v) control"

definition servable_when_secured :: "('h, 'x) header_map_scheme \<Rightarrow> 'h \<Rightarrow> bool" where
  "servable_when_secured H hs \<longleftrightarrow> shared (directives H hs)"

definition stated_seconds :: "string list \<Rightarrow> string \<Rightarrow> nat option" where
  "stated_seconds control name =
     (case filter_map (\<lambda>v. argument v name) control of
        [] \<Rightarrow> None
      | [first] \<Rightarrow> Some (case delta_seconds first of Some n \<Rightarrow> n | None \<Rightarrow> 0)
      | _ \<Rightarrow> Some 0)"

definition read_date :: "('h, 'x) header_map_scheme \<Rightarrow> string \<Rightarrow> int option" where
  "read_date H v = map_option (\<lambda>s. s * int nanos_per_sec) (Option.bind (to_str H v) date_parse)"

definition freshness_of :: "('h, 'x) header_map_scheme \<Rightarrow> int \<Rightarrow> string list \<Rightarrow> 'h \<Rightarrow> nat option \<Rightarrow> nat option" where
  "freshness_of H now control response default_life =
     (case find_map (stated_seconds control) [''s-maxage'', ''max-age''] of
        Some seconds \<Rightarrow> Some (seconds * nanos_per_sec)
      | None \<Rightarrow>
          (case get_all H response ''expires'' of
             [] \<Rightarrow> default_life
           | first # others \<Rightarrow>
               (case (if others = [] then read_date H first else None) of
                  None \<Rightarrow> Some 0
                | Some expiry \<Rightarrow>
                    let origin_now =
                      (case (case get_all H response ''date'' of [v] \<Rightarrow> read_date H v | _ \<Rightarrow> None) of
                         Some d \<Rightarrow> d | None \<Rightarrow> now)
                    in Some (nat (expiry - origin_now)))))"

definition refused_by :: "string list \<Rightarrow> unstorable option" where
  "refused_by control =
     find_map (\<lambda>(directive, refusal). if list_ex (\<lambda>v. argument v directive \<noteq> None) control then Some refusal else None)
       [(''no-store'', ResponseNoStore), (''private'', Private), (''no-cache'', NoCache)]"

definition storable ::
  "('h, 'x) header_map_scheme \<Rightarrow> int \<Rightarrow> string \<Rightarrow> nat \<Rightarrow> requested \<Rightarrow> 'h \<Rightarrow> bool \<Rightarrow> nat option \<Rightarrow> unstorable + (nat \<times> string list)" where
  "storable H now m st request response secured default_life =
     (if \<not> storable_method m then Inl Unstorable_method
      else if st \<notin> set CACHEABLE then Inl Unstorable_status
      else if no_store request then Inl RequestNoStore
      else
        let control = directives H response
        in case refused_by control of
             Some refusal \<Rightarrow> Inl refusal
           | None \<Rightarrow>
               let varied = vary H response
               in if ''*'' \<in> set varied then Inl VaryWildcard
                  else if get_all H response ''set-cookie'' \<noteq> [] then Inl SetCookie
                  else if (secured \<or> authorized request) \<and> \<not> shared control then Inl Authorized
                  else (case freshness_of H now control response default_life of
                          Some lifetime \<Rightarrow> Inr (lifetime, varied)
                        | None \<Rightarrow> Inl NoFreshness))"

definition strip :: "('h, 'x) header_map_scheme \<Rightarrow> 'h \<Rightarrow> 'h" where
  "strip H hs = foldl (remove_field H) hs HOP_BY_HOP"

section \<open>What a store holds\<close>

record primary_key =
  namespace :: string
  key_method :: http_method
  authority :: "string option"
  key_route :: string
  target :: string

record 'h stored =
  stored_status :: nat
  stored_headers :: 'h
  stored_body :: string
  stored_vary :: "string list"
  selecting :: "string list list"
  recorded_at :: int
  freshness :: nat

definition stored_new ::
  "('h, 'x) header_map_scheme \<Rightarrow> int \<Rightarrow> nat \<Rightarrow> 'h \<Rightarrow> string \<Rightarrow> string list \<Rightarrow> 'h \<Rightarrow> nat \<Rightarrow> 'h stored" where
  "stored_new H at st hs octets varied request lifetime =
     \<lparr>stored_status = st, stored_headers = hs, stored_body = octets, stored_vary = varied,
      selecting = map (get_all H request) varied, recorded_at = at, freshness = lifetime\<rparr>"

definition age_at :: "'h stored \<Rightarrow> int \<Rightarrow> nat" where
  "age_at s now = nat (now - recorded_at s)"

definition is_fresh_at :: "'h stored \<Rightarrow> int \<Rightarrow> bool" where
  "is_fresh_at s now \<longleftrightarrow> age_at s now < freshness s"

definition combined :: "string list \<Rightarrow> string" where
  "combined ls = concat (map (\<lambda>(index, line). (if index = 0 then [] else '', '') @ line) (enumerate 0 ls))"

definition same_lines :: "string list \<Rightarrow> string list \<Rightarrow> bool" where
  "same_lines mine theirs \<longleftrightarrow> (mine = []) = (theirs = []) \<and> combined mine = combined theirs"

definition selected_by :: "('h, 'x) header_map_scheme \<Rightarrow> 'h stored \<Rightarrow> 'h \<Rightarrow> bool" where
  "selected_by H s hs \<longleftrightarrow> list_all (\<lambda>(name, lines). same_lines lines (get_all H hs name)) (zip (stored_vary s) (selecting s))"

definition same_variant :: "'h stored \<Rightarrow> 'h stored \<Rightarrow> bool" where
  "same_variant s other \<longleftrightarrow>
     stored_vary s = stored_vary other \<and> list_all (\<lambda>(mine, theirs). same_lines mine theirs) (zip (selecting s) (selecting other))"

record ('s, 'h) store_ops =
  store_get :: "'s \<Rightarrow> primary_key \<Rightarrow> 'h stored list"
  store_put :: "'s \<Rightarrow> primary_key \<Rightarrow> 'h stored \<Rightarrow> 's"
  store_invalidate :: "'s \<Rightarrow> primary_key \<Rightarrow> 's"

section \<open>The interceptor\<close>

record cache =
  cache_namespace :: string
  max_body_bytes :: nat
  default_freshness :: "nat option"
  derives :: bool

definition DEFAULT_MAX_BODY_BYTES :: nat where "DEFAULT_MAX_BODY_BYTES = 1024 * 1024"

definition cache_new :: cache where
  "cache_new = \<lparr>cache_namespace = [], max_body_bytes = DEFAULT_MAX_BODY_BYTES, default_freshness = None, derives = False\<rparr>"

definition hex16 :: "64 word \<Rightarrow> string" where
  "hex16 w = map (\<lambda>i. ''0123456789abcdef'' ! unat (take_bit 4 (drop_bit (4 * i) w))) (rev [0..<16])"

definition fnv_offset :: "64 word" where "fnv_offset = 0xcbf29ce484222325"
definition fnv_prime :: "64 word" where "fnv_prime = 0x00000100000001b3"

definition derived_etag :: "string \<Rightarrow> string" where
  "derived_etag octets =
     (let hashed = foldl (\<lambda>hash b. (hash XOR of_nat (byte b)) * fnv_prime) fnv_offset octets
      in [dquote] @ hex16 ((hashed XOR of_nat (length octets)) * fnv_prime) @ [dquote])"

definition cache_tag :: "('h, 'x) http_ops_scheme \<Rightarrow> cache \<Rightarrow> 'h \<Rightarrow> string \<Rightarrow> string option" where
  "cache_tag H C hs octets =
     (if \<not> derives C then None
      else (case Option.bind (get_first H hs ''etag'') (\<lambda>v. if to_str H v \<noteq> None then Some v else None) of
              Some carried \<Rightarrow> Some carried
            | None \<Rightarrow> from_str H (derived_etag octets)))"

definition added :: "('h, 'x) header_map_scheme \<Rightarrow> nat \<Rightarrow> string option \<Rightarrow> 'h reply \<Rightarrow> 'h reply" where
  "added H age etag reply =
     (let out = response_of reply;
          hs = insert_field H (headers out) ''age'' (decimal (as_secs age));
          hs = (case etag of Some v \<Rightarrow> insert_field H hs ''etag'' v | None \<Rightarrow> hs)
      in reply\<lparr>response_of := out\<lparr>headers := hs\<rparr>\<rparr>)"

definition served_hit :: "('h, 'x) http_ops_scheme \<Rightarrow> cache \<Rightarrow> int \<Rightarrow> 'h stored \<Rightarrow> 'h reply" where
  "served_hit H C now s =
     added H (age_at s now) (cache_tag H C (stored_headers s) (stored_body s))
       (plain_reply \<lparr>status = stored_status s, headers = stored_headers s, body = Octets (stored_body s)\<rparr>)"

definition cache_key :: "('h, 'x) header_map_scheme \<Rightarrow> string \<Rightarrow> http_method \<Rightarrow> 'h request \<Rightarrow> string \<Rightarrow> primary_key" where
  "cache_key H ns m r at =
     \<lparr>namespace = ns, key_method = m, authority = own_authority H (request_headers r) (uri_authority r),
      key_route = at, target = uri_path r @ (case uri_query r of Some q \<Rightarrow> ''?'' @ q | None \<Rightarrow> [])\<rparr>"

definition is_safe :: "string \<Rightarrow> bool" where
  "is_safe m \<longleftrightarrow> m \<in> {''GET'', ''HEAD'', ''OPTIONS'', ''TRACE'', ''QUERY''}"

definition is_non_error :: "nat \<Rightarrow> bool" where
  "is_non_error st \<longleftrightarrow> 200 \<le> st \<and> st < 400"

definition refuses_cross_origin :: "('h, 'x) cache_ops_scheme \<Rightarrow> 'h \<Rightarrow> string list \<Rightarrow> bool" where
  "refuses_cross_origin H hs varied \<longleftrightarrow>
     list_ex (starts_with ''access-control-'') (field_names H hs) \<and> ''origin'' \<notin> set varied"

definition bounded_body :: "('h, 'x) cache_ops_scheme \<Rightarrow> body \<Rightarrow> nat \<Rightarrow> body + string" where
  "bounded_body H b limit =
     (case exact_length H b of
        None \<Rightarrow> Inl b
      | Some len \<Rightarrow>
          if len > limit then Inl b
          else (case collect_body H b of Some octets \<Rightarrow> Inr octets | None \<Rightarrow> Inl (Failing [])))"

definition request_secured :: "'h request \<Rightarrow> bool" where
  "request_secured r = (case routed_to r of Some t \<Rightarrow> is_secured t | None \<Rightarrow> True)"

text \<open>What the store answers a request with: the first of its variants the request selects, that a guarded
  operation may be served, and that is fresh.\<close>

definition lookup ::
  "('h, 'x) cache_ops_scheme \<Rightarrow> ('s, 'h) store_ops \<Rightarrow> cache \<Rightarrow> int \<Rightarrow> primary_key \<Rightarrow> 'h request \<Rightarrow> 's \<Rightarrow> 'h stored option" where
  "lookup H S C now key r st =
     (if no_cache (requested_of H (request_headers r)) then None
      else find (\<lambda>s. is_fresh_at s now)
             (filter (\<lambda>s. \<not> request_secured r \<or> servable_when_secured H (stored_headers s))
               (filter (\<lambda>s. selected_by H s (request_headers r)) (store_get S st key))))"

definition invalidated :: "('s, 'h) store_ops \<Rightarrow> primary_key \<Rightarrow> string \<Rightarrow> nat \<Rightarrow> 's \<Rightarrow> 's" where
  "invalidated S key m code st =
     (if \<not> is_safe m \<and> is_non_error code
      then foldl (\<lambda>st m. store_invalidate S st (key\<lparr>key_method := m\<rparr>)) st [Get, Head] else st)"

definition record_reply ::
  "('h, 'x) cache_ops_scheme \<Rightarrow> ('s, 'h) store_ops \<Rightarrow> cache \<Rightarrow> int \<Rightarrow> primary_key \<Rightarrow> 'h request \<Rightarrow> 'h reply \<Rightarrow> 's \<Rightarrow> 'h reply \<times> 's" where
  "record_reply H S C now key r reply st =
     (let req = requested_of H (request_headers r); out = response_of reply
      in if \<not> (storable_method (verb r) \<and> \<not> no_store req) then (added H 0 None reply, st)
         else
           (case storable H now (verb r) (status out) req (headers out) (request_secured r) (default_freshness C) of
              Inl _ \<Rightarrow> (added H 0 None reply, st)
            | Inr (lifetime, varied) \<Rightarrow>
                (case bounded_body H (body out) (max_body_bytes C) of
                   Inl unbuffered \<Rightarrow> (added H 0 None (reply\<lparr>response_of := out\<lparr>body := unbuffered\<rparr>\<rparr>), st)
                 | Inr octets \<Rightarrow>
                     let hs = strip H (headers out);
                         etag = cache_tag H C hs octets;
                         reply = reply\<lparr>response_of := out\<lparr>body := Octets octets\<rparr>\<rparr>
                     in if refuses_cross_origin H hs varied then (added H 0 etag reply, st)
                        else (added H 0 etag reply,
                              store_put S st key (stored_new H now (status out) hs octets varied (request_headers r) lifetime)))))"

definition cache_intercept ::
  "('h, 'x) cache_ops_scheme \<Rightarrow> ('s, 'h) store_ops \<Rightarrow> cache \<Rightarrow> int \<Rightarrow> int \<Rightarrow> route option \<Rightarrow> ('h request \<Rightarrow> 'h run) \<Rightarrow>
   'h request \<Rightarrow> 's \<Rightarrow> 'h run \<times> 's" where
  "cache_intercept H S C looked ready at next r st =
     (case (at, from_wire_str (verb r)) of
        (Some at, Some m) \<Rightarrow>
          (let key = cache_key H (cache_namespace C) m r (route_template at)
           in case lookup H S C looked key r st of
                Some s \<Rightarrow> (Returned (served_hit H C looked s), st)
              | None \<Rightarrow>
                  (case next r of
                     Panicked payload \<Rightarrow> (Panicked payload, st)
                   | Returned reply \<Rightarrow>
                       let (reply', st') = record_reply H S C ready key r reply
                                             (invalidated S key (verb r) (status (response_of reply)) st)
                       in (Returned reply', st')))
      | _ \<Rightarrow> (next r, st))"

section \<open>The contract of a store\<close>

text \<open>Every variant put is among those gotten until its key is invalidated; nothing else is.\<close>

locale cache_store =
  fixes S :: "('s, 'h) store_ops"
  assumes get_put: "set (store_get S (store_put S st k s) k') \<subseteq> set (store_get S st k') \<union> (if k' = k then {s} else {})"
    and put_held: "s \<in> set (store_get S (store_put S st k s) k)"
    and get_invalidate: "set (store_get S (store_invalidate S st k) k') \<subseteq> set (store_get S st k')"
    and invalidate_drops: "store_get S (store_invalidate S st k) k = []"
begin

lemma get_invalidated: "set (store_get S (invalidated S key m code st) k) \<subseteq> set (store_get S st k)"
  using get_invalidate [of "store_invalidate S st (key\<lparr>key_method := Get\<rparr>)" "key\<lparr>key_method := Head\<rparr>" k]
    get_invalidate [of st "key\<lparr>key_method := Get\<rparr>" k]
  by (auto simp: invalidated_def)

lemma invalidated_drops:
  assumes "\<not> is_safe m" "is_non_error code" "k = key\<lparr>key_method := Get\<rparr> \<or> k = key\<lparr>key_method := Head\<rparr>"
  shows "store_get S (invalidated S key m code st) k = []"
proof -
  let ?g = "store_invalidate S st (key\<lparr>key_method := Get\<rparr>)"
  have "set (store_get S (store_invalidate S ?g (key\<lparr>key_method := Head\<rparr>)) k) = {}"
    using assms(3) get_invalidate [of ?g "key\<lparr>key_method := Head\<rparr>" k] invalidate_drops
    by (elim disjE) (auto simp: invalidate_drops)
  then show ?thesis using assms(1,2) by (simp add: invalidated_def)
qed

end

text \<open>A store held as a list, which replaces the variant a put one is the same as.\<close>

definition list_store :: "((primary_key \<times> 'h stored) list, 'h) store_ops" where
  "list_store =
     \<lparr>store_get = (\<lambda>st k. map snd (filter (\<lambda>e. fst e = k) st)),
      store_put = (\<lambda>st k s. filter (\<lambda>e. \<not> (fst e = k \<and> same_variant s (snd e))) st @ [(k, s)]),
      store_invalidate = (\<lambda>st k. filter (\<lambda>e. fst e \<noteq> k) st)\<rparr>"

interpretation held: cache_store list_store
  by unfold_locales (auto simp: list_store_def filter_empty_conv)

section \<open>Histories\<close>

text \<open>A call of the interceptor, and a call the handler answered.\<close>

record 'h visit =
  visit_route :: "route option"
  visit_request :: "'h request"
  visit_next :: "'h request \<Rightarrow> 'h run"
  looked_at :: int
  answered_at :: int

record 'h exchange =
  ex_key :: primary_key
  ex_request :: "'h request"
  ex_response :: "'h response"
  ex_time :: int

definition visit_key :: "('h, 'x) header_map_scheme \<Rightarrow> cache \<Rightarrow> 'h visit \<Rightarrow> primary_key option" where
  "visit_key H C v =
     (case (visit_route v, from_wire_str (verb (visit_request v))) of
        (Some at, Some m) \<Rightarrow> Some (cache_key H (cache_namespace C) m (visit_request v) (route_template at))
      | _ \<Rightarrow> None)"

definition hit :: "('h, 'x) cache_ops_scheme \<Rightarrow> ('s, 'h) store_ops \<Rightarrow> cache \<Rightarrow> 'h visit \<Rightarrow> 's \<Rightarrow> 'h stored option" where
  "hit H S C v st = Option.bind (visit_key H C v) (\<lambda>key. lookup H S C (looked_at v) key (visit_request v) st)"

definition exchanges_of ::
  "('h, 'x) cache_ops_scheme \<Rightarrow> ('s, 'h) store_ops \<Rightarrow> cache \<Rightarrow> 'h visit \<Rightarrow> 's \<Rightarrow> 'h exchange list" where
  "exchanges_of H S C v st =
     (case visit_key H C v of
        None \<Rightarrow> []
      | Some key \<Rightarrow>
          if hit H S C v st \<noteq> None then []
          else (case visit_next v (visit_request v) of
                  Returned reply \<Rightarrow>
                    [\<lparr>ex_key = key, ex_request = visit_request v, ex_response = response_of reply, ex_time = answered_at v\<rparr>]
                | Panicked _ \<Rightarrow> []))"

definition visited ::
  "('h, 'x) cache_ops_scheme \<Rightarrow> ('s, 'h) store_ops \<Rightarrow> cache \<Rightarrow> 'h visit \<Rightarrow> 's \<Rightarrow> 'h run \<times> 's" where
  "visited H S C v st =
     cache_intercept H S C (looked_at v) (answered_at v) (visit_route v) (visit_next v) (visit_request v) st"

inductive cache_reaches ::
  "('h, 'x) cache_ops_scheme \<Rightarrow> ('s, 'h) store_ops \<Rightarrow> cache \<Rightarrow> 'h exchange list \<Rightarrow> 's \<Rightarrow> bool" for H S C where
  start: "(\<And>k. store_get S st k = []) \<Longrightarrow> cache_reaches H S C [] st"
| visit: "cache_reaches H S C hist st \<Longrightarrow> visited H S C v st = (out, st') \<Longrightarrow>
    cache_reaches H S C (hist @ exchanges_of H S C v st) st'"

text \<open>An exchange accounts for what a store holds under a key: it allowed its response to be stored, and that
  is what was stored.\<close>

definition accounts_for ::
  "('h, 'x) cache_ops_scheme \<Rightarrow> cache \<Rightarrow> 'h exchange \<Rightarrow> primary_key \<Rightarrow> 'h stored \<Rightarrow> bool" where
  "accounts_for H C x key s \<longleftrightarrow>
     ex_key x = key \<and> recorded_at s = ex_time x \<and>
     storable H (ex_time x) (verb (ex_request x)) (status (ex_response x)) (requested_of H (request_headers (ex_request x)))
       (headers (ex_response x)) (request_secured (ex_request x)) (default_freshness C) = Inr (freshness s, stored_vary s) \<and>
     collect_body H (body (ex_response x)) = Some (stored_body s) \<and>
     stored_status s = status (ex_response x) \<and> stored_headers s = strip H (headers (ex_response x)) \<and>
     selecting s = map (get_all H (request_headers (ex_request x))) (stored_vary s) \<and>
     \<not> refuses_cross_origin H (stored_headers s) (stored_vary s)"

text \<open>An exchange that changed the resource a key names: an unsafe method answered without an error.\<close>

definition changes :: "'h exchange \<Rightarrow> primary_key \<Rightarrow> bool" where
  "changes x key \<longleftrightarrow>
     \<not> is_safe (verb (ex_request x)) \<and> is_non_error (status (ex_response x)) \<and>
     (key = (ex_key x)\<lparr>key_method := Get\<rparr> \<or> key = (ex_key x)\<lparr>key_method := Head\<rparr>)"

definition accounted :: "('h, 'x) cache_ops_scheme \<Rightarrow> cache \<Rightarrow> 'h exchange list \<Rightarrow> primary_key \<Rightarrow> 'h stored \<Rightarrow> bool" where
  "accounted H C hist key s \<longleftrightarrow>
     (\<exists>before x after. hist = before @ x # after \<and> accounts_for H C x key s \<and> list_all (\<lambda>y. \<not> changes y key) after)"

lemma accounted_snoc:
  "accounted H C hist key s \<Longrightarrow> \<not> changes x key \<Longrightarrow> accounted H C (hist @ [x]) key s"
proof -
  assume "accounted H C hist key s" "\<not> changes x key"
  then obtain before y after where "hist = before @ y # after" "accounts_for H C y key s" "list_all (\<lambda>y. \<not> changes y key) (after @ [x])"
    by (auto simp: accounted_def)
  then show ?thesis unfolding accounted_def
    by - (rule exI [of _ before], rule exI [of _ y], rule exI [of _ "after @ [x]"], simp)
qed

lemma accounted_last: "accounts_for H C x key s \<Longrightarrow> accounted H C (hist @ [x]) key s"
  unfolding accounted_def by (rule exI [of _ hist]) auto

text \<open>What recording a reply does to the store: nothing, or one put the exchange accounts for.\<close>

lemma record_reply_store:
  "snd (record_reply H S C now key r reply st) = st \<or>
   (\<exists>s. snd (record_reply H S C now key r reply st) = store_put S st key s \<and>
      accounts_for H C \<lparr>ex_key = key, ex_request = r, ex_response = response_of reply, ex_time = now\<rparr> key s)"
  by (auto simp: record_reply_def Let_def accounts_for_def stored_new_def bounded_body_def split: sum.splits option.splits if_splits)

text \<open>The invariant: everything the store holds is accounted for by the history.\<close>

definition store_accounted ::
  "('h, 'x) cache_ops_scheme \<Rightarrow> ('s, 'h) store_ops \<Rightarrow> cache \<Rightarrow> 'h exchange list \<Rightarrow> 's \<Rightarrow> bool" where
  "store_accounted H S C hist st \<longleftrightarrow> (\<forall>k. \<forall>s\<in>set (store_get S st k). accounted H C hist k s)"

lemma visited_cases:
  assumes "visited H S C v st = (out, st')"
  obtains (unchanged) "st' = st" "exchanges_of H S C v st = []"
  | (answered) key reply where "visit_key H C v = Some key" "visit_next v (visit_request v) = Returned reply" "hit H S C v st = None"
      "st' = snd (record_reply H S C (answered_at v) key (visit_request v) reply
               (invalidated S key (verb (visit_request v)) (status (response_of reply)) st))"
      "exchanges_of H S C v st =
        [\<lparr>ex_key = key, ex_request = visit_request v, ex_response = response_of reply, ex_time = answered_at v\<rparr>]"
proof (cases "visit_key H C v")
  case None
  then show ?thesis using assms unchanged
    by (auto simp: visited_def cache_intercept_def visit_key_def exchanges_of_def split: option.splits)
next
  case (Some key)
  then obtain at m where at: "visit_route v = Some at" "from_wire_str (verb (visit_request v)) = Some m"
    and key: "key = cache_key H (cache_namespace C) m (visit_request v) (route_template at)"
    by (auto simp: visit_key_def split: option.splits)
  show ?thesis
  proof (cases "hit H S C v st")
    case None
    then have miss: "lookup H S C (looked_at v) key (visit_request v) st = None" by (simp add: hit_def Some)
    show ?thesis
    proof (cases "visit_next v (visit_request v)")
      case (Returned reply)
      then show ?thesis using assms None Some miss at
        by (intro answered) (auto simp: visited_def cache_intercept_def exchanges_of_def Let_def key split: prod.splits)
    next
      case (Panicked p)
      then show ?thesis using assms None Some miss at
        by (intro unchanged) (auto simp: Panicked visited_def cache_intercept_def exchanges_of_def Let_def key)
    qed
  next
    case hit: (Some s)
    then have "lookup H S C (looked_at v) key (visit_request v) st = Some s" by (simp add: hit_def Some)
    then show ?thesis using assms hit Some at
      by (intro unchanged) (auto simp: visited_def cache_intercept_def exchanges_of_def Let_def key)
  qed
qed

context cache_store
begin

lemma recorded_accounted:
  assumes "store_accounted H S C hist st"
    and x: "x = \<lparr>ex_key = key, ex_request = r, ex_response = response_of reply, ex_time = now\<rparr>"
  shows "store_accounted H S C (hist @ [x])
    (snd (record_reply H S C now key r reply (invalidated S key (verb r) (status (response_of reply)) st)))"
proof -
  let ?st = "invalidated S key (verb r) (status (response_of reply)) st"
  have old: "accounted H C (hist @ [x]) k s" if "s \<in> set (store_get S ?st k)" for k s
  proof -
    have "\<not> changes x k" using that invalidated_drops [of "verb r" "status (response_of reply)" k key st]
      by (auto simp: changes_def x)
    moreover have "accounted H C hist k s"
      using assms(1) that get_invalidated [of key "verb r" "status (response_of reply)" st k] by (auto simp: store_accounted_def)
    ultimately show ?thesis by (simp add: accounted_snoc)
  qed
  from record_reply_store [of H S C now key r reply ?st] show ?thesis
  proof (elim disjE exE conjE)
    fix s
    assume put: "snd (record_reply H S C now key r reply ?st) = store_put S ?st key s"
      and own: "accounts_for H C \<lparr>ex_key = key, ex_request = r, ex_response = response_of reply, ex_time = now\<rparr> key s"
    show ?thesis
      unfolding put store_accounted_def
    proof (intro allI ballI)
      fix k t
      assume "t \<in> set (store_get S (store_put S ?st key s) k)"
      then have "t \<in> set (store_get S ?st k) \<or> k = key \<and> t = s"
        using get_put [of ?st key s k] by (auto split: if_splits)
      then show "accounted H C (hist @ [x]) k t" using old accounted_last [OF own [folded x]] by auto
    qed
  qed (simp add: store_accounted_def old)
qed

lemma reaches_accounted: "cache_reaches H S C hist st \<Longrightarrow> store_accounted H S C hist st"
proof (induction rule: cache_reaches.induct)
  case (start st)
  then show ?case by (simp add: store_accounted_def)
next
  case (visit hist st v out st')
  from visit(2) show ?case
  proof (cases rule: visited_cases)
    case unchanged
    then show ?thesis using visit by simp
  next
    case (answered key reply)
    then show ?thesis using recorded_accounted [OF visit(3)] by simp
  qed
qed

end

section \<open>Lemmas: what is stored is served\<close>

lemma get_strip:
  assumes "header_map_laws H" "n \<notin> set HOP_BY_HOP"
  shows "get_all H (strip H hs) n = get_all H hs n"
proof -
  have "n \<notin> set names \<Longrightarrow> get_all H (foldl (remove_field H) hs names) n = get_all H hs n" for names
    by (induction names arbitrary: hs) (auto simp: header_map_lawsD(3) [OF assms(1)])
  then show ?thesis using assms(2) by (simp add: strip_def)
qed

lemma directives_strip: "header_map_laws H \<Longrightarrow> directives H (strip H hs) = directives H hs"
  by (simp add: directives_def get_strip HOP_BY_HOP_def)

lemma same_lines_refl [simp]: "same_lines ls ls"
  by (simp add: same_lines_def)

lemma selected_by_own: "selected_by H (stored_new H at st hs octets varied request lifetime) request"
  by (auto simp: selected_by_def stored_new_def list_all_iff zip_map2 set_zip)

lemma storable_Inr:
  assumes "storable H now m st req response secured default_life = Inr (lifetime, varied)"
  shows "storable_method m" "\<not> no_store req" "secured \<Longrightarrow> shared (directives H response)"
  using assms by (auto simp: storable_def Let_def split: if_splits option.splits)

lemma lookup_finds:
  assumes "s \<in> set (store_get S st key)" "is_fresh_at s now" "selected_by H s (request_headers r)"
    and "request_secured r \<Longrightarrow> servable_when_secured H (stored_headers s)" "\<not> no_cache (requested_of H (request_headers r))"
  shows "lookup H S C now key r st \<noteq> None"
  using assms by (auto simp: lookup_def find_None_iff)

lemma record_reply_put:
  assumes "storable H now (verb r) (status (response_of reply)) (requested_of H (request_headers r)) (headers (response_of reply))
      (request_secured r) (default_freshness C) = Inr (lifetime, varied)"
    and "bounded_body H (body (response_of reply)) (max_body_bytes C) = Inr octets"
    and "\<not> refuses_cross_origin H (strip H (headers (response_of reply))) varied"
  shows "snd (record_reply H S C now key r reply st) = store_put S st key
    (stored_new H now (status (response_of reply)) (strip H (headers (response_of reply))) octets varied (request_headers r) lifetime)"
  using assms storable_Inr [OF assms(1)] by (simp add: record_reply_def Let_def)

lemma put_then_hit:
  assumes "cache_store S" "header_map_laws H" "visit_key H C v = Some key" "hit H S C v st = None"
    and "visit_next v (visit_request v) = Returned reply" "visited H S C v st = (out, st')"
    and "storable H (answered_at v) (verb (visit_request v)) (status (response_of reply)) (requested_of H (request_headers (visit_request v)))
          (headers (response_of reply)) (request_secured (visit_request v)) (default_freshness C) = Inr (lifetime, varied)"
    and "bounded_body H (body (response_of reply)) (max_body_bytes C) = Inr octets"
    and "\<not> refuses_cross_origin H (strip H (headers (response_of reply))) varied"
    and "\<not> no_cache (requested_of H (request_headers (visit_request v)))"
    and "visit_route w = visit_route v" "visit_request w = visit_request v" "nat (looked_at w - answered_at v) < lifetime"
  shows "hit H S C w st' \<noteq> None"
proof -
  let ?r = "visit_request v" and ?out = "response_of reply"
  let ?s = "stored_new H (answered_at v) (status ?out) (strip H (headers ?out)) octets varied (request_headers ?r) lifetime"
  have "st' = snd (record_reply H S C (answered_at v) key ?r reply (invalidated S key (verb ?r) (status ?out) st))"
    using assms(6)
  proof (cases rule: visited_cases)
    case unchanged
    then show ?thesis using assms(3-5) by (simp add: exchanges_of_def)
  next
    case (answered key' reply')
    then show ?thesis using assms(3,5) by simp
  qed
  then have "?s \<in> set (store_get S st' key)"
    using cache_store.put_held [OF assms(1)] by (simp add: record_reply_put [OF assms(7-9)])
  moreover have "is_fresh_at ?s (looked_at w)" using assms(13) by (simp add: is_fresh_at_def age_at_def stored_new_def)
  moreover have "request_secured ?r \<Longrightarrow> servable_when_secured H (stored_headers ?s)"
    using storable_Inr(3) [OF assms(7)] by (simp add: servable_when_secured_def directives_strip [OF assms(2)] stored_new_def)
  ultimately have "lookup H S C (looked_at w) key ?r st' \<noteq> None"
    using assms(10) by (intro lookup_finds [of ?s]) (auto simp: selected_by_own)
  moreover have "visit_key H C w = visit_key H C v" by (simp only: visit_key_def assms(11,12))
  ultimately show ?thesis using assms(3,12) by (simp add: hit_def)
qed

section \<open>Properties\<close>


text \<open>A cache over a list, for the witnesses: a \<open>GET\<close>, and a minute for a response that states no
  lifetime.\<close>

definition fun_cache :: "(string \<Rightarrow> string list) cache_ops" where
  "fun_cache = http_ops.extend fun_http
     \<lparr>field_names = (\<lambda>h. if h ''access-control-allow-origin'' \<noteq> [] then [''access-control-allow-origin''] else []),
      collect_body = (\<lambda>b. case b of Empty \<Rightarrow> Some [] | Octets s \<Rightarrow> Some s | _ \<Rightarrow> None)\<rparr>"

lemma fun_cache_laws: "header_map_laws fun_cache"
  by (simp add: header_map_laws_def fun_cache_def fun_http_def fun_headers_def header_map.defs http_ops.defs split: if_splits)

definition sample_visit :: "int \<Rightarrow> (string \<Rightarrow> string list) visit" where
  "sample_visit t =
     \<lparr>visit_route = Some \<lparr>route_template = ''/a'', route_operation = ''a'', route_method = Get\<rparr>,
      visit_request = (sample_request ''GET'' ''/a'')\<lparr>routed_to := Some \<lparr>matched_path = Some ''/a'', route_captures = None,
        origin_of = \<lparr>client = None, proto = None\<rparr>, is_secured = False, link_table = None\<rparr>\<rparr>,
      visit_next = (\<lambda>r. Returned (plain_reply \<lparr>status = 200, headers = (\<lambda>_. []), body = Octets ''x''\<rparr>)),
      looked_at = t, answered_at = t\<rparr>"

definition sample_cache :: cache where
  "sample_cache = cache_new\<lparr>default_freshness := Some (60 * nanos_per_sec)\<rparr>"

lemma sample_fun:
  "get_all fun_cache h n = h n" "to_str fun_cache v = (if list_all is_visible v then Some v else None)"
  "remove_field fun_cache h n = h(n := [])"
  by (simp_all add: fun_cache_def fun_http_def fun_headers_def header_map.defs http_ops.defs)

lemma sample_requested: "requested_of fun_cache (\<lambda>_. []) = \<lparr>no_cache = False, no_store = False, authorized = False\<rparr>"
  by (simp add: requested_of_def directives_def sample_fun)

lemma sample_stripped: "strip fun_cache (\<lambda>_. []) = (\<lambda>_. [])"
  by (simp add: strip_def HOP_BY_HOP_def sample_fun fun_eq_iff)

lemma sample_facts:
  shows "visit_key fun_cache sample_cache (sample_visit t) =
      Some \<lparr>namespace = [], key_method = Get, authority = None, key_route = ''/a'', target = ''/a''\<rparr>"
    and "visit_next (sample_visit t) (visit_request (sample_visit t)) =
      Returned (plain_reply \<lparr>status = 200, headers = (\<lambda>_. []), body = Octets ''x''\<rparr>)"
    and "hit fun_cache list_store sample_cache (sample_visit t) [] = None"
  by (simp_all add: visit_key_def sample_visit_def sample_request_def cache_key_def sample_cache_def cache_new_def own_authority_def get_first_def
        sample_fun from_wire_str_def all_methods_def hit_def lookup_def list_store_def)

lemmas sample_store_facts = held.cache_store_axioms fun_cache_laws sample_facts(1) sample_facts(3) sample_facts(2)

lemma sample_conditions:
  shows "storable fun_cache (answered_at (sample_visit 0)) (verb (visit_request (sample_visit 0)))
        (status (response_of (plain_reply \<lparr>status = 200, headers = (\<lambda>_. []), body = Octets ''x''\<rparr>)))
        (requested_of fun_cache (request_headers (visit_request (sample_visit 0))))
        (headers (response_of (plain_reply \<lparr>status = 200, headers = (\<lambda>_. []), body = Octets ''x''\<rparr>)))
        (request_secured (visit_request (sample_visit 0))) (default_freshness sample_cache) = Inr (60 * nanos_per_sec, [])"
    and "bounded_body fun_cache (body (response_of (plain_reply \<lparr>status = 200, headers = (\<lambda>_. []), body = Octets ''x''\<rparr>)))
        (max_body_bytes sample_cache) = Inr ''x''"
    and "\<not> refuses_cross_origin fun_cache (strip fun_cache (headers (response_of (plain_reply \<lparr>status = 200, headers = (\<lambda>_. []), body = Octets ''x''\<rparr>)))) []"
    and "\<not> no_cache (requested_of fun_cache (request_headers (visit_request (sample_visit 0))))"
proof -
  show "storable fun_cache (answered_at (sample_visit 0)) (verb (visit_request (sample_visit 0)))
      (status (response_of (plain_reply \<lparr>status = 200, headers = (\<lambda>_. []), body = Octets ''x''\<rparr>)))
      (requested_of fun_cache (request_headers (visit_request (sample_visit 0))))
      (headers (response_of (plain_reply \<lparr>status = 200, headers = (\<lambda>_. []), body = Octets ''x''\<rparr>)))
      (request_secured (visit_request (sample_visit 0))) (default_freshness sample_cache) = Inr (60 * nanos_per_sec, [])"
    by (simp add: storable_def sample_visit_def sample_request_def plain_reply_def storable_method_def CACHEABLE_def sample_requested
          directives_def sample_fun refused_by_def vary_def request_secured_def freshness_of_def stated_seconds_def sample_cache_def)
  show "bounded_body fun_cache (body (response_of (plain_reply \<lparr>status = 200, headers = (\<lambda>_. []), body = Octets ''x''\<rparr>)))
      (max_body_bytes sample_cache) = Inr ''x''"
    by (simp add: bounded_body_def plain_reply_def sample_cache_def cache_new_def DEFAULT_MAX_BODY_BYTES_def fun_cache_def fun_http_def
          http_ops.defs header_map.defs fun_headers_def)
  show "\<not> refuses_cross_origin fun_cache (strip fun_cache (headers (response_of (plain_reply \<lparr>status = 200, headers = (\<lambda>_. []), body = Octets ''x''\<rparr>)))) []"
    by (simp only: refuses_cross_origin_def plain_reply_def response.simps reply.simps sample_stripped)
       (simp add: fun_cache_def http_ops.defs fun_http_def header_map.defs fun_headers_def)
  show "\<not> no_cache (requested_of fun_cache (request_headers (visit_request (sample_visit 0))))"
    by (simp add: sample_visit_def sample_request_def sample_requested)
qed

lemma sample_hit:
  "hit fun_cache list_store sample_cache (sample_visit 1)
     (snd (visited fun_cache list_store sample_cache (sample_visit 0) [])) \<noteq> None"
  by (rule put_then_hit [OF sample_store_facts surjective_pairing sample_conditions]) (simp_all add: sample_visit_def nanos_per_sec_def)




end
