(* ===== verification/Ip_Text.thy ===== *)
theory Ip_Text
  imports Forwarded
begin

text \<open>
  The text of an address read back: \<open>Display\<close> of \<open>IpAddr\<close> and its \<open>FromStr\<close>, which
  \<open>Forwarded\<close> holds, are inverse to each other. Lists of addresses, and hosts that are literals of one,
  are compared by that text.
\<close>

section \<open>IPv4\<close>

lemma octet_parse_decimal: "n < 256 \<Longrightarrow> octet_parse (decimal n) = Some n"
proof -
  assume n: "n < 256"
  then have "length (decimal n) \<le> 3" using length_decimal [of n 3] by simp
  moreover have "hd (decimal n) = CHR ''0'' \<Longrightarrow> length (decimal n) \<le> 1"
  proof (induction n rule: decimal.induct)
    case (1 n)
    show ?case
    proof (cases "n < 10")
      case True
      then show ?thesis by (simp add: decimal_lt)
    next
      case False
      then have d: "decimal n = decimal (n div 10) @ [digit (n mod 10)]" by (simp add: decimal_ge)
      then have "hd (decimal (n div 10)) = CHR ''0''" using "1.prems" by simp
      then have "length (decimal (n div 10)) \<le> 1" using "1.IH" False by simp
      then have "n div 10 < 10" using False by (cases "n div 10 < 10") (auto simp: decimal_ge)
      then have "decimal (n div 10) = [digit (n div 10)]" by (simp add: decimal_lt)
      then have "digit (n div 10) = CHR ''0''" using \<open>hd (decimal (n div 10)) = CHR ''0''\<close> by simp
      then have "n div 10 = 0" using digit_val_digit [of "n div 10"] \<open>n div 10 < 10\<close> by (simp add: digit_val_def)
      then show ?thesis using False by simp
    qed
  qed
  ultimately show "octet_parse (decimal n) = Some n"
    using n decimal_digits [of n] by (auto simp: octet_parse_def list_all_iff)
qed

lemma decimal_plain: "c \<in> set (decimal n) \<Longrightarrow> c \<noteq> CHR ''.'' \<and> c \<noteq> CHR '':''"
  using decimal_digits [of n] by (auto simp: bytes_simps)

lemma split_join_plain: "ps \<noteq> [] \<Longrightarrow> (\<forall>p\<in>set ps. d \<notin> set p) \<Longrightarrow> split d (join [d] ps) = ps"
  by (rule split_join) auto

definition octets_of :: "nat \<Rightarrow> nat list" where
  "octets_of n = map (\<lambda>i. n div 256 ^ i mod 256) [3, 2, 1, 0]"

lemma ipv4_display_octets: "ipv4_display a = join ''.'' (map decimal (octets_of (unat a)))"
proof -
  have small: "unat a < 4294967296" using unsigned_less [of a] by simp
  have "unat (drop_bit (8 * i) a AND 0xFF) = unat a div 256 ^ i mod 256" for i
  proof -
    have "drop_bit (8 * i) a AND 0xFF = take_bit 8 (drop_bit (8 * i) a)"
      by (simp add: take_bit_eq_mask mask_eq_exp_minus_1 and.commute)
    then have "unat (drop_bit (8 * i) a AND 0xFF) = take_bit 8 (drop_bit (8 * i) (unat a))"
      by (simp only: unsigned_take_bit_eq unsigned_drop_bit_eq) (simp add: take_bit_nat_eq_self small)
    also have "\<dots> = unat a div 256 ^ i mod 256"
      by (simp only: take_bit_eq_mod drop_bit_eq_div power_mult) simp
    finally show ?thesis .
  qed
  then show ?thesis by (simp only: ipv4_display_def octets_of_def list.map)
qed

lemma ipv4_parse_octets:
  assumes "n < 2 ^ 32"
  shows "ipv4_parse (join ''.'' (map decimal (octets_of n))) = Some n"
proof -
  have "split CHR ''.'' (join ''.'' (map decimal (octets_of n))) = map decimal (octets_of n)"
    by (rule split_join_plain) (use decimal_plain in \<open>fastforce simp: octets_of_def\<close>)+
  moreover have "map (octet_parse \<circ> decimal) (octets_of n) = map Some (octets_of n)"
    by (simp add: octets_of_def octet_parse_decimal)
  ultimately have "ipv4_parse (join ''.'' (map decimal (octets_of n))) =
      Some (((n div 256 ^ 3 mod 256 * 256 + n div 256 ^ 2 mod 256) * 256 + n div 256 mod 256) * 256 + n mod 256)"
    by (simp add: ipv4_parse_def octets_of_def)
  moreover have "((n div 256 ^ 3 mod 256 * 256 + n div 256 ^ 2 mod 256) * 256 + n div 256 mod 256) * 256 + n mod 256 = n"
  proof -
    have d: "n div 256 ^ 2 = n div 256 div 256" "n div 256 ^ 3 = n div 256 div 256 div 256"
      by (simp_all add: div_mult2_eq [symmetric])
    have "n div 256 div 256 div 256 < 256" using assms by (simp add: div_mult2_eq [symmetric])
    then show ?thesis unfolding d by (simp only: mod_less div_mult_mod_eq)
  qed
  ultimately show ?thesis by (simp only:)
qed

lemma ipv4_roundtrip: "ipv4_parse (ipv4_display a) = Some (unat a)"
proof -
  have "unat a < 2 ^ 32" using unsigned_less [of a] by simp
  then show ?thesis by (simp only: ipv4_display_octets ipv4_parse_octets)
qed

lemma ipv4_parse_digits:
  assumes "ipv4_parse s = Some n" "c \<in> set s"
  shows "is_ascii_digit c \<or> c = CHR ''.''"
proof -
  obtain a b d e where "map octet_parse (split CHR ''.'' s) = [Some a, Some b, Some d, Some e]"
    using assms(1) by (auto simp: ipv4_parse_def split: list.splits option.splits)
  then have "set (map octet_parse (split CHR ''.'' s)) = {Some a, Some b, Some d, Some e}" by (simp only:) simp
  then have "octet_parse ` set (split CHR ''.'' s) = {Some a, Some b, Some d, Some e}" by (simp only: set_map)
  then have "\<forall>p\<in>set (split CHR ''.'' s). octet_parse p \<noteq> None" by blast
  then have "\<forall>p\<in>set (split CHR ''.'' s). list_all is_ascii_digit p"
    by (auto simp: octet_parse_def split: if_splits)
  moreover have "set s \<subseteq> \<Union> (set ` set (split CHR ''.'' s)) \<union> {CHR ''.''}"
    using set_join [of "''.''" "split CHR ''.'' s"] by (simp add: join_split)
  ultimately show ?thesis using assms(2) by (fastforce simp: list_all_iff)
qed

section \<open>IPv6\<close>

lemma hex_digit_facts:
  assumes "n < 16"
  shows "hex_val (hex_digit_of n) = n" "is_ascii_hexdigit (hex_digit_of n)"
proof -
  have "byte (char_of (n + 48)) = n + 48" "byte (char_of (n + 87)) = n + 87" using assms by simp_all
  then show "hex_val (hex_digit_of n) = n" "is_ascii_hexdigit (hex_digit_of n)"
    using assms by (auto simp: hex_val_def hex_digit_of_def bytes_simps byte_ascii_lower)
qed

lemma hex_display_digits: "list_all is_ascii_hexdigit (hex_display n) \<and> hex_display n \<noteq> []"
proof (induction n rule: hex_display.induct)
  case (1 n)
  then show ?case by (cases "n < 16") (simp_all add: hex_display.simps [of n] hex_digit_facts)
qed

lemma hex_display_value: "foldl (\<lambda>n c. n * 16 + hex_val c) 0 (hex_display n) = n"
proof (induction n rule: hex_display.induct)
  case (1 n)
  then show ?case by (cases "n < 16") (simp_all add: hex_display.simps [of n] hex_digit_facts)
qed

lemma hex_display_length: "n < 16 ^ k \<Longrightarrow> 0 < k \<Longrightarrow> length (hex_display n) \<le> k"
proof (induction k arbitrary: n)
  case (Suc k)
  show ?case
  proof (cases "n < 16")
    case True
    then show ?thesis by (simp add: hex_display.simps [of n])
  next
    case False
    then have "0 < k" using Suc.prems by (cases k) simp_all
    moreover have "n div 16 < 16 ^ k" using Suc.prems by (simp add: less_mult_imp_div_less mult.commute)
    ultimately show ?thesis using Suc.IH [of "n div 16"] False by (simp add: hex_display.simps [of n])
  qed
qed simp

lemma hex_plain: "c \<in> set (hex_display n) \<Longrightarrow> c \<noteq> CHR '':'' \<and> c \<noteq> CHR ''.''"
  using hex_display_digits [of n] by (auto simp: list_all_iff bytes_simps)

lemma group_parse_hex: "g < 65536 \<Longrightarrow> group_parse (hex_display g) = Some g"
  using hex_display_digits [of g] hex_display_length [of g 4] hex_display_value [of g]
  by (auto simp: group_parse_def)

lemma ipv4_parse_hex: "ipv4_parse (hex_display g) = None"
proof -
  have "split CHR ''.'' (hex_display g) = [hex_display g]" by (rule split_none) (use hex_plain in blast)
  then show ?thesis by (simp add: ipv4_parse_def split: option.splits)
qed

lemma groups_parse_hex: "list_all (\<lambda>g. g < 65536) gs \<Longrightarrow> groups_parse (map hex_display gs) = Some gs"
proof (induction gs)
  case (Cons g gs)
  then show ?case by (cases gs) (simp_all add: ipv4_parse_hex group_parse_hex)
qed simp

lemma try_map_hex: "list_all (\<lambda>g. g < 65536) gs \<Longrightarrow> try_map group_parse (map hex_display gs) = Some gs"
  by (induction gs) (simp_all add: group_parse_hex)

text \<open>The first \<open>::\<close> of a text.\<close>

lemma double_colon_skip:
  "CHR '':'' \<notin> set p \<Longrightarrow>
   split_double_colon (p @ CHR '':'' # r) = map_option (\<lambda>(x, y). (p @ x, y)) (split_double_colon (CHR '':'' # r))"
proof (induction p)
  case Nil
  show ?case by (cases "split_double_colon (CHR '':'' # r)") auto
next
  case (Cons a p)
  have "split_double_colon (a # p @ CHR '':'' # r) = map_option (\<lambda>(x, y). (a # x, y)) (split_double_colon (p @ CHR '':'' # r))"
    using Cons.prems by (cases p) auto
  then show ?case using Cons by (simp add: option.map_comp comp_def case_prod_unfold)
qed

lemma double_colon_none: "CHR '':'' \<notin> set p \<Longrightarrow> split_double_colon p = None"
  by (induction p rule: split_double_colon.induct) auto

lemma double_colon_single:
  "c \<noteq> CHR '':'' \<Longrightarrow> split_double_colon (CHR '':'' # c # s) = map_option (\<lambda>(x, y). (CHR '':'' # x, y)) (split_double_colon (c # s))"
  by simp

lemma double_colon_join:
  "ps \<noteq> [] \<Longrightarrow> (\<forall>p\<in>set ps. CHR '':'' \<notin> set p \<and> p \<noteq> []) \<Longrightarrow>
   split_double_colon (join '':'' ps @ ''::'' @ t) = Some (join '':'' ps, t)"
proof (induction ps)
  case (Cons p ps)
  show ?case
  proof (cases ps)
    case Nil
    then show ?thesis using Cons.prems by (simp add: double_colon_skip)
  next
    case (Cons q qs)
    then have "join '':'' ps \<noteq> []" "hd (join '':'' ps) \<noteq> CHR '':''"
      using Cons.prems by (cases qs; cases q; auto)+
    then obtain c s where c: "join '':'' ps = c # s" "c \<noteq> CHR '':''" by (cases "join '':'' ps") auto
    show ?thesis using Cons.prems Cons.IH c \<open>ps = q # qs\<close> by (simp add: join_Cons double_colon_skip)
  qed
qed simp

lemma double_colon_join_none:
  "(\<forall>p\<in>set ps. CHR '':'' \<notin> set p \<and> p \<noteq> []) \<Longrightarrow> split_double_colon (join '':'' ps) = None"
proof (induction ps)
  case (Cons p ps)
  show ?case
  proof (cases ps)
    case Nil
    then show ?thesis using Cons.prems by (simp add: double_colon_none)
  next
    case (Cons q qs)
    then have "join '':'' ps \<noteq> []" "hd (join '':'' ps) \<noteq> CHR '':''"
      using Cons.prems by (cases qs; cases q; auto)+
    then obtain c s where c: "join '':'' ps = c # s" "c \<noteq> CHR '':''" by (cases "join '':'' ps") auto
    show ?thesis using Cons.prems Cons.IH c \<open>ps = q # qs\<close> by (simp add: join_Cons double_colon_skip)
  qed
qed simp

text \<open>The run chosen is a run of zeros.\<close>

definition zeros_at :: "nat list \<Rightarrow> nat \<times> nat \<Rightarrow> bool" where
  "zeros_at gs run \<longleftrightarrow> snd run = 0 \<or> fst run + snd run \<le> length gs \<and> (\<forall>j < snd run. gs ! (fst run + j) = 0)"

lemma zeros_at_append: "zeros_at gs run \<Longrightarrow> zeros_at (gs @ hs) run"
  by (auto simp: zeros_at_def nth_append)

lemma zeros_at_grow:
  "zeros_at pre (a, k) \<Longrightarrow> 0 < k \<Longrightarrow> a + k = length pre \<Longrightarrow> zeros_at (pre @ [0]) (a, Suc k)"
  by (auto simp: zeros_at_def nth_append less_Suc_eq)

lemma zero_run_zeros:
  "zeros_at pre current \<Longrightarrow> 0 < snd current \<longrightarrow> fst current + snd current = length pre \<Longrightarrow> zeros_at pre longest \<Longrightarrow>
   zeros_at (pre @ gs) (zero_run (length pre) current longest gs)"
proof (induction gs arbitrary: pre current longest)
  case (Cons g gs)
  show ?case
  proof (cases "g = 0")
    case True
    let ?c = "if snd current = 0 then (length pre, 1) else (fst current, snd current + 1)"
    have c: "zeros_at (pre @ [0]) ?c" "fst ?c + snd ?c = length (pre @ [0])"
      using Cons.prems zeros_at_grow [of pre "fst current" "snd current"] by (auto simp: zeros_at_def)
    have "zeros_at ((pre @ [0]) @ gs)
        (zero_run (length (pre @ [0])) ?c (if snd ?c > snd longest then ?c else longest) gs)"
      by (rule Cons.IH) (use c Cons.prems(3) zeros_at_append in auto)
    then show ?thesis using True by (simp add: Let_def)
  next
    case False
    have "zeros_at ((pre @ [g]) @ gs) (zero_run (length (pre @ [g])) (0, 0) longest gs)"
      by (rule Cons.IH) (use Cons.prems zeros_at_append in \<open>auto simp: zeros_at_def nth_append\<close>)
    then show ?thesis using False by simp
  qed
qed simp

section \<open>Positional values\<close>

lemma foldl_positional:
  "foldl (\<lambda>v d. v * B + d) v (map (\<lambda>i. n div B ^ i mod B) (rev [0..<k])) = v * B ^ k + n mod (B ^ k :: nat)"
proof (induction k arbitrary: v)
  case (Suc k)
  have "n mod (B ^ k * B) = B ^ k * (n div B ^ k mod B) + n mod B ^ k" by (rule mod_mult2_eq)
  then show ?case using Suc by (simp add: algebra_simps)
qed simp

definition groups_of :: "nat \<Rightarrow> nat list" where
  "groups_of n = map (\<lambda>i. n div 65536 ^ i mod 65536) [7, 6, 5, 4, 3, 2, 1, 0]"

lemma groups_value:
  assumes "n < 2 ^ 128"
  shows "foldl (\<lambda>n g. n * 65536 + g) 0 (groups_of n) = n"
proof -
  have "groups_of n = map (\<lambda>i. n div 65536 ^ i mod 65536) (rev [0..<8])" by (simp add: groups_of_def upt_rec)
  then have "foldl (\<lambda>n g. n * 65536 + g) 0 (groups_of n) = n mod 65536 ^ 8"
    using foldl_positional [of 65536 0 n 8] by simp
  then show ?thesis using assms by simp
qed

lemma groups_small: "list_all (\<lambda>g. g < 65536) (groups_of n)" "length (groups_of n) = 8"
  by (simp_all add: groups_of_def)

lemma display_groups: "map (\<lambda>i. unat (drop_bit (16 * i) a AND 0xFFFF)) [7, 6, 5, 4, 3, 2, 1, 0] = groups_of (unat (a :: 128 word))"
proof -
  have small: "unat a < 340282366920938463463374607431768211456" using unsigned_less [of a] by simp
  have "unat (drop_bit (16 * i) a AND 0xFFFF) = unat a div 65536 ^ i mod 65536" for i
  proof -
    have "drop_bit (16 * i) a AND 0xFFFF = take_bit 16 (drop_bit (16 * i) a)"
      by (simp add: take_bit_eq_mask mask_eq_exp_minus_1 and.commute)
    then have "unat (drop_bit (16 * i) a AND 0xFFFF) = take_bit 16 (drop_bit (16 * i) (unat a))"
      by (simp only: unsigned_take_bit_eq unsigned_drop_bit_eq) (simp add: take_bit_nat_eq_self small)
    also have "\<dots> = unat a div 65536 ^ i mod 65536"
      by (simp only: take_bit_eq_mod drop_bit_eq_div power_mult) simp
    finally show ?thesis .
  qed
  then show ?thesis by (simp only: groups_of_def list.map)
qed

section \<open>The round trip\<close>

lemma zeros_split:
  assumes "zeros_at gs (start, len)" "0 < len"
  shows "take start gs @ replicate len 0 @ drop (start + len) gs = gs" "start + len \<le> length gs"
proof -
  have z: "start + len \<le> length gs" "\<forall>j<len. gs ! (start + j) = 0" using assms by (simp_all add: zeros_at_def)
  then have "take len (drop start gs) = replicate len 0" by (intro nth_equalityI) auto
  then show "take start gs @ replicate len 0 @ drop (start + len) gs = gs"
    by (metis append_take_drop_id drop_drop add.commute)
  show "start + len \<le> length gs" by (rule z(1))
qed

lemma list_all_take: "list_all P xs \<Longrightarrow> list_all P (take n xs)"
  by (auto simp: list_all_iff dest: in_set_takeD)

lemma list_all_drop: "list_all P xs \<Longrightarrow> list_all P (drop n xs)"
  by (auto simp: list_all_iff dest: in_set_dropD)

lemma hex_texts: "\<forall>p\<in>set (map hex_display gs). CHR '':'' \<notin> set p \<and> p \<noteq> []"
  using hex_plain hex_display_digits by auto

lemma split_hex: "gs \<noteq> [] \<Longrightarrow> split CHR '':'' (join '':'' (map hex_display gs)) = map hex_display gs"
  by (rule split_join_plain) (use hex_texts in auto)

lemma join_hex_Nil: "join '':'' (map hex_display gs) = [] \<longleftrightarrow> gs = []"
  using hex_display_digits by (cases gs; cases "tl gs") (auto simp: join_Cons)

lemma ipv6_groups_plain:
  assumes "list_all (\<lambda>g. g < 65536) gs" "length gs = 8"
  shows "ipv6_groups (join '':'' (map hex_display gs)) = Some gs"
proof -
  have "gs \<noteq> []" using assms(2) by auto
  then show ?thesis
    using assms by (simp add: ipv6_groups_def double_colon_join_none [OF hex_texts] split_hex groups_parse_hex)
qed

lemma ipv6_groups_short:
  assumes "list_all (\<lambda>g. g < 65536) gs" "length gs = 8" "zeros_at gs (start, len)" "1 < len"
  shows "ipv6_groups (join '':'' (map hex_display (take start gs)) @ ''::'' @ join '':'' (map hex_display (drop (start + len) gs))) = Some gs"
proof -
  let ?front = "take start gs" and ?tail = "drop (start + len) gs"
  let ?f = "join '':'' (map hex_display ?front)" and ?b = "join '':'' (map hex_display ?tail)"
  note small = list_all_take [OF assms(1)] list_all_drop [OF assms(1)]
  have gs: "?front @ replicate len 0 @ ?tail = gs" "start + len \<le> 8"
    using zeros_split [OF assms(3)] assms(2,4) by auto
  have "split_double_colon (?f @ ''::'' @ ?b) = Some (?f, ?b)"
    using double_colon_join [OF _ hex_texts, of ?front ?b] by (cases "?front = []") (auto simp del: take_eq_Nil)
  moreover have "(if ?f = [] then Some [] else try_map group_parse (split CHR '':'' ?f)) = Some ?front"
    using split_hex [of ?front] try_map_hex [OF small(1)] join_hex_Nil [of ?front] by (auto simp del: take_eq_Nil)
  moreover have "(if ?b = [] then Some [] else groups_parse (split CHR '':'' ?b)) = Some ?tail"
    using split_hex [of ?tail] groups_parse_hex [OF small(2)] join_hex_Nil [of ?tail] by (auto simp del: drop_eq_Nil)
  ultimately show ?thesis using gs assms(2,4) by (simp add: ipv6_groups_def)
qed

lemma mapped_value:
  assumes "to_ipv4_mapped a = Some v4"
  shows "unat a = 65535 * 2 ^ 32 + unat v4"
proof -
  have a: "drop_bit 32 a = 0xFFFF" "v4 = ucast a" using assms by (simp_all add: to_ipv4_mapped_def split: if_splits)
  have small: "unat a < 340282366920938463463374607431768211456" using unsigned_less [of a] by simp
  have "unat (drop_bit 32 a) = 65535" using a(1) by simp
  then have "unat a div 2 ^ 32 = 65535"
    by (simp only: unsigned_drop_bit_eq) (simp add: take_bit_nat_eq_self small drop_bit_eq_div)
  moreover have "unat v4 = unat a mod 2 ^ 32" by (simp add: a(2) unsigned_ucast_eq take_bit_eq_mod)
  ultimately show ?thesis by (metis div_mult_mod_eq)
qed

lemma ipv6_groups_mapped:
  "ipv6_groups (''::ffff:'' @ ipv4_display v) = Some (replicate 5 0 @ [65535, unat v div 65536, unat v mod 65536])"
proof -
  have "CHR '':'' \<notin> set (ipv4_display v)" using ipv4_parse_digits [OF ipv4_roundtrip, of "CHR '':''" v] by (auto simp: bytes_simps)
  then have "split CHR '':'' (''ffff:'' @ ipv4_display v) = [''ffff'', ipv4_display v]"
    using split_append_sep [of "CHR '':''" "''ffff''" "ipv4_display v"] by (simp add: split_none)
  moreover have "group_parse ''ffff'' = Some 65535"
    by (simp add: group_parse_def hex_val_def bytes_simps byte_ascii_lower)
  ultimately show ?thesis by (simp add: ipv6_groups_def ipv4_roundtrip)
qed

lemma ipv6_roundtrip:
  "\<exists>gs. ipv6_groups (ipv6_display a) = Some gs \<and> foldl (\<lambda>n g. n * 65536 + g) 0 gs = unat a"
proof (cases "to_ipv4_mapped a")
  case (Some v)
  have "unat v div 65536 * 65536 + unat v mod 65536 = unat v" by simp
  moreover have "foldl (\<lambda>n g. n * 65536 + g) 0 (replicate k (0 :: nat)) = 0" for k by (induction k) simp_all
  ultimately show ?thesis using mapped_value [OF Some] by (simp add: ipv6_display_def Some ipv6_groups_mapped [simplified])
next
  case None
  let ?gs = "groups_of (unat a)"
  obtain start len where run: "zero_run 0 (0, 0) (0, 0) ?gs = (start, len)" by fastforce
  have z: "zeros_at ?gs (start, len)"
    using zero_run_zeros [of "[]" "(0, 0)" "(0, 0)" ?gs] by (simp add: run zeros_at_def)
  have small: "unat a < 2 ^ 128" using unsigned_less [of a] by simp
  have d: "ipv6_display a = (if len > 1 then join '':'' (map hex_display (take start ?gs)) @ ''::'' @ join '':'' (map hex_display (drop (start + len) ?gs))
      else join '':'' (map hex_display ?gs))"
    unfolding ipv6_display_def display_groups by (simp only: None option.case run Let_def prod.case)
  show ?thesis
  proof (cases "1 < len")
    case True
    then show ?thesis using ipv6_groups_short [OF groups_small z True] groups_value [OF small] by (simp only: d if_True) blast
  next
    case False
    then show ?thesis using ipv6_groups_plain [OF groups_small] groups_value [OF small] by (simp only: d if_False) blast
  qed
qed

lemma ipv6_display_colon: "CHR '':'' \<in> set (ipv6_display a)"
proof (rule ccontr)
  assume c: "CHR '':'' \<notin> set (ipv6_display a)"
  obtain gs where gs: "ipv6_groups (ipv6_display a) = Some gs" using ipv6_roundtrip by blast
  have "split_double_colon (ipv6_display a) = None" "split CHR '':'' (ipv6_display a) = [ipv6_display a]"
    using c by (simp_all add: double_colon_none split_none)
  then show False using gs by (auto simp: ipv6_groups_def split: option.splits if_splits)
qed

text \<open>The text of an address is read back as that address, IPv6 with its longest run of zeros
  elided and an IPv4 address mapped into it written with dots.\<close>

theorem ip_roundtrip: "ip_parse (ip_display a) = Some a"
proof (cases a)
  case (V4 v)
  then show ?thesis by (simp add: ip_parse_def ipv4_roundtrip)
next
  case (V6 v)
  obtain gs where gs: "ipv6_groups (ipv6_display v) = Some gs" "foldl (\<lambda>n g. n * 65536 + g) 0 gs = unat v"
    using ipv6_roundtrip by blast
  have "ipv4_parse (ipv6_display v) = None"
    using ipv4_parse_digits [of "ipv6_display v" _ "CHR '':''"] ipv6_display_colon [of v]
    by (cases "ipv4_parse (ipv6_display v)") (auto simp: bytes_simps)
  then show ?thesis using gs V6 by (simp add: ip_parse_def)
qed

end
