(* ===== verification/Guards.thy ===== *)
theory Guards
  imports Ip_Text Dispatch
begin

text \<open>
  The interceptors that refuse a request by where it came from: cross-site request forgery
  (\<open>src/crates/kynos/src/middleware/csrf.rs\<close>) and requests for a host the server does not answer for
  (\<open>src/crates/kynos/src/middleware/trusted_hosts.rs\<close>). What the \<open>http\<close> crate reads of an authority is a
  parameter. The problem type a refusal names is left out of its document.
\<close>

text \<open>\<open>Authority\<close> of the \<open>http\<close> crate: the host of one, and its parser.\<close>

record 'h authority_ops = "'h header_map" +
  authority_host :: "string \<Rightarrow> string"
  authority_parse :: "string \<Rightarrow> string option"

section \<open>Cross-site requests\<close>

record csrf =
  trusted_origins :: "string list"

definition csrf_new :: csrf where
  "csrf_new = \<lparr>trusted_origins = []\<rparr>"

definition trusting_origin :: "csrf \<Rightarrow> string \<Rightarrow> csrf" where
  "trusting_origin c origin = c\<lparr>trusted_origins := trusted_origins c @ [origin]\<rparr>"

definition csrf_safe :: "string \<Rightarrow> bool" where
  "csrf_safe m \<longleftrightarrow> m = ''GET'' \<or> m = ''HEAD'' \<or> m = ''OPTIONS''"

definition trusts :: "csrf \<Rightarrow> string \<Rightarrow> bool" where
  "trusts c origin \<longleftrightarrow> list_ex (\<lambda>t. eq_nocase t (trim origin)) (trusted_origins c)"

fun find_text :: "string \<Rightarrow> string \<Rightarrow> (string \<times> string) option" where
  "find_text pat [] = (if pat = [] then Some ([], []) else None)"
| "find_text pat (c # s) =
     (case strip_prefix pat (c # s) of
        Some rest \<Rightarrow> Some ([], rest)
      | None \<Rightarrow> map_option (\<lambda>(before, rest). (c # before, rest)) (find_text pat s))"

definition authority_of :: "string \<Rightarrow> string" where
  "authority_of origin =
     to_lower (case find_text ''://'' (trim origin) of None \<Rightarrow> trim origin | Some (_, authority) \<Rightarrow> authority)"

definition decides :: "('h, 'x) header_map_scheme \<Rightarrow> csrf \<Rightarrow> string \<Rightarrow> 'h \<Rightarrow> string option \<Rightarrow> bool" where
  "decides H c m hs authority =
     (if csrf_safe m then True
      else
        let site = Option.bind (get_first H hs ''sec-fetch-site'') (to_str H);
            origin = Option.bind (get_first H hs ''origin'') (to_str H)
        in if (case origin of Some o' \<Rightarrow> trusts c o' | None \<Rightarrow> False) then True
           else (case site of
                   Some site \<Rightarrow> trim site = ''same-origin'' \<or> trim site = ''none''
                 | None \<Rightarrow>
                     (case origin of
                        Some origin \<Rightarrow>
                          (case own_authority H hs authority of
                             Some host \<Rightarrow> host = authority_of origin
                           | None \<Rightarrow> False)
                      | None \<Rightarrow> True)))"

definition permits_request :: "('h, 'x) header_map_scheme \<Rightarrow> csrf \<Rightarrow> 'h request \<Rightarrow> bool" where
  "permits_request H c r = decides H c (verb r) (request_headers r) (uri_authority r)"

definition cross_site :: "('h, 'x) header_map_scheme \<Rightarrow> 'h reply" where
  "cross_site H = plain_reply (problem_response H 403 ''this request came from another site'')"

definition csrf_intercept ::
  "('h, 'x) header_map_scheme \<Rightarrow> csrf \<Rightarrow> route option \<Rightarrow> ('h request \<Rightarrow> 'h run) \<Rightarrow> 'h request \<Rightarrow> 'h run" where
  "csrf_intercept H c at next r = (if permits_request H c r then next r else Returned (cross_site H))"

text \<open>\<open>CsrfWhen\<close>: the check where the context enables it.\<close>

definition csrf_when_intercept ::
  "('h, 'x) header_map_scheme \<Rightarrow> csrf \<Rightarrow> bool \<Rightarrow> route option \<Rightarrow> ('h request \<Rightarrow> 'h run) \<Rightarrow> 'h request \<Rightarrow> 'h run" where
  "csrf_when_intercept H c enabled at next r =
     (if \<not> enabled \<or> permits_request H c r then next r else Returned (cross_site H))"

section \<open>Trusted hosts\<close>

record trusted_hosts =
  allowed_hosts :: "string list"
  loopback :: bool

definition canonical :: "string \<Rightarrow> string option" where
  "canonical host =
     (let host = trim host;
          host = (case strip_suffix ''.'' host of Some h \<Rightarrow> h | None \<Rightarrow> host)
      in if host = [] then None
         else
           let unbracketed = (case Option.bind (strip_prefix ''['' host) (strip_suffix '']'') of Some h \<Rightarrow> h | None \<Rightarrow> host)
           in case ip_parse unbracketed of
                Some (V4 a) \<Rightarrow> Some (ip_display (V4 a))
              | Some (V6 a) \<Rightarrow> Some (''['' @ ip_display (V6 a) @ '']'')
              | None \<Rightarrow> Some (if list_ex is_ascii_upper host then to_lower host else host))"

definition ipv6_parse :: "string \<Rightarrow> 128 word option" where
  "ipv6_parse s = map_option (\<lambda>gs. of_nat (foldl (\<lambda>n g. n * 65536 + g) 0 gs)) (ipv6_groups s)"

definition ipv4_is_loopback :: "32 word \<Rightarrow> bool" where
  "ipv4_is_loopback a \<longleftrightarrow> drop_bit 24 a = 127"

definition is_loopback :: "string \<Rightarrow> bool" where
  "is_loopback host =
     (if host = ''localhost'' \<or> ends_with ''.localhost'' host then True
      else (case Option.bind (strip_prefix ''['' host) (strip_suffix '']'') of
              Some inner \<Rightarrow>
                (case ipv6_parse inner of
                   Some a \<Rightarrow> a = 1 \<or> (case to_ipv4_mapped a of Some m \<Rightarrow> ipv4_is_loopback m | None \<Rightarrow> False)
                 | None \<Rightarrow> False)
            | None \<Rightarrow> (case ipv4_parse host of Some n \<Rightarrow> ipv4_is_loopback (of_nat n) | None \<Rightarrow> False)))"

definition hosts_new :: trusted_hosts where
  "hosts_new = \<lparr>allowed_hosts = [], loopback = False\<rparr>"

definition allow_host :: "trusted_hosts \<Rightarrow> string \<Rightarrow> trusted_hosts" where
  "allow_host t host =
     t\<lparr>allowed_hosts := allowed_hosts t @
       [case canonical host of Some c \<Rightarrow> if c \<noteq> host then c else host | None \<Rightarrow> host]\<rparr>"

definition allow_loopback :: "trusted_hosts \<Rightarrow> trusted_hosts" where
  "allow_loopback t = t\<lparr>loopback := True\<rparr>"

definition stated_host :: "('h, 'x) authority_ops_scheme \<Rightarrow> 'h \<Rightarrow> string option \<Rightarrow> string option" where
  "stated_host H hs authority =
     (case authority of
        Some a \<Rightarrow> Some (authority_host H a)
      | None \<Rightarrow> map_option (authority_host H) (Option.bind (get_first H hs ''host'') (authority_parse H)))"

definition hosts_admit :: "('h, 'x) authority_ops_scheme \<Rightarrow> trusted_hosts \<Rightarrow> 'h \<Rightarrow> string option \<Rightarrow> bool" where
  "hosts_admit H t hs authority =
     (case Option.bind (stated_host H hs authority) canonical of
        None \<Rightarrow> False
      | Some host \<Rightarrow> loopback t \<and> is_loopback host \<or> host \<in> set (allowed_hosts t))"

definition untrusted_host :: "('h, 'x) header_map_scheme \<Rightarrow> 'h reply" where
  "untrusted_host H = plain_reply (problem_response H 421 ''this server does not answer for the requested host'')"

definition hosts_intercept ::
  "('h, 'x) authority_ops_scheme \<Rightarrow> trusted_hosts \<Rightarrow> route option \<Rightarrow> ('h request \<Rightarrow> 'h run) \<Rightarrow> 'h request \<Rightarrow> 'h run" where
  "hosts_intercept H t at next r =
     (if hosts_admit H t (request_headers r) (uri_authority r) then next r else Returned (untrusted_host H))"

section \<open>Lemmas: hosts\<close>

text \<open>What a host names: an address, or a name in lower case.\<close>

datatype named_host = Address_host ip_addr | Named string

definition bare_host :: "string \<Rightarrow> string" where
  "bare_host host = (case strip_suffix ''.'' (trim host) of Some h \<Rightarrow> h | None \<Rightarrow> trim host)"

definition unbracketed :: "string \<Rightarrow> string" where
  "unbracketed host = (case Option.bind (strip_prefix ''['' host) (strip_suffix '']'') of Some h \<Rightarrow> h | None \<Rightarrow> host)"

definition host_names :: "string \<Rightarrow> named_host option" where
  "host_names host =
     (if bare_host host = [] then None
      else (case ip_parse (unbracketed (bare_host host)) of
              Some a \<Rightarrow> Some (Address_host a)
            | None \<Rightarrow> Some (Named (to_lower (bare_host host)))))"

fun host_text :: "named_host \<Rightarrow> string" where
  "host_text (Address_host (V4 a)) = ip_display (V4 a)"
| "host_text (Address_host (V6 a)) = ''['' @ ip_display (V6 a) @ '']''"
| "host_text (Named s) = s"

lemma to_lower_plain: "\<not> list_ex is_ascii_upper s \<Longrightarrow> to_lower s = s"
  by (induction s) (auto simp: ascii_lower_id)

lemma canonical_text: "canonical host = map_option host_text (host_names host)"
  by (auto simp: canonical_def host_names_def bare_host_def unbracketed_def Let_def to_lower_plain
        split: option.splits ip_addr.splits)

text \<open>Reading an address does not depend on the case of its letters.\<close>

lemma ascii_lower_other:
  assumes "\<not> is_ascii_alpha d"
  shows "ascii_lower c = d \<longleftrightarrow> c = d"
proof (cases "is_ascii_upper c")
  case True
  then have "is_ascii_alpha (ascii_lower c)" "is_ascii_alpha c" by (auto simp: bytes_simps byte_ascii_lower)
  then show ?thesis using assms by auto
qed (simp add: ascii_lower_id)

lemma split_lower: "\<not> is_ascii_alpha d \<Longrightarrow> split d (to_lower s) = map to_lower (split d s)"
  by (induction s) (auto simp: ascii_lower_other split: list.splits)

lemma digits_lower: "list_all is_ascii_digit (to_lower s) \<longleftrightarrow> list_all is_ascii_digit s"
  by (induction s) (auto simp: bytes_simps byte_ascii_lower)

lemma digits_lower_id: "list_all is_ascii_digit s \<Longrightarrow> to_lower s = s"
  by (induction s) (auto simp: bytes_simps intro!: ascii_lower_id)

lemma octet_parse_lower: "octet_parse (to_lower s) = octet_parse s"
proof (cases "list_all is_ascii_digit s")
  case True
  then show ?thesis by (simp add: digits_lower_id)
next
  case False
  then show ?thesis by (simp add: octet_parse_def digits_lower)
qed

lemma ipv4_parse_lower: "ipv4_parse (to_lower s) = ipv4_parse s"
proof -
  have "\<not> is_ascii_alpha CHR ''.''" by (simp add: bytes_simps)
  then have "map octet_parse (split CHR ''.'' (to_lower s)) = map octet_parse (split CHR ''.'' s)"
    by (simp add: split_lower octet_parse_lower)
  then show ?thesis by (simp only: ipv4_parse_def)
qed

lemma hex_val_lower: "hex_val (ascii_lower c) = hex_val c"
  by (auto simp: hex_val_def bytes_simps byte_ascii_lower)

lemma group_parse_lower: "group_parse (to_lower s) = group_parse s"
proof -
  have "list_all is_ascii_hexdigit (to_lower s) = list_all is_ascii_hexdigit s"
    by (induction s) (auto simp: bytes_simps byte_ascii_lower)
  moreover have "foldl (\<lambda>n c. n * 16 + hex_val c) v (to_lower s) = foldl (\<lambda>n c. n * 16 + hex_val c) v s" for v
    by (induction s arbitrary: v) (simp_all add: hex_val_lower)
  ultimately show ?thesis by (simp add: group_parse_def)
qed

lemma groups_parse_lower: "groups_parse (map to_lower gs) = groups_parse gs"
  by (induction gs rule: groups_parse.induct) (simp_all add: ipv4_parse_lower group_parse_lower cong: option.case_cong)

lemma try_group_lower: "try_map group_parse (map to_lower gs) = try_map group_parse gs"
  by (induction gs) (simp_all add: group_parse_lower cong: option.case_cong)

lemma lower_colon: "ascii_lower c = CHR '':'' \<longleftrightarrow> c = CHR '':''"
  by (rule ascii_lower_other) (simp add: bytes_simps)

lemma double_colon_lower:
  "split_double_colon (to_lower s) = map_option (\<lambda>(x, y). (to_lower x, to_lower y)) (split_double_colon s)"
  by (induction s rule: split_double_colon.induct)
     (auto simp: lower_colon option.map_comp comp_def case_prod_unfold)

lemma ipv6_groups_lower: "ipv6_groups (to_lower s) = ipv6_groups s"
proof -
  have c: "\<not> is_ascii_alpha CHR '':''" by (simp add: bytes_simps)
  show ?thesis
    by (cases "split_double_colon s")
       (auto simp: ipv6_groups_def double_colon_lower split_lower [OF c] groups_parse_lower try_group_lower cong: option.case_cong)
qed

lemma ip_parse_lower: "ip_parse (to_lower s) = ip_parse s"
  by (simp add: ip_parse_def ipv4_parse_lower ipv6_groups_lower cong: option.case_cong)

lemma strip_prefix_one: "strip_prefix [c] s = (case s of [] \<Rightarrow> None | x # xs \<Rightarrow> if x = c then Some xs else None)"
  by (cases s) auto

lemma unbracketed_lower: "unbracketed (to_lower s) = to_lower (unbracketed s)"
proof -
  have "\<not> is_ascii_alpha CHR ''[''" "\<not> is_ascii_alpha CHR '']''" by (simp_all add: bytes_simps)
  then have eq: "ascii_lower c = CHR ''['' \<longleftrightarrow> c = CHR ''[''" "CHR ''['' = ascii_lower c \<longleftrightarrow> c = CHR ''[''"
      "CHR '']'' = ascii_lower c \<longleftrightarrow> c = CHR '']''" for c
    using ascii_lower_other by metis+
  have "strip_suffix '']'' (to_lower x) = map_option to_lower (strip_suffix '']'' x)" for x
    by (cases x rule: rev_cases) (auto simp: strip_suffix_def strip_prefix_one eq rev_map)
  then show ?thesis
    by (cases s) (auto simp: unbracketed_def strip_prefix_one eq split: option.splits)
qed

lemma host_names_text:
  assumes "host_names host = Some (Named s)"
  shows "ip_parse (unbracketed s) = None"
  using assms by (auto simp: host_names_def unbracketed_lower ip_parse_lower split: if_splits option.splits)

lemma unbracketed_text: "ip_parse (unbracketed (host_text (Address_host a))) = Some a"
proof (cases a)
  case (V4 v)
  have "CHR ''['' \<notin> set (ipv4_display v)" using ipv4_parse_digits [OF ipv4_roundtrip, of "CHR ''[''" v] by (auto simp: bytes_simps)
  then have "unbracketed (ip_display (V4 v)) = ip_display (V4 v)"
    by (auto simp: unbracketed_def strip_prefix_one split: list.splits)
  then show ?thesis using ip_roundtrip [of a] V4 by simp
next
  case (V6 v)
  have "strip_suffix '']'' (ip_display (V6 v) @ '']'') = Some (ip_display (V6 v))" by (simp add: strip_suffix_Some del: ip_display.simps)
  then have "unbracketed (host_text (Address_host a)) = ip_display (V6 v)"
    by (simp add: V6 unbracketed_def strip_prefix_one del: ip_display.simps)
  then show ?thesis using ip_roundtrip [of a] V6 by (simp only:)
qed

text \<open>Two hosts have one canonical text exactly when they name the same host.\<close>

lemma host_text_reads:
  "host_names h = Some n \<Longrightarrow>
    ip_parse (unbracketed (host_text n)) = (case n of Address_host a \<Rightarrow> Some a | Named s \<Rightarrow> None)"
  by (cases n) (simp_all only: unbracketed_text host_names_text host_text.simps named_host.case)

lemma host_text_inject:
  assumes "host_names h = Some m" "host_names g = Some n" "host_text m = host_text n"
  shows "m = n"
proof -
  have "(case m of Address_host a \<Rightarrow> Some a | Named s \<Rightarrow> None) = (case n of Address_host a \<Rightarrow> Some a | Named s \<Rightarrow> None)"
    using host_text_reads [OF assms(1)] host_text_reads [OF assms(2)] unfolding assms(3) by (rule trans [OF sym])
  with assms(3) show ?thesis by (cases m; cases n) (simp_all del: ip_display.simps)
qed

text \<open>The hosts of this machine.\<close>

fun loopback_host :: "named_host \<Rightarrow> bool" where
  "loopback_host (Address_host (V4 a)) = ipv4_is_loopback a"
| "loopback_host (Address_host (V6 a)) =
     (a = 1 \<or> (case to_ipv4_mapped a of Some m \<Rightarrow> ipv4_is_loopback m | None \<Rightarrow> False))"
| "loopback_host (Named s) = (s = ''localhost'' \<or> ends_with ''.localhost'' s)"

lemma ip_parse_None: "ip_parse s = None \<Longrightarrow> ipv4_parse s = None \<and> ipv6_groups s = None"
  by (simp add: ip_parse_def split: option.splits)

lemma ipv6_parse_display: "ipv6_parse (ipv6_display a) = Some a"
proof -
  obtain gs where "ipv6_groups (ipv6_display a) = Some gs" "foldl (\<lambda>n g. n * 65536 + g) 0 gs = unat a"
    using ipv6_roundtrip by blast
  then show ?thesis by (simp add: ipv6_parse_def)
qed

lemma loopback_text:
  assumes "host_names h = Some n"
  shows "is_loopback (host_text n) \<longleftrightarrow> loopback_host n"
proof (cases n rule: loopback_host.cases)
  case (1 a)
  have d: "c \<in> set (ipv4_display a) \<Longrightarrow> is_ascii_digit c \<or> c = CHR ''.''" for c using ipv4_parse_digits [OF ipv4_roundtrip] by blast
  have "ipv4_display a \<noteq> ''localhost''" using d [of "CHR ''l''"] by (auto simp: bytes_simps)
  moreover have "\<not> ends_with ''.localhost'' (ipv4_display a)" using d [of "CHR ''l''"] by (auto simp: ends_with_iff bytes_simps)
  moreover have "strip_prefix ''['' (ipv4_display a) = None"
    using d [of "CHR ''[''"] by (cases "ipv4_display a") (auto simp: bytes_simps)
  ultimately show ?thesis by (simp add: 1 is_loopback_def ipv4_roundtrip)
next
  case (2 a)
  have "\<not> ends_with ''.localhost'' (''['' @ ipv6_display a @ '']'')" by (auto simp: ends_with_iff)
  moreover have "strip_suffix '']'' (ipv6_display a @ '']'') = Some (ipv6_display a)" by (simp add: strip_suffix_Some)
  ultimately show ?thesis by (simp add: 2 is_loopback_def ipv6_parse_display)
next
  case (3 s)
  then have none: "ip_parse (unbracketed s) = None" using assms host_names_text by blast
  then show ?thesis using ip_parse_None [OF none]
    by (auto simp: 3 is_loopback_def unbracketed_def ipv6_parse_def split: option.splits)
qed

text \<open>A configuration keeps the canonical text of each host it was given.\<close>

lemma allow_host_named:
  "host_names g = Some n \<Longrightarrow> allow_host t g = t\<lparr>allowed_hosts := allowed_hosts t @ [host_text n]\<rparr>"
  by (simp add: allow_host_def canonical_text)

lemma allowed_named:
  "\<forall>g\<in>set gs. host_names g \<noteq> None \<Longrightarrow>
    foldl allow_host t gs = t\<lparr>allowed_hosts := allowed_hosts t @ map (host_text \<circ> the \<circ> host_names) gs\<rparr>"
  by (induction gs arbitrary: t) (auto simp: allow_host_named)

lemma host_text_listed:
  assumes "\<forall>g\<in>set gs. host_names g \<noteq> None" "host_names h = Some n"
  shows "host_text n \<in> set (map (host_text \<circ> the \<circ> host_names) gs) \<longleftrightarrow> (\<exists>g\<in>set gs. host_names g = Some n)"
proof
  assume "host_text n \<in> set (map (host_text \<circ> the \<circ> host_names) gs)"
  then obtain g m where g: "g \<in> set gs" "host_names g = Some m" "host_text n = host_text m" using assms(1) by force
  then show "\<exists>g\<in>set gs. host_names g = Some n" using host_text_inject [OF assms(2) g(2,3)] by blast
qed force

definition configured_hosts :: "bool \<Rightarrow> string list \<Rightarrow> trusted_hosts" where
  "configured_hosts lp gs = foldl allow_host (if lp then allow_loopback hosts_new else hosts_new) gs"

lemma configured_hosts_named:
  "\<forall>g\<in>set gs. host_names g \<noteq> None \<Longrightarrow>
    configured_hosts lp gs = \<lparr>allowed_hosts = map (host_text \<circ> the \<circ> host_names) gs, loopback = lp\<rparr>"
  by (simp add: configured_hosts_def allowed_named allow_loopback_def hosts_new_def)

section \<open>Lemmas: cross-site requests\<close>

lemma find_text_prefix:
  assumes "CHR '':'' \<notin> set scheme"
  shows "find_text ''://'' (scheme @ ''://'' @ rest) = Some (scheme, rest)"
  using assms by (induction scheme) auto

lemma authority_of_origin:
  assumes "CHR '':'' \<notin> set scheme" "trim (scheme @ ''://'' @ rest) = scheme @ ''://'' @ rest"
  shows "authority_of (scheme @ ''://'' @ rest) = to_lower rest"
  using find_text_prefix [OF assms(1), of rest] by (simp only: authority_of_def assms(2) option.case prod.case)

text \<open>
  A request that may change state and names an origin runs only where the origin is trusted, where the browser says
  it comes from this site or from the user, or, of a browser that says neither, where the origin's authority is the
  server's own.
\<close>

theorem unsafe_runs_only_from_here:
  assumes "\<not> csrf_safe (verb r)" "Option.bind (get_first H (request_headers r) ''origin'') (to_str H) = Some (scheme @ ''://'' @ rest)"
    and "CHR '':'' \<notin> set scheme" "trim (scheme @ ''://'' @ rest) = scheme @ ''://'' @ rest"
    and "\<forall>x. next x \<noteq> Returned (cross_site H)"
  shows "csrf_intercept H c at next r \<noteq> Returned (cross_site H) \<longleftrightarrow>
      (\<exists>t\<in>set (trusted_origins c). to_lower t = to_lower (scheme @ ''://'' @ rest)) \<or>
      (case Option.bind (get_first H (request_headers r) ''sec-fetch-site'') (to_str H) of
         Some site \<Rightarrow> trim site \<in> {''same-origin'', ''none''}
       | None \<Rightarrow> own_authority H (request_headers r) (uri_authority r) = Some (to_lower rest))"
proof -
  define ori where "ori = scheme @ ''://'' @ rest"
  have o: "authority_of ori = to_lower rest" "trim ori = ori"
    using authority_of_origin [OF assms(3,4)] assms(4) unfolding ori_def by blast+
  show ?thesis unfolding ori_def [symmetric] using assms(1,5) assms(2) [folded ori_def]
    by (auto simp: csrf_intercept_def permits_request_def decides_def Let_def trusts_def o list_ex_iff eq_nocase_def
        split: option.splits)
qed

section \<open>Properties\<close>



text \<open>
  A host that names none is kept as it came, and may then match one: \<open>.\<close> names no host, but the host \<open>..\<close> of a
  request has it as its canonical text.
\<close>

theorem nameless_admits:
  assumes "authority_host H a = ''..''"
  shows "canonical ''.'' = None" "hosts_admit H (allow_host hosts_new ''.'') hs (Some a)"
proof -
  have "trim ''.'' = ''.''" "trim ''..'' = ''..''" by (rule trim_id, simp add: is_ascii_graphic_def)+
  moreover have "ip_parse ''.'' = None"
    by (simp add: ip_parse_def ipv4_parse_def octet_parse_def ipv6_groups_def group_parse_def hex_val_def bytes_simps)
  moreover have "strip_suffix ''.'' ''.'' = Some ''''" "strip_suffix ''.'' ''..'' = Some ''.''" by code_simp+
  ultimately have c: "canonical ''.'' = None" "canonical ''..'' = Some ''.''"
    by (simp_all add: canonical_def bytes_simps)
  then show "canonical ''.'' = None" "hosts_admit H (allow_host hosts_new ''.'') hs (Some a)"
    using assms by (simp_all add: hosts_admit_def stated_host_def allow_host_def hosts_new_def)
qed

end
