(* ===== verification/Streams.thy ===== *)
theory Streams
  imports Json_Records
begin

text \<open>
  Responses delivered record by record (\<open>src/crates/kynos/src/response/stream\<close>): Server-Sent Events with their
  keep-alive and shutdown (\<open>sse.rs\<close>), and streamed JSON (\<open>json.rs\<close>), over the buffer they share (\<open>mod.rs\<close>).

  A stream is the list of what polling it yields, \<open>Pending\<close> included; the end of the list is its end. The buffer's
  capacity is left out: it decides only when memory is allocated. \<open>serde_json::to_writer\<close> is a parameter, the error
  it fails with and the octets written until then; so is the clock, whose additions may overflow.
\<close>

section \<open>The buffer of records\<close>

record record_buffer =
  block :: string
  last_len :: nat

definition buffer_new :: record_buffer where
  "buffer_new = \<lparr>block = [], last_len = 0\<rparr>"

definition buffer_record ::
  "(string \<Rightarrow> 'e option \<times> string) \<Rightarrow> record_buffer \<Rightarrow> ('e + string) \<times> record_buffer" where
  "buffer_record write b =
     (case write (block b) of
        (None, written) \<Rightarrow> (Inr written, \<lparr>block = [], last_len = length written\<rparr>)
      | (Some e, _) \<Rightarrow> (Inl e, b\<lparr>block := []\<rparr>))"

section \<open>Streamed JSON\<close>

type_synonym ('a, 'e) to_writer = "'a \<Rightarrow> 'e option \<times> string"

definition NEWLINE :: string where "NEWLINE = [char_of (10 :: nat)]"
definition SEQUENCE_PREFIX :: string where "SEQUENCE_PREFIX = [RECORD_SEPARATOR]"

record 'a framed =
  framed_items :: "'a poll list"
  framed_prefix :: string
  framed_suffix :: string
  framed_records :: record_buffer

definition framed_new :: "'a poll list \<Rightarrow> string \<Rightarrow> string \<Rightarrow> 'a framed" where
  "framed_new items prefix suffix =
     \<lparr>framed_items = items, framed_prefix = prefix, framed_suffix = suffix, framed_records = buffer_new\<rparr>"

definition framed_encode ::
  "('a, 'e) to_writer \<Rightarrow> record_buffer \<Rightarrow> 'a \<Rightarrow> string \<Rightarrow> string \<Rightarrow> ('e + string) \<times> record_buffer" where
  "framed_encode W records item prefix suffix =
     buffer_record (\<lambda>record. case W item of
         (None, json) \<Rightarrow> (None, record @ prefix @ json @ suffix)
       | (Some e, json) \<Rightarrow> (Some e, record @ prefix @ json)) records"

definition framed_poll :: "('a, 'e) to_writer \<Rightarrow> 'a framed \<Rightarrow> ('e + string) option poll \<times> 'a framed" where
  "framed_poll W f =
     (case framed_items f of
        Ready item # items \<Rightarrow>
          (let (r, records) = framed_encode W (framed_records f) item (framed_prefix f) (framed_suffix f)
           in (Ready (Some r), f\<lparr>framed_items := items, framed_records := records\<rparr>))
      | Pending # items \<Rightarrow> (Pending, f\<lparr>framed_items := items\<rparr>)
      | [] \<Rightarrow> (Ready None, f))"

text \<open>\<open>JsonLines\<close> and \<open>JsonSeq\<close> as responses: the stream and its media type.\<close>

definition json_lines_response :: "'a poll list \<Rightarrow> 'a framed \<times> string" where
  "json_lines_response items = (framed_new items [] NEWLINE, records_media_type Lines)"

definition json_seq_response :: "'a poll list \<Rightarrow> 'a framed \<times> string" where
  "json_seq_response items = (framed_new items SEQUENCE_PREFIX NEWLINE, SEQUENCE_MEDIA_TYPE)"

fun json_response :: "record_framing \<Rightarrow> 'a poll list \<Rightarrow> 'a framed \<times> string" where
  "json_response Lines items = json_lines_response items"
| "json_response Sequence items = json_seq_response items"

text \<open>What polling such a body to its end yields.\<close>

function framed_body :: "('a, 'e) to_writer \<Rightarrow> 'a framed \<Rightarrow> ('e + string) poll list" where
  "framed_body W f =
     (case framed_poll W f of
        (Ready None, _) \<Rightarrow> []
      | (Ready (Some r), f') \<Rightarrow> Ready r # framed_body W f'
      | (Pending, f') \<Rightarrow> Pending # framed_body W f')"
  by pat_completeness auto
termination
  by (relation "measure (\<lambda>(_, f). length (framed_items f))")
     (auto simp: framed_poll_def case_prod_beta split: list.splits poll.splits)

declare framed_body.simps [simp del]

section \<open>Server-Sent Events\<close>

record keep_alive =
  ka_interval :: nat
  ka_comment :: string

definition keep_alive_new :: keep_alive where
  "keep_alive_new = \<lparr>ka_interval = 15 * nanos_per_sec, ka_comment = []\<rparr>"

text \<open>None where the builder panics.\<close>

definition keep_interval :: "keep_alive \<Rightarrow> nat \<Rightarrow> keep_alive option" where
  "keep_interval k d = (if d = 0 then None else Some (k\<lparr>ka_interval := d\<rparr>))"

definition keep_comment :: "keep_alive \<Rightarrow> string \<Rightarrow> keep_alive" where
  "keep_comment k c = k\<lparr>ka_comment := c\<rparr>"

record 'd event =
  event_data :: 'd
  event_name :: "string option"
  event_id :: "string option"
  event_retry :: "nat option"
  event_comment :: "string option"

definition event_new :: "'d \<Rightarrow> 'd event" where
  "event_new d = \<lparr>event_data = d, event_name = None, event_id = None, event_retry = None, event_comment = None\<rparr>"

text \<open>Writing a field, a line of it for each line of its value.\<close>

definition is_break :: "char \<Rightarrow> bool" where
  [bytes_simps]: "is_break c \<longleftrightarrow> byte c = 13 \<or> byte c = 10"

definition push_line :: "string \<Rightarrow> string \<Rightarrow> string \<Rightarrow> string" where
  "push_line record' name line = record' @ name @ '': '' @ line @ NEWLINE"

function write_field :: "string \<Rightarrow> string \<Rightarrow> string \<Rightarrow> string" where
  "write_field record' name rest =
     (case position is_break rest of
        Some stop \<Rightarrow>
          (let width = (if starts_with (map char_of [13, 10 :: nat]) (drop stop rest) then 2 else 1)
           in write_field (push_line record' name (take stop rest)) name (drop (stop + width) rest))
      | None \<Rightarrow> push_line record' name rest)"
  by pat_completeness auto
termination
  by (relation "measure (\<lambda>(_, _, rest). length rest)") (auto simp: position_Some)

declare write_field.simps [simp del]

definition milliseconds :: "nat \<Rightarrow> nat" where
  "milliseconds retry =
     (let whole = retry div 1000000 in if retry mod nanos_per_sec mod 1000000 > 0 then whole + 1 else whole)"

definition write_optional :: "string \<Rightarrow> string \<Rightarrow> string option \<Rightarrow> string" where
  "write_optional record' name v = (case v of None \<Rightarrow> record' | Some v \<Rightarrow> write_field record' name v)"

definition event_fields :: "string \<Rightarrow> 'd event \<Rightarrow> string \<Rightarrow> string" where
  "event_fields record' event json =
     (let record' = write_optional record' [] (event_comment event);
          record' = write_optional record' ''event'' (event_name event);
          record' = write_optional record' ''id'' (event_id event);
          record' = write_optional record' ''retry'' (map_option (\<lambda>r. decimal (milliseconds r)) (event_retry event))
      in write_field record' ''data'' json @ NEWLINE)"

text \<open>What became of the record, and the data buffer, cleared before it is written.\<close>

definition event_encode :: "('d, 'e) to_writer \<Rightarrow> string \<Rightarrow> 'd event \<Rightarrow> ('e option \<times> string) \<times> string" where
  "event_encode W record' event =
     (case W (event_data event) of
        (Some e, json) \<Rightarrow> ((Some e, record'), json)
      | (None, json) \<Rightarrow> ((None, event_fields record' event json), json))"

record clock_ops =
  instant_add :: "nat \<Rightarrow> nat \<Rightarrow> nat option"
  sleep_deadline :: "nat \<Rightarrow> nat \<Rightarrow> nat"

record heartbeat =
  interval :: nat
  deadline :: nat
  heartbeat_octets :: string

definition heartbeat_record :: "string \<Rightarrow> string" where
  "heartbeat_record c = write_field [] [] c @ NEWLINE"

definition heartbeat_new :: "('c) clock_ops_scheme \<Rightarrow> nat \<Rightarrow> keep_alive \<Rightarrow> heartbeat" where
  "heartbeat_new C now k =
     \<lparr>interval = ka_interval k, deadline = sleep_deadline C now (ka_interval k),
      heartbeat_octets = heartbeat_record (ka_comment k)\<rparr>"

text \<open>None where adding to the instant panics.\<close>

definition restart :: "('c) clock_ops_scheme \<Rightarrow> nat \<Rightarrow> heartbeat \<Rightarrow> heartbeat option" where
  "restart C now h = map_option (\<lambda>d. h\<lparr>deadline := d\<rparr>) (instant_add C now (interval h))"

record ('d, 'x) sse =
  sse_events :: "('x + 'd event) poll list"
  sse_keep :: "heartbeat option"
  sse_buffer :: record_buffer
  sse_data :: string
  sse_shutdown :: bool
  sse_ended :: bool

text \<open>\<open>Sse::into_response\<close>: the body's stream, and its media type; \<open>drains\<close> where a shutdown may end it.\<close>

definition sse_response ::
  "('c) clock_ops_scheme \<Rightarrow> nat \<Rightarrow> ('x + 'd event) poll list \<Rightarrow> keep_alive option \<Rightarrow> bool \<Rightarrow> ('d, 'x) sse \<times> string" where
  "sse_response C now events keep drains =
     (\<lparr>sse_events = events, sse_keep = map_option (heartbeat_new C now) keep, sse_buffer = buffer_new, sse_data = [],
       sse_shutdown = drains, sse_ended = False\<rparr>, ''text/event-stream'')"

definition sse_write :: "('d, 'e) to_writer \<Rightarrow> 'd event \<Rightarrow> ('d, 'x) sse \<Rightarrow> ('e + string) \<times> ('d, 'x) sse" where
  "sse_write W event r =
     (let (written, buffer) = buffer_record (\<lambda>record'. fst (event_encode W record' event)) (sse_buffer r)
      in (written, r\<lparr>sse_buffer := buffer, sse_data := snd (event_encode W [] event)\<rparr>))"

text \<open>
  One poll, at the instant \<open>now\<close>, the shutdown having begun or not. None where it panics.
\<close>

definition sse_poll ::
  "('c) clock_ops_scheme \<Rightarrow> ('d, 'e) to_writer \<Rightarrow> ('x \<Rightarrow> 'e) \<Rightarrow> nat \<Rightarrow> bool \<Rightarrow> ('d, 'x) sse \<Rightarrow>
   (('e + string) option poll \<times> ('d, 'x) sse) option" where
  "sse_poll C W boxed now begun r =
     (if sse_ended r then Some (Ready None, r)
      else if sse_shutdown r \<and> begun then Some (Ready None, r\<lparr>sse_shutdown := False, sse_ended := True\<rparr>)
      else case sse_events r of
        Ready (Inr event) # events \<Rightarrow>
          (let r = r\<lparr>sse_events := events\<rparr>
           in case sse_keep r of
                None \<Rightarrow> (let (written, r) = sse_write W event r in Some (Ready (Some written), r))
              | Some h \<Rightarrow>
                  (case restart C now h of
                     None \<Rightarrow> None
                   | Some h \<Rightarrow>
                       (let (written, r) = sse_write W event (r\<lparr>sse_keep := Some h\<rparr>) in Some (Ready (Some written), r))))
      | Ready (Inl e) # events \<Rightarrow> Some (Ready (Some (Inl (boxed e))), r\<lparr>sse_events := events\<rparr>)
      | [] \<Rightarrow> Some (Ready None, r)
      | Pending # events \<Rightarrow>
          (let r = r\<lparr>sse_events := events\<rparr>
           in case sse_keep r of
                None \<Rightarrow> Some (Pending, r)
              | Some h \<Rightarrow>
                  if deadline h \<le> now
                  then (case restart C now h of
                          None \<Rightarrow> None
                        | Some h \<Rightarrow> Some (Ready (Some (Inr (heartbeat_octets h))), r\<lparr>sse_keep := Some h\<rparr>))
                  else Some (Pending, r)))"

text \<open>What a sequence of polls yields, up to a panic.\<close>

fun sse_run ::
  "('c) clock_ops_scheme \<Rightarrow> ('d, 'e) to_writer \<Rightarrow> ('x \<Rightarrow> 'e) \<Rightarrow> (nat \<times> bool) list \<Rightarrow> ('d, 'x) sse \<Rightarrow>
   ('e + string) option poll list \<times> ('d, 'x) sse" where
  "sse_run C W boxed [] r = ([], r)"
| "sse_run C W boxed ((now, begun) # schedule) r =
     (case sse_poll C W boxed now begun r of
        None \<Rightarrow> ([], r)
      | Some (p, r) \<Rightarrow> (let (ps, r) = sse_run C W boxed schedule r in (p # ps, r)))"

fun frames_octets :: "('e + string) option poll list \<Rightarrow> string" where
  "frames_octets [] = []"
| "frames_octets (Ready (Some (Inr frame)) # ps) = frame @ frames_octets ps"
| "frames_octets (_ # ps) = frames_octets ps"

section \<open>What a client reads\<close>

text \<open>
  An event stream as its format defines it (WHATWG HTML section 9.2.6): lines ended by CRLF, LF or CR, each a field,
  a comment or the blank line that dispatches an event. What follows the last line end is discarded.
\<close>

fun break_lines :: "string \<Rightarrow> string list" where
  "break_lines [] = [[]]"
| "break_lines [c] = (if is_break c then [[], []] else [[c]])"
| "break_lines (c # d # s) =
     (if byte c = 13 \<and> byte d = 10 then [] # break_lines s
      else if is_break c then [] # break_lines (d # s)
      else (case break_lines (d # s) of [] \<Rightarrow> [] | p # ps \<Rightarrow> (c # p) # ps))"

definition stream_lines :: "string \<Rightarrow> string list" where
  "stream_lines octets = butlast (break_lines octets)"

record message =
  message_type :: string
  message_data :: string
  message_id :: string

record client =
  data_buffer :: string
  type_buffer :: string
  last_id :: string
  retry_after :: "nat option"
  messages :: "message list"

definition client_new :: client where
  "client_new = \<lparr>data_buffer = [], type_buffer = [], last_id = [], retry_after = None, messages = []\<rparr>"

definition client_field :: "string \<Rightarrow> string \<Rightarrow> client \<Rightarrow> client" where
  "client_field name v c =
     (if name = ''event'' then c\<lparr>type_buffer := v\<rparr>
      else if name = ''data'' then c\<lparr>data_buffer := data_buffer c @ v @ NEWLINE\<rparr>
      else if name = ''id'' then (if char_of (0 :: nat) \<in> set v then c else c\<lparr>last_id := v\<rparr>)
      else if name = ''retry'' then (if v \<noteq> [] \<and> list_all is_ascii_digit v then c\<lparr>retry_after := Some (dec_val v)\<rparr> else c)
      else c)"

definition client_dispatch :: "client \<Rightarrow> client" where
  "client_dispatch c =
     (if data_buffer c = [] then c\<lparr>type_buffer := []\<rparr>
      else c\<lparr>data_buffer := [], type_buffer := [],
             messages := messages c @
               [\<lparr>message_type = (if type_buffer c = [] then ''message'' else type_buffer c),
                 message_data = butlast (data_buffer c), message_id = last_id c\<rparr>]\<rparr>)"

definition client_line :: "string \<Rightarrow> client \<Rightarrow> client" where
  "client_line line c =
     (if line = [] then client_dispatch c
      else case split_once CHR '':'' line of
        None \<Rightarrow> client_field line [] c
      | Some ([], _) \<Rightarrow> c
      | Some (name, v) \<Rightarrow> client_field name (case strip_prefix '' '' v of Some v \<Rightarrow> v | None \<Rightarrow> v) c)"

definition client_read :: "string \<Rightarrow> client \<Rightarrow> client" where
  "client_read octets c = fold client_line (stream_lines octets) c"

section \<open>Lemmas: streamed JSON\<close>

lemma buffer_record_block: "block b = [] \<Longrightarrow> block (snd (buffer_record w b)) = []"
  by (simp add: buffer_record_def split: option.split prod.split)

lemma framed_body_simps:
  "framed_items f = [] \<Longrightarrow> framed_body W f = []"
  "framed_items f = Pending # items \<Longrightarrow> framed_body W f = Pending # framed_body W (f\<lparr>framed_items := items\<rparr>)"
  "framed_items f = Ready item # items \<Longrightarrow>
    framed_body W f =
      (let (r, records) = framed_encode W (framed_records f) item (framed_prefix f) (framed_suffix f)
       in Ready r # framed_body W (f\<lparr>framed_items := items, framed_records := records\<rparr>))"
  by (subst framed_body.simps, simp add: framed_poll_def case_prod_beta)+

text \<open>The items a stream yields.\<close>

fun ready_items :: "'a poll list \<Rightarrow> 'a list" where
  "ready_items [] = []"
| "ready_items (Pending # items) = ready_items items"
| "ready_items (Ready item # items) = item # ready_items items"

lemma framed_encode_written:
  assumes "fst (W v) = None" "block b = []"
  shows "fst (framed_encode W b v p s) = Inr (p @ snd (W v) @ s)" "block (snd (framed_encode W b v p s)) = []"
  using assms by (auto simp: framed_encode_def buffer_record_def split: prod.split)

lemma framed_body_octets:
  assumes "\<forall>v\<in>set (ready_items items). fst (W v) = None" "block b = []"
  shows "body_octets (framed_body W \<lparr>framed_items = items, framed_prefix = p, framed_suffix = s, framed_records = b\<rparr>) =
      concat (map (\<lambda>v. p @ snd (W v) @ s) (ready_items items)) \<and>
    body_failure (framed_body W \<lparr>framed_items = items, framed_prefix = p, framed_suffix = s, framed_records = b\<rparr>) = None"
  using assms
proof (induction items arbitrary: b rule: ready_items.induct)
  case (3 v items)
  then have "fst (W v) = None" by simp
  note written = framed_encode_written [of W v b p s, OF this 3(3)]
  obtain r b' where e: "framed_encode W b v p s = (r, b')" by fastforce
  show ?case using 3(1) [of b'] 3(2) written unfolding e by (subst (1 2) framed_body_simps(3), simp, simp, simp) (simp add: e Let_def)
qed (simp_all add: framed_body_simps)

text \<open>
  Octets a writer made, a record each, are framed into those records again: each is neither empty nor padded and
  holds no delimiter.
\<close>

definition frameable :: "record_framing \<Rightarrow> nat \<Rightarrow> string \<Rightarrow> bool" where
  "frameable f limit s \<longleftrightarrow> s \<noteq> [] \<and> trim_ascii s = s \<and> delimiter_of f \<notin> set s \<and> length s < limit"

fun record_prefix :: "record_framing \<Rightarrow> string" where
  "record_prefix Lines = []"
| "record_prefix Sequence = SEQUENCE_PREFIX"

lemma json_response_framed: "fst (json_response f items) = framed_new items (record_prefix f) NEWLINE"
  by (cases f) (simp_all add: json_lines_response_def json_seq_response_def)

lemma trim_ascii_newline: "trim_ascii s = s \<Longrightarrow> s \<noteq> [] \<Longrightarrow> trim_ascii (s @ NEWLINE) = s"
proof -
  assume s: "trim_ascii s = s" "s \<noteq> []"
  obtain d where d: "dropWhile is_ascii_ws s = d" by blast
  have "length d \<le> length s" unfolding d [symmetric] by (rule length_dropWhile_le)
  have "\<not> is_ascii_ws (hd s)"
  proof
    assume "is_ascii_ws (hd s)"
    then have "length (dropWhile is_ascii_ws s) < length s" using s(2) length_dropWhile_le [of is_ascii_ws "tl s"] by (cases s) auto
    moreover have "length (trim_ascii s) \<le> length (dropWhile is_ascii_ws s)"
      by (simp add: trim_ascii_def trim_with_def trim_end_with_def) (metis length_dropWhile_le length_rev)
    ultimately show False using s(1) by simp
  qed
  then have "dropWhile is_ascii_ws (s @ t) = s @ t" for t using s(2) by (cases s) auto
  moreover from this [of "[]"] have "trim_end_with is_ascii_ws s = s" using s(1) by (simp add: trim_ascii_def trim_with_def)
  ultimately show ?thesis
    by (simp add: trim_ascii_def trim_with_def trim_end_with_def NEWLINE_def is_ascii_ws_def)
qed

lemma take_to_delimiter:
  "d \<notin> set s \<Longrightarrow> takeWhile (\<lambda>b. b \<noteq> d) (s @ d # rest) = s"
  "d \<notin> set s \<Longrightarrow> dropWhile (\<lambda>b. b \<noteq> d) (s @ d # rest) = d # rest"
  by (induction s) auto

lemma whole_records_frame:
  assumes "frameable f limit s" "decode_item J i s = (item, False)"
    and "f = Sequence \<Longrightarrow> rest = [] \<or> hd rest = RECORD_SEPARATOR"
  shows "whole_records J None f limit i (record_prefix f @ s @ NEWLINE @ rest) = item # whole_records J None f limit (i + 1) rest"
proof (cases f)
  case Lines
  have "takeWhile (\<lambda>b. b \<noteq> delimiter_of f) (s @ NEWLINE @ rest) = s" "dropWhile (\<lambda>b. b \<noteq> delimiter_of f) (s @ NEWLINE @ rest) = NEWLINE @ rest"
    using assms(1) by (auto simp: Lines frameable_def NEWLINE_def take_to_delimiter)
  then show ?thesis
    using assms(1,2) by (subst whole_records.simps) (auto simp: Lines frameable_def NEWLINE_def)
next
  case Sequence
  have "RECORD_SEPARATOR \<noteq> char_of (10 :: nat)" by (simp add: RECORD_SEPARATOR_def)
  then have "takeWhile (\<lambda>b. b \<noteq> delimiter_of f) (s @ NEWLINE @ rest) = s @ NEWLINE"
      "dropWhile (\<lambda>b. b \<noteq> delimiter_of f) (s @ NEWLINE @ rest) = rest"
    using assms(1,3) take_to_delimiter [of RECORD_SEPARATOR "s @ NEWLINE" "tl rest"]
    by (cases rest; auto simp: Sequence frameable_def NEWLINE_def takeWhile_eq_all_conv)+
  moreover have "trim_ascii (s @ NEWLINE) = s" using assms(1) by (intro trim_ascii_newline) (auto simp: frameable_def)
  ultimately show ?thesis
    using assms(1,2)
    by (subst whole_records.simps) (auto simp: Sequence frameable_def SEQUENCE_PREFIX_def NEWLINE_def)
qed

lemma whole_records_written:
  assumes "\<forall>v\<in>set vs. frameable f limit (snd (W v)) \<and> (\<forall>i. decode_item J i (snd (W v)) = (Inr (read_back v), False))"
  shows "whole_records J None f limit i (concat (map (\<lambda>v. record_prefix f @ snd (W v) @ NEWLINE) vs)) = map (Inr \<circ> read_back) vs"
  using assms
proof (induction vs arbitrary: i)
  case (Cons v vs)
  let ?rest = "concat (map (\<lambda>v. record_prefix f @ snd (W v) @ NEWLINE) vs)"
  have "f = Sequence \<Longrightarrow> ?rest = [] \<or> hd ?rest = RECORD_SEPARATOR" by (cases vs) (auto simp: SEQUENCE_PREFIX_def)
  then show ?case using Cons whole_records_frame [of f limit "snd (W v)" J i "Inr (read_back v)" ?rest] by simp
qed (simp add: whole_records.simps)

text \<open>What the writer makes of a value is one record, read as that value.\<close>

definition reads_back :: "('a, 'r, 'x) json_ops_scheme \<Rightarrow> ('a, 'e) to_writer \<Rightarrow> record_framing \<Rightarrow> nat \<Rightarrow> 'a \<Rightarrow> bool" where
  "reads_back J W f limit v \<longleftrightarrow>
     (case W v of (failed, json) \<Rightarrow>
        failed = None \<and> frameable f limit json \<and> deserialize J json = Inr v \<and> trailing J json = None) \<and>
     (\<forall>at. checked J v at = Inr v)"

lemma reads_back_item:
  assumes "reads_back J W f limit v"
  shows "fst (W v) = None" "frameable f limit (snd (W v))" "decode_item J i (snd (W v)) = (Inr v, False)"
  using assms by (auto simp: reads_back_def decode_item_def json_from_slice_def)

lemma first_rejection_values: "first_rejection (map Inr vs) = Inr vs"
  by (induction vs) simp_all

lemma json_body_written:
  assumes "\<forall>v\<in>set (ready_items items). reads_back J W f limit v"
  shows "body_octets (framed_body W (fst (json_response f items))) =
      concat (map (\<lambda>v. record_prefix f @ snd (W v) @ NEWLINE) (ready_items items))"
  using framed_body_octets [of items W buffer_new "record_prefix f" NEWLINE] assms reads_back_item(1)
  by (fastforce simp: json_response_framed framed_new_def buffer_new_def)

section \<open>Lemmas: the lines of a value\<close>

abbreviation broken :: "string \<Rightarrow> bool" where
  "broken l \<equiv> \<exists>c\<in>set l. is_break c"

lemma break_lines_not_Nil [simp]: "break_lines s \<noteq> []"
  by (induction s rule: break_lines.induct) (auto split: list.splits)

lemma break_lines_all: "\<forall>l\<in>set (break_lines s). \<not> broken l"
proof (induction s rule: break_lines.induct)
  case (3 c d s)
  consider "byte c = 13 \<and> byte d = 10" | "\<not> (byte c = 13 \<and> byte d = 10)" "is_break c"
    | "\<not> (byte c = 13 \<and> byte d = 10)" "\<not> is_break c" by blast
  then show ?case
  proof cases
    case 3
    obtain p ps where b: "break_lines (d # s) = p # ps" by (cases "break_lines (d # s)") simp_all
    show ?thesis unfolding break_lines.simps(3) [of c d s] if_not_P [OF 3(1)] if_not_P [OF 3(2)] b
      using "3.IH"(3) [OF 3] 3(2) unfolding b by simp
  qed (use 3 in \<open>simp_all only: break_lines.simps(3) if_True if_False simp_thms list.set, simp_all\<close>)
qed simp_all

lemma break_lines_plain: "l \<in> set (break_lines s) \<Longrightarrow> \<not> broken l"
  using break_lines_all by blast

lemma break_lines_none: "\<not> broken s \<Longrightarrow> break_lines s = [s]"
  by (induction s rule: break_lines.induct) (simp_all add: is_break_def)

lemma break_lines_at:
  assumes "\<not> broken a" "is_break c"
  shows "break_lines (a @ c # s) =
    a # break_lines (if starts_with (map char_of [13, 10 :: nat]) (c # s) then tl s else s)"
  using assms
proof (induction a)
  case Nil
  show ?case
  proof (cases s)
    case (Cons d t)
    have "starts_with (map char_of [13, 10 :: nat]) (c # d # t) \<longleftrightarrow> byte c = 13 \<and> byte d = 10"
      by (auto simp: starts_with_def byte_inject [symmetric])
    then show ?thesis using Nil Cons by (auto simp: is_break_def)
  qed (use Nil in \<open>simp add: starts_with_def\<close>)
next
  case (Cons x a)
  then have "\<not> is_break x" "\<not> byte x = 13" by (auto simp: is_break_def)
  then show ?case using Cons by (cases "a @ c # s") auto
qed

lemma position_break:
  assumes "position is_break s = Some n"
  shows "s = take n s @ s ! n # drop (Suc n) s" "\<not> broken (take n s)" "is_break (s ! n)" "drop n s = s ! n # drop (Suc n) s"
  using assms by (auto simp: position_Some id_take_nth_drop [symmetric] in_set_conv_nth Cons_nth_drop_Suc)

lemma write_value_lines:
  "write_field record' name v = record' @ concat (map (\<lambda>l. name @ '': '' @ l @ NEWLINE) (break_lines v))"
proof (induction record' name v rule: write_field.induct)
  case (1 record' name rest)
  show ?case
  proof (cases "position is_break rest")
    case None
    then have "break_lines rest = [rest]" by (intro break_lines_none) (auto simp: position_None)
    then show ?thesis by (simp add: write_field.simps [of _ _ rest] None push_line_def)
  next
    case (Some stop)
    note at = position_break [OF Some]
    let ?width = "if starts_with (map char_of [13, 10 :: nat]) (drop stop rest) then 2 else 1 :: nat"
    have "break_lines rest = take stop rest # break_lines (drop (stop + ?width) rest)"
      using break_lines_at [OF at(2,3), of "drop (Suc stop) rest"] at(1)
      by (simp add: at(4) drop_Suc [symmetric] tl_drop numeral_2_eq_2 flip: drop_Suc)
    moreover have "write_field record' name rest =
        write_field (push_line record' name (take stop rest)) name (drop (stop + ?width) rest)"
      by (subst write_field.simps) (simp add: Some Let_def)
    ultimately show ?thesis using 1 [OF Some refl] by (simp add: push_line_def)
  qed
qed

section \<open>Lemmas: what a client reads\<close>

abbreviation ended_lines :: "string list \<Rightarrow> string" where
  "ended_lines ls \<equiv> concat (map (\<lambda>l. l @ NEWLINE) ls)"

lemma stream_lines_line: "\<not> broken l \<Longrightarrow> stream_lines (l @ NEWLINE @ s) = l # stream_lines s"
  using break_lines_at [of l "char_of (10 :: nat)" s]
  by (auto simp: stream_lines_def NEWLINE_def is_break_def starts_with_def byte_inject [symmetric])

lemma stream_lines_append: "\<forall>l\<in>set ls. \<not> broken l \<Longrightarrow> stream_lines (ended_lines ls @ s) = ls @ stream_lines s"
  by (induction ls) (auto simp: stream_lines_line [simplified])

lemma client_read_lines:
  "\<forall>l\<in>set ls. \<not> broken l \<Longrightarrow> client_read (ended_lines ls @ s) c = client_read s (fold client_line ls c)"
  by (simp add: client_read_def stream_lines_append)

definition value_lines :: "string \<Rightarrow> string \<Rightarrow> string list" where
  "value_lines name v = map (\<lambda>l. name @ '': '' @ l) (break_lines v)"

lemma write_field_ended: "write_field record' name v = record' @ ended_lines (value_lines name v)"
  by (simp add: write_value_lines value_lines_def comp_def)

lemma value_lines_plain:
  assumes "\<not> broken name"
  shows "\<forall>l\<in>set (value_lines name v). \<not> broken l"
  using assms break_lines_all [of v] by (auto simp: value_lines_def is_break_def)

lemma client_line_field:
  assumes "name \<noteq> []" "CHR '':'' \<notin> set name"
  shows "client_line (name @ '': '' @ l) c = client_field name l c"
proof -
  have "split_once CHR '':'' (name @ '': '' @ l) = Some (name, '' '' @ l)" using assms(2) by (simp add: split_once_Some)
  then show ?thesis using assms(1) by (cases name) (simp_all add: client_line_def)
qed

lemma client_comment: "fold client_line (value_lines [] v) c = c"
proof -
  have "client_line ('': '' @ l) c = c" for l by (simp add: client_line_def)
  then have "fold client_line (map (\<lambda>l. [] @ '': '' @ l) ls) c = c" for ls by (induction ls) simp_all
  then show ?thesis by (simp only: value_lines_def)
qed

lemma client_fields:
  assumes "name \<noteq> []" "CHR '':'' \<notin> set name"
  shows "fold client_line (value_lines name v) c = fold (client_field name) (break_lines v) c"
proof -
  have "fold client_line (map (\<lambda>l. name @ '': '' @ l) ls) c = fold (client_field name) ls c" for ls
    by (induction ls arbitrary: c) (simp_all only: client_line_field [OF assms] list.map fold.simps comp_def)
  then show ?thesis by (simp only: value_lines_def)
qed

lemma client_event_type: "ls \<noteq> [] \<Longrightarrow> fold (client_field ''event'') ls c = c\<lparr>type_buffer := last ls\<rparr>"
  by (induction ls arbitrary: c) (auto simp: client_field_def)

lemma client_data: "fold (client_field ''data'') ls c = c\<lparr>data_buffer := data_buffer c @ ended_lines ls\<rparr>"
  by (induction ls arbitrary: c) (simp_all add: client_field_def)

definition id_line :: "string \<Rightarrow> string \<Rightarrow> string" where
  "id_line l prev = (if char_of (0 :: nat) \<in> set l then prev else l)"

lemma client_id: "fold (client_field ''id'') ls c = c\<lparr>last_id := fold id_line ls (last_id c)\<rparr>"
  by (induction ls arbitrary: c) (simp_all add: client_field_def id_line_def)

lemma client_retry: "fold (client_field ''retry'') (break_lines (decimal n)) c = c\<lparr>retry_after := Some n\<rparr>"
proof -
  have "break_lines (decimal n) = [decimal n]"
    using decimal_digits [of n] by (intro break_lines_none) (auto simp: bytes_simps)
  then show ?thesis using decimal_digits [of n] by (simp add: client_field_def list_all_iff)
qed

text \<open>An event whole, from a client between two events.\<close>

definition optional_lines :: "string \<Rightarrow> string option \<Rightarrow> string list" where
  "optional_lines name v = (case v of None \<Rightarrow> [] | Some v \<Rightarrow> value_lines name v)"

definition event_lines :: "'d event \<Rightarrow> string \<Rightarrow> string list" where
  "event_lines event json =
     optional_lines [] (event_comment event) @ optional_lines ''event'' (event_name event) @
     optional_lines ''id'' (event_id event) @
     optional_lines ''retry'' (map_option (\<lambda>r. decimal (milliseconds r)) (event_retry event)) @
     value_lines ''data'' json @ [[]]"

lemma write_optional_ended: "write_optional record' name v = record' @ ended_lines (optional_lines name v)"
  by (simp add: write_optional_def optional_lines_def write_field_ended split: option.split)

lemma event_fields_ended: "event_fields record' event json = record' @ ended_lines (event_lines event json)"
  by (simp add: event_fields_def event_lines_def write_optional_ended write_field_ended Let_def)

lemma optional_lines_plain: "\<not> broken name \<Longrightarrow> \<forall>l\<in>set (optional_lines name v). \<not> broken l"
  by (cases v) (simp_all add: optional_lines_def value_lines_plain)

lemma event_lines_plain: "\<forall>l\<in>set (event_lines event json). \<not> broken l"
  unfolding event_lines_def set_append ball_Un
  by (intro conjI optional_lines_plain value_lines_plain) (simp_all add: is_break_def)

definition id_after :: "string \<Rightarrow> 'd event \<Rightarrow> string" where
  "id_after prev event = (case event_id event of None \<Rightarrow> prev | Some v \<Rightarrow> fold id_line (break_lines v) prev)"

definition message_of :: "string \<Rightarrow> 'd event \<Rightarrow> string \<Rightarrow> message" where
  "message_of prev event json =
     \<lparr>message_type =
        (case event_name event of
           None \<Rightarrow> ''message''
         | Some name \<Rightarrow> if last (break_lines name) = [] then ''message'' else last (break_lines name)),
      message_data = join NEWLINE (break_lines json),
      message_id = id_after prev event\<rparr>"

definition receive_event :: "'d event \<Rightarrow> string \<Rightarrow> client \<Rightarrow> client" where
  "receive_event event json c =
     c\<lparr>last_id := id_after (last_id c) event,
       retry_after := (case event_retry event of None \<Rightarrow> retry_after c | Some r \<Rightarrow> Some (milliseconds r)),
       messages := messages c @ [message_of (last_id c) event json]\<rparr>"

definition between_events :: "client \<Rightarrow> bool" where
  "between_events c \<longleftrightarrow> data_buffer c = [] \<and> type_buffer c = []"

lemma butlast_ended: "ls \<noteq> [] \<Longrightarrow> butlast (ended_lines ls) = join NEWLINE ls"
proof (induction ls)
  case (Cons l ls)
  then show ?case by (cases ls) (simp_all add: NEWLINE_def butlast_append)
qed simp

lemma client_event:
  assumes "between_events c"
  shows "client_read (event_fields [] event json @ s) c = client_read s (receive_event event json c)"
proof -
  have name: "fold client_line (optional_lines ''event'' v) c =
      (case v of None \<Rightarrow> c | Some v \<Rightarrow> c\<lparr>type_buffer := last (break_lines v)\<rparr>)" for v c
    by (simp add: optional_lines_def client_fields client_event_type split: option.split)
  have id: "fold client_line (optional_lines ''id'' v) c =
      (case v of None \<Rightarrow> c | Some v \<Rightarrow> c\<lparr>last_id := fold id_line (break_lines v) (last_id c)\<rparr>)" for v c
    by (simp add: optional_lines_def client_fields client_id split: option.split)
  have retry: "fold client_line (optional_lines ''retry'' (map_option (\<lambda>r. decimal (milliseconds r)) v)) c =
      (case v of None \<Rightarrow> c | Some r \<Rightarrow> c\<lparr>retry_after := Some (milliseconds r)\<rparr>)" for v c
    by (simp add: optional_lines_def client_fields client_retry split: option.split)
  have comment: "fold client_line (optional_lines [] v) c = c" for v c
    by (simp add: optional_lines_def client_comment split: option.split)
  have data: "fold client_line (value_lines ''data'' json) c = c\<lparr>data_buffer := data_buffer c @ ended_lines (break_lines json)\<rparr>" for c
    by (simp add: client_fields client_data)
  have "ended_lines (break_lines json) \<noteq> []" by (cases "break_lines json") (simp_all add: NEWLINE_def)
  then have "fold client_line (event_lines event json) c = receive_event event json c"
    using assms
    by (simp add: event_lines_def name id retry comment data client_line_def client_dispatch_def between_events_def
        receive_event_def message_of_def id_after_def butlast_ended split: option.split)
  then show ?thesis using client_read_lines [OF event_lines_plain, of event json s c] by (simp add: event_fields_ended)
qed

lemma client_heartbeat:
  assumes "between_events c"
  shows "client_read (heartbeat_record comment @ s) c = client_read s c"
proof -
  have "heartbeat_record comment = ended_lines (value_lines [] comment @ [[]])"
    by (simp add: heartbeat_record_def write_field_ended)
  moreover have "\<forall>l\<in>set (value_lines [] comment @ [[]]). \<not> broken l" using value_lines_plain [of "[]" comment] by simp
  moreover have "fold client_line (value_lines [] comment @ [[]]) c = c"
    using assms by (simp add: client_comment client_line_def client_dispatch_def between_events_def)
  ultimately show ?thesis using client_read_lines by metis
qed

section \<open>Lemmas: an event stream\<close>

text \<open>The messages of the events a stream yielded, an event that does not serialize having none.\<close>

fun received :: "('d, 'e) to_writer \<Rightarrow> string \<Rightarrow> ('x + 'd event) poll list \<Rightarrow> message list" where
  "received W prev [] = []"
| "received W prev (Ready (Inr event) # items) =
     (case W (event_data event) of
        (None, json) \<Rightarrow> message_of prev event json # received W (id_after prev event) items
      | (Some _, _) \<Rightarrow> received W prev items)"
| "received W prev (_ # items) = received W prev items"

definition receive_item :: "('d, 'e) to_writer \<Rightarrow> ('x + 'd event) poll \<Rightarrow> client \<Rightarrow> client" where
  "receive_item W item c =
     (case item of
        Ready (Inr event) \<Rightarrow> (case W (event_data event) of (None, json) \<Rightarrow> receive_event event json c | (Some _, _) \<Rightarrow> c)
      | _ \<Rightarrow> c)"

lemma receive_items: "messages (fold (receive_item W) items c) = messages c @ received W (last_id c) items"
proof (induction items arbitrary: c)
  case (Cons item items)
  then show ?case
    by (auto simp: receive_item_def receive_event_def split: poll.split sum.split option.split prod.split)
qed simp

lemma receive_item_between: "between_events c \<Longrightarrow> between_events (receive_item W item c)"
  by (auto simp: receive_item_def receive_event_def between_events_def split: poll.split sum.split option.split prod.split)

definition sse_intact :: "('d, 'x) sse \<Rightarrow> bool" where
  "sse_intact r \<longleftrightarrow> block (sse_buffer r) = [] \<and>
     (case sse_keep r of None \<Rightarrow> True | Some h \<Rightarrow> \<exists>comment. heartbeat_octets h = heartbeat_record comment)"

lemma restart_octets: "restart C now h = Some h' \<Longrightarrow> heartbeat_octets h' = heartbeat_octets h"
  by (auto simp: restart_def)

lemma sse_write_frame:
  assumes "block (sse_buffer r) = []"
  shows "sse_write W event r =
    (case W (event_data event) of
       (None, json) \<Rightarrow> (Inr (event_fields [] event json),
          r\<lparr>sse_buffer := \<lparr>block = [], last_len = length (event_fields [] event json)\<rparr>, sse_data := json\<rparr>)
     | (Some e, json) \<Rightarrow> (Inl e, r\<lparr>sse_buffer := (sse_buffer r)\<lparr>block := []\<rparr>, sse_data := json\<rparr>))"
  using assms by (simp add: sse_write_def buffer_record_def event_encode_def split: option.split prod.split)

text \<open>A write takes nothing but the buffers.\<close>

lemma sse_write_keeps:
  fixes r :: "('d, 'x) sse"
  assumes "sse_write W event r = (written, r')" "sse_intact r" "between_events c"
  shows "sse_events r' = sse_events r" "sse_intact r'"
    "client_read (frames_octets [Ready (Some written)] @ s) c = client_read s (receive_item W (Ready (Inr event) :: ('x + 'd event) poll) c)"
proof -
  have b: "block (sse_buffer r) = []" using assms(2) by (simp add: sse_intact_def)
  show "sse_events r' = sse_events r" "sse_intact r'"
    using assms(1,2) unfolding sse_write_frame [OF b] by (auto simp: sse_intact_def split: prod.splits option.splits)
  show "client_read (frames_octets [Ready (Some written)] @ s) c = client_read s (receive_item W (Ready (Inr event) :: ('x + 'd event) poll) c)"
    using assms(1) unfolding sse_write_frame [OF b]
    by (auto simp: receive_item_def client_event [OF assms(3)] split: prod.splits option.splits)
qed

text \<open>A poll takes at most one item of the source, and a client reads what it yields as that item.\<close>

lemma sse_poll_reads:
  assumes "sse_poll C W boxed now begun r = Some (p, r')" "sse_intact r" "between_events c"
  shows "sse_intact r' \<and> (\<exists>used. sse_events r = used @ sse_events r' \<and>
    (\<forall>s. client_read (frames_octets [p] @ s) c = client_read s (fold (receive_item W) used c)))"
proof -
  consider "sse_ended r \<or> sse_shutdown r \<and> begun \<or> sse_events r = []"
    | event events where "\<not> sse_ended r" "\<not> (sse_shutdown r \<and> begun)" "sse_events r = Ready (Inr event) # events"
    | e events where "\<not> sse_ended r" "\<not> (sse_shutdown r \<and> begun)" "sse_events r = Ready (Inl e) # events"
    | events where "\<not> sse_ended r" "\<not> (sse_shutdown r \<and> begun)" "sse_events r = Pending # events"
    by (metis list.exhaust poll.exhaust sum.exhaust)
  then show ?thesis
  proof cases
    case 1
    then have "p = Ready None" "sse_events r' = sse_events r" "sse_intact r'"
      using assms(1,2) by (auto simp: sse_poll_def sse_intact_def split: if_splits list.splits)
    then show ?thesis by (intro conjI exI [of _ "[]"]) simp_all
  next
    case (2 event events)
    have "\<exists>r1 written. sse_write W event r1 = (written, r') \<and> p = Ready (Some written) \<and> sse_events r1 = events \<and> sse_intact r1"
    proof (cases "sse_keep r")
      case None
      then show ?thesis using assms(1,2) 2
        by (intro exI [of _ "r\<lparr>sse_events := events\<rparr>"]) (auto simp: sse_poll_def sse_intact_def split: prod.splits)
    next
      case (Some h)
      then obtain h' where h': "restart C now h = Some h'" using assms(1) 2 by (auto simp: sse_poll_def split: option.splits)
      then show ?thesis using assms(1,2) 2 Some restart_octets [OF h']
        by (intro exI [of _ "r\<lparr>sse_events := events, sse_keep := Some h'\<rparr>"])
           (auto simp: sse_poll_def sse_intact_def split: prod.splits)
    qed
    then obtain r1 written where w: "sse_write W event r1 = (written, r')" "p = Ready (Some written)"
        "sse_events r1 = events" "sse_intact r1"
      by blast
    from sse_write_keeps [OF w(1,4) assms(3)] show ?thesis
      using 2(3) w(2,3) by (intro conjI exI [of _ "[Ready (Inr event)]"]) simp_all
  next
    case (3 e events)
    then have "p = Ready (Some (Inl (boxed e)))" "r' = r\<lparr>sse_events := events\<rparr>" using assms(1) 3(3)
      unfolding sse_poll_def if_not_P [OF 3(1)] if_not_P [OF 3(2)] by simp_all
    then show ?thesis using 3(3) assms(2)
      by (intro conjI exI [of _ "[Ready (Inl e)]"]) (simp_all add: receive_item_def sse_intact_def)
  next
    case (4 events)
    have "sse_events r' = events \<and> sse_intact r' \<and> (frames_octets [p] = [] \<or> (\<exists>comment. frames_octets [p] = heartbeat_record comment))"
      using assms(1,2) 4(3) restart_octets
      unfolding sse_poll_def if_not_P [OF 4(1)] if_not_P [OF 4(2)]
      by (fastforce simp: sse_intact_def Let_def split: option.splits if_splits)
    then show ?thesis using 4(3) client_heartbeat [OF assms(3)]
      by (intro conjI exI [of _ "[Pending]"]) (auto simp: receive_item_def)
  qed
qed

lemma frames_octets_Cons: "frames_octets (p # ps) = frames_octets [p] @ frames_octets ps"
  by (cases p) (simp_all, case_tac x2, simp_all, case_tac a, simp_all)

lemma fold_receive_between: "between_events c \<Longrightarrow> between_events (fold (receive_item W) items c)"
  by (induction items arbitrary: c) (simp_all add: receive_item_between)

lemma sse_run_reads:
  assumes "sse_run C W boxed schedule r = (ps, r')" "sse_intact r" "between_events c"
  shows "\<exists>used. sse_events r = used @ sse_events r' \<and>
    client_read (frames_octets ps) c = client_read [] (fold (receive_item W) used c)"
  using assms
proof (induction C W boxed schedule r arbitrary: ps r' c rule: sse_run.induct)
  case (2 C W boxed now begun schedule r)
  show ?case
  proof (cases "sse_poll C W boxed now begun r")
    case None
    then show ?thesis using 2(2) by (intro exI [of _ "[]"]) simp
  next
    case (Some x)
    then obtain p r1 where x: "sse_poll C W boxed now begun r = Some (p, r1)" by (cases x) simp
    obtain ps1 where rest: "sse_run C W boxed schedule r1 = (ps1, r')" "ps = p # ps1"
      using 2(2) x by (simp split: prod.splits)
    obtain used where u: "sse_intact r1" "sse_events r = used @ sse_events r1"
        "\<forall>s. client_read (frames_octets [p] @ s) c = client_read s (fold (receive_item W) used c)"
      using sse_poll_reads [OF x 2(3,4)] by blast
    obtain later where l: "sse_events r1 = later @ sse_events r'"
        "client_read (frames_octets ps1) (fold (receive_item W) used c) =
         client_read [] (fold (receive_item W) later (fold (receive_item W) used c))"
      using 2(1) [OF x refl rest(1) u(1) fold_receive_between [OF 2(4)]] by blast
    show ?thesis using u(2,3) l rest(2) by (intro exI [of _ "used @ later"]) (simp add: frames_octets_Cons [of p ps1])
  qed
qed simp

text \<open>While no shutdown begins and the clock holds out, every poll takes an item.\<close>

definition poll_takes :: "('c) clock_ops_scheme \<Rightarrow> ('d, 'x) sse \<Rightarrow> nat \<times> bool \<Rightarrow> bool" where
  "poll_takes C r = (\<lambda>(now, begun). \<not> (sse_shutdown r \<and> begun) \<and>
     (case sse_keep r of None \<Rightarrow> True | Some h \<Rightarrow> instant_add C now (interval h) \<noteq> None))"

lemma sse_write_same:
  assumes "sse_write W event r = (written, r')"
  shows "sse_events r' = sse_events r" "sse_ended r' = sse_ended r" "sse_shutdown r' = sse_shutdown r" "sse_keep r' = sse_keep r"
  using assms by (auto simp: sse_write_def split: prod.splits)

lemma restart_interval: "restart C now h = Some h' \<Longrightarrow> interval h' = interval h"
  by (auto simp: restart_def)

lemma sse_poll_takes:
  assumes "\<not> sse_ended r" "poll_takes C r (now, begun)"
  shows "\<exists>p r'. sse_poll C W boxed now begun r = Some (p, r') \<and> sse_events r' = tl (sse_events r) \<and> \<not> sse_ended r' \<and>
    poll_takes C r' = poll_takes C r"
proof -
  have live: "\<not> (sse_shutdown r \<and> begun)" using assms(2) by (simp add: poll_takes_def)
  have same: "poll_takes C r' = poll_takes C r"
    if "sse_shutdown r' = sse_shutdown r" "map_option interval (sse_keep r') = map_option interval (sse_keep r)" for r'
    using that by (cases "sse_keep r"; cases "sse_keep r'") (auto simp: poll_takes_def)
  note poll = sse_poll_def [of C W boxed now begun r, unfolded if_not_P [OF assms(1)] if_not_P [OF live]]
  have keep: "\<exists>k. (case sse_keep r of None \<Rightarrow> k = None | Some h \<Rightarrow> \<exists>h'. restart C now h = Some h' \<and> k = Some h')"
    using assms(2) by (cases "sse_keep r") (auto simp: poll_takes_def restart_def)
  show ?thesis
  proof (cases "sse_events r")
    case Nil
    then show ?thesis using assms(1) by (simp add: poll)
  next
    case (Cons item events)
    note here = poll [unfolded Cons list.case]
    consider "item = Pending" | e where "item = Ready (Inl e)" | event where "item = Ready (Inr event)"
      by (metis poll.exhaust sum.exhaust)
    then show ?thesis
    proof cases
      case 1
      show ?thesis
      proof (cases "sse_keep r")
        case None
        then show ?thesis using assms(1) Cons 1 same [of "r\<lparr>sse_events := events\<rparr>"] by (simp add: here Let_def)
      next
        case (Some h)
        then obtain h' where h': "restart C now h = Some h'" using keep by auto
        then show ?thesis
          using assms(1) Cons 1 Some restart_interval [OF h'] same [of "r\<lparr>sse_events := events\<rparr>"]
            same [of "r\<lparr>sse_events := events, sse_keep := Some h'\<rparr>"]
          by (simp add: here Let_def)
      qed
    next
      case 2
      then show ?thesis using assms(1) Cons same [of "r\<lparr>sse_events := events\<rparr>"] by (simp add: here)
    next
      case (3 event)
      have written: "\<exists>p r'. (let (written, r') = sse_write W event r1 in Some (Ready (Some written), r')) = Some (p, r') \<and>
          sse_events r' = events \<and> \<not> sse_ended r' \<and> poll_takes C r' = poll_takes C r"
        if "sse_events r1 = events" "sse_ended r1 = sse_ended r" "sse_shutdown r1 = sse_shutdown r"
          "map_option interval (sse_keep r1) = map_option interval (sse_keep r)" for r1
      proof -
        obtain written r' where w: "sse_write W event r1 = (written, r')" by fastforce
        note keeps = sse_write_same [OF w]
        have "poll_takes C r' = poll_takes C r" by (rule same) (simp_all add: keeps that)
        then show ?thesis using assms(1) by (simp add: w keeps that)
      qed
      show ?thesis
      proof (cases "sse_keep r")
        case None
        then show ?thesis using written [of "r\<lparr>sse_events := events\<rparr>"] Cons 3 by (simp add: here Let_def)
      next
        case (Some h)
        then obtain h' where h': "restart C now h = Some h'" using keep by auto
        show ?thesis
          using written [of "r\<lparr>sse_events := events, sse_keep := Some h'\<rparr>"] Cons 3 Some h' restart_interval [OF h']
          by (simp add: here Let_def)
      qed
    qed
  qed
qed

lemma sse_run_takes:
  "\<not> sse_ended r \<Longrightarrow> list_all (poll_takes C r) schedule \<Longrightarrow>
    length (sse_events (snd (sse_run C W boxed schedule r))) = length (sse_events r) - length schedule"
proof (induction schedule arbitrary: r)
  case (Cons x schedule)
  obtain now begun where x: "x = (now, begun)" by fastforce
  then obtain p r' where p: "sse_poll C W boxed now begun r = Some (p, r')" "sse_events r' = tl (sse_events r)"
      "\<not> sse_ended r'" "poll_takes C r' = poll_takes C r"
    using sse_poll_takes [OF Cons.prems(1), of C now begun W boxed] Cons.prems(2) by auto
  then show ?case using Cons.IH [OF p(3)] Cons.prems(2) by (simp add: x case_prod_beta Let_def)
qed simp

section \<open>Properties\<close>

text \<open>C4: A client reads from an event stream exactly the events it was given, in order. However the source, the
  timer and the shutdown interleave, and whatever line breaks a name, an identifier, a comment or a payload holds, the
  octets sent parse as the messages of the events taken from the source, none of them cut and no field forged; and
  while no shutdown begins and the clock holds out, every poll takes an item.\<close>

theorem sse_client_reads:
  "let (ps, r) = sse_run C W boxed schedule (fst (sse_response C start events keep drains))
   in \<exists>used. events = used @ sse_events r \<and>
     messages (client_read (frames_octets ps) client_new) = received W [] used \<and>
     (list_all (\<lambda>(now, begun). \<not> (drains \<and> begun) \<and>
         (case keep of None \<Rightarrow> True | Some k \<Rightarrow> instant_add C now (ka_interval k) \<noteq> None)) schedule \<longrightarrow>
      length used = min (length schedule) (length events))"
proof -
  let ?r = "fst (sse_response C start events keep drains)"
  obtain ps r where run: "sse_run C W boxed schedule ?r = (ps, r)" by fastforce
  have "sse_intact ?r" by (auto simp: sse_response_def sse_intact_def buffer_new_def heartbeat_new_def split: option.split)
  moreover have "between_events client_new" by (simp add: between_events_def client_new_def)
  ultimately obtain used where u: "sse_events ?r = used @ sse_events r"
      "client_read (frames_octets ps) client_new = client_read [] (fold (receive_item W) used client_new)"
    using sse_run_reads [OF run] by blast
  have m: "messages (client_read (frames_octets ps) client_new) = received W [] used"
    unfolding u(2) using receive_items [of W used client_new] by (simp add: client_read_def stream_lines_def client_new_def)
  have start: "sse_events ?r = events" "\<not> sse_ended ?r" by (simp_all add: sse_response_def)
  have takes: "poll_takes C ?r = (\<lambda>(now, begun). \<not> (drains \<and> begun) \<and>
      (case keep of None \<Rightarrow> True | Some k \<Rightarrow> instant_add C now (ka_interval k) \<noteq> None))"
    by (auto simp: poll_takes_def sse_response_def heartbeat_new_def fun_eq_iff split: option.split)
  have len: "list_all (poll_takes C ?r) schedule \<longrightarrow> length used = min (length schedule) (length events)"
  proof
    assume "list_all (poll_takes C ?r) schedule"
    from sse_run_takes [OF start(2) this, of W boxed] have "length (sse_events r) = length events - length schedule"
      by (simp add: run start(1))
    moreover have "length events = length used + length (sse_events r)" using u(1) start(1) by (metis length_append)
    ultimately show "length used = min (length schedule) (length events)" by arith
  qed
  show ?thesis unfolding run Let_def prod.case
    using u(1) [unfolded start(1)] m len [unfolded takes] by blast
qed

theorem sse_client_reads_witness:
  "\<exists>used. [Ready (Inr (event_new ''hi''))] = used \<and>
     messages (client_read (frames_octets (fst (sse_run \<lparr>instant_add = (\<lambda>a b. Some (a + b)), sleep_deadline = (+)\<rparr>
       (\<lambda>d. (None :: unit option, d)) id [(0, False), (1, False)]
       (fst (sse_response \<lparr>instant_add = (\<lambda>a b. Some (a + b)), sleep_deadline = (+)\<rparr> 0
         [Ready (Inr (event_new ''hi'')) :: (unit + string event) poll] (Some keep_alive_new) False))))) client_new)
     = received (\<lambda>d. (None :: unit option, d)) [] used"
proof -
  let ?C = "\<lparr>instant_add = (\<lambda>a b. Some (a + b)), sleep_deadline = (+)\<rparr>"
  let ?e = "[Ready (Inr (event_new ''hi'')) :: (unit + string event) poll]"
  obtain ps r where run: "sse_run ?C (\<lambda>d. (None :: unit option, d)) id [(0, False), (1, False)]
      (fst (sse_response ?C 0 ?e (Some keep_alive_new) False)) = (ps, r)" by fastforce
  from sse_client_reads [of ?C "\<lambda>d. (None :: unit option, d)" id "[(0, False), (1, False)]" 0 ?e "Some keep_alive_new" False]
  obtain used where u: "?e = used @ sse_events r" "length used = 1"
      "messages (client_read (frames_octets ps) client_new) = received (\<lambda>d. (None :: unit option, d)) [] used"
    unfolding run by auto
  then have "used = ?e" by (cases used) auto
  then show ?thesis unfolding run using u(3) by simp
qed

text \<open>C29: What a streamed JSON response writes, the reader of a streamed JSON body reads back: the values of the
  source in order and nothing else, line by line or as a text sequence, in whatever chunks the octets arrive and
  however often either side has to wait, as long as each value's text reads back as that value.\<close>

theorem streamed_json_read_back:
  assumes "records_new H hs extension arriving f = Inr r" "limit_of extension < u64_max"
    and "body_octets arriving = body_octets (framed_body W (fst (json_response f items)))" "body_failure arriving = None"
    and "\<forall>v\<in>set (ready_items items). reads_back J W f (limit_of extension) v"
  shows "read_all J E [] r = Inr (ready_items items)"
proof -
  have "whole_records J None f (limit_of extension) 0 (body_octets arriving) = map (Inr \<circ> id) (ready_items items)"
    unfolding assms(3) json_body_written [OF assms(5)]
    by (rule whole_records_written) (use assms(5) reads_back_item in \<open>fastforce\<close>)
  then show ?thesis using records_as_whole [OF assms(1,2), of J E] assms(4) by (simp add: first_rejection_values)
qed

theorem streamed_json_read_back_witness:
  "\<exists>r. records_new fun_headers ndjson_headers (Some 8)
        [Ready (Inr ''a''), Pending, Ready (Inr [char_of (10 :: nat), CHR ''b'', char_of (10 :: nat)])] Lines = Inr r \<and>
     read_all string_json (\<lparr>error_chain = (\<lambda>_. []), as_stall = (\<lambda>_. None), error_text = (\<lambda>_. [])\<rparr> :: unit error_ops) [] r
       = Inr [''a'', ''b'']"
proof -
  let ?E = "\<lparr>error_chain = (\<lambda>_. []), as_stall = (\<lambda>_. None), error_text = (\<lambda>_. [])\<rparr> :: unit error_ops"
  let ?W = "(\<lambda>s. (None, s)) :: (string, unit) to_writer"
  let ?body = "[Ready (Inr ''a''), Pending, Ready (Inr [char_of (10 :: nat), CHR ''b'', char_of (10 :: nat)])] :: (unit + string) poll list"
  let ?items = "[Ready ''a'', Pending, Ready ''b'']"
  obtain r where r: "records_new fun_headers ndjson_headers (Some 8) ?body Lines = Inr r"
    using ndjson_admitted by (simp add: records_new_def)
  have "body_octets ?body = body_octets (framed_body ?W (fst (json_response Lines ?items)))" by code_simp
  moreover have "\<forall>v\<in>set (ready_items ?items). reads_back string_json ?W Lines (limit_of (Some 8)) v"
    by (auto simp: reads_back_def frameable_def limit_of_def string_json_def checked_def violations_of_def
        trim_ascii_def trim_with_def trim_end_with_def bytes_simps
        byte_inject [symmetric])
  moreover have "limit_of (Some 8) < u64_max" by (simp add: limit_of_def u64_max_def)
  ultimately have "read_all string_json ?E [] r = Inr (ready_items ?items)"
    using streamed_json_read_back [OF r, of ?W ?items string_json ?E] by simp
  then show ?thesis using r by auto
qed

end
