(* ===== verification/Response_Policy.thy ===== *)
theory Response_Policy
  imports Dispatch Entity_Tag
begin

unbundle bit_operations_syntax

text \<open>
  Interceptors that decide on the response: the 304 for a copy that is current
  (\<open>src/crates/kynos/src/middleware/conditional/mod.rs\<close>), the identifier a request is correlated by
  (\<open>request_id.rs\<close>) and the baseline security fields (\<open>security_headers.rs\<close>). The keyed hash of the standard library
  is a parameter of the random identifiers.
\<close>

section \<open>Conditional requests\<close>

record held_copy =
  held_first :: string
  held_rest :: "string list"

definition readable :: "('h, 'x) header_map_scheme \<Rightarrow> string \<Rightarrow> bool" where
  "readable H line \<longleftrightarrow> to_str H line \<noteq> None"

definition preconditions_decode :: "('h, 'x) header_map_scheme \<Rightarrow> 'h \<Rightarrow> held_copy option" where
  "preconditions_decode H hs =
     (case filter (readable H) (get_all H hs ''if-none-match'') of
        [] \<Rightarrow> None
      | first # rest \<Rightarrow> Some \<lparr>held_first = first, held_rest = rest\<rparr>)"

definition held_lines :: "held_copy \<Rightarrow> string list" where
  "held_lines c = held_first c # held_rest c"

definition held_texts :: "('h, 'x) header_map_scheme \<Rightarrow> held_copy \<Rightarrow> string list" where
  "held_texts H c = filter_map (to_str H) (held_lines c)"

definition held_tags :: "('h, 'x) header_map_scheme \<Rightarrow> held_copy \<Rightarrow> string list option" where
  "held_tags H c =
     (if list_ex (\<lambda>text'. listed text' = None) (held_texts H c) then None
      else Some (concat (map etag_split (held_texts H c))))"

definition REPLAYED :: "string list" where
  "REPLAYED = [''cache-control'', ''content-location'', ''date'', ''etag'', ''expires'', ''vary'', ''age'', ''last-modified'']"

definition not_modified_from :: "('h, 'x) header_map_scheme \<Rightarrow> 'h \<Rightarrow> 'h" where
  "not_modified_from H hs =
     foldl (\<lambda>replayed name. foldl (\<lambda>replayed v. append_field H replayed name v) replayed (get_all H hs name))
       (new_map H) REPLAYED"

definition not_modified :: "('h, 'x) header_map_scheme \<Rightarrow> 'h \<Rightarrow> 'h reply" where
  "not_modified H replayed = plain_reply ((bodiless H 304)\<lparr>headers := replayed\<rparr>)"

definition answers_not_modified :: "string \<Rightarrow> bool" where
  "answers_not_modified m \<longleftrightarrow> m = ''GET'' \<or> m = ''HEAD'' \<or> m = ''QUERY''"

definition copy_matched :: "('h, 'x) header_map_scheme \<Rightarrow> held_copy \<Rightarrow> 'h \<Rightarrow> bool" where
  "copy_matched H c hs =
     (case Option.bind (get_first H hs ''etag'') (to_str H) of
        None \<Rightarrow> False
      | Some current \<Rightarrow> if_none_match_lines H (held_lines c) (Some current) = Some True)"

definition conditional_intercept ::
  "('h, 'x) header_map_scheme \<Rightarrow> route option \<Rightarrow> ('h request \<Rightarrow> 'h run) \<Rightarrow> 'h request \<Rightarrow> 'h run" where
  "conditional_intercept H at next r =
     (let reads = preconditions_decode H (request_headers r);
          retrieval = answers_not_modified (verb r)
      in case next r of
           Panicked payload \<Rightarrow> Panicked payload
         | Returned continued \<Rightarrow>
             (case (if retrieval then reads else None) of
                None \<Rightarrow> Returned continued
              | Some condition \<Rightarrow>
                  if status (response_of continued) \<noteq> 200 then Returned continued
                  else if copy_matched H condition (headers (response_of continued))
                  then Returned (not_modified H (not_modified_from H (headers (response_of continued))))
                  else Returned continued))"

section \<open>Correlation identifiers\<close>

text \<open>\<open>Digits::value\<close>: the digits written so far are at the end of a buffer of \<open>N\<close> octets, from \<open>start\<close> on. None
  where the buffer runs out, which panics.\<close>

definition DIGITS :: string where "DIGITS = ''0123456789abcdef''"

function digits_loop :: "nat \<Rightarrow> nat \<Rightarrow> nat \<Rightarrow> nat \<Rightarrow> nat \<Rightarrow> string \<Rightarrow> string option" where
  "digits_loop N radix width n start written =
     (if start > N - width \<or> n > 0
      then (if start = 0 then None
            else digits_loop N radix width (n div radix) (start - 1) (DIGITS ! (n mod radix) # written))
      else Some written)"
  by pat_completeness auto
termination by (relation "measure (\<lambda>(_, _, _, _, start, _). start)") auto

declare digits_loop.simps [simp del]

definition digits_value :: "nat \<Rightarrow> nat \<Rightarrow> nat \<Rightarrow> nat \<Rightarrow> string option" where
  "digits_value N radix n width = digits_loop N radix width n N []"

text \<open>The sources: the identifier and the counter after it; \<open>fetch_add\<close> wraps.\<close>

type_synonym id_source = "64 word \<Rightarrow> string option \<times> 64 word"

definition counter_next :: id_source where
  "counter_next n = (digits_value 20 10 (unat n) 1, n + 1)"

definition halves :: "(64 word \<times> nat \<Rightarrow> 64 word) \<Rightarrow> 64 word \<Rightarrow> 64 word \<times> 64 word" where
  "halves key n = (key (n, 0), key (n, 1))"

definition random_next :: "(64 word \<times> nat \<Rightarrow> 64 word) \<Rightarrow> id_source" where
  "random_next key n =
     (let (high, low) = halves key n
      in (digits_value 32 16 (unat (push_bit 64 (ucast high :: 128 word) OR ucast low)) 32, n + 1))"

text \<open>A header group that carries an identifier, and the one used unless told otherwise.\<close>

record correlation =
  correlation_names :: "string list"
  correlation_fields :: "string \<Rightarrow> group"

definition x_request_id :: correlation where
  "x_request_id =
     \<lparr>correlation_names = [''x-request-id''],
      correlation_fields = (\<lambda>ident. \<lparr>encoded = Some [(''x-request-id'', ident)], repeatable = False, varies = []\<rparr>)\<rparr>"

record request_id =
  id_source :: id_source
  trust_client :: bool
  id_header :: correlation

definition request_id_new :: request_id where
  "request_id_new = \<lparr>id_source = counter_next, trust_client = False, id_header = x_request_id\<rparr>"

text \<open>The identifier a request is given, and the state of the source after it.\<close>

definition request_identifier ::
  "('h, 'x) header_map_scheme \<Rightarrow> request_id \<Rightarrow> 64 word \<Rightarrow> 'h \<Rightarrow> string option \<times> 64 word" where
  "request_identifier H q counter hs =
     (case (if trust_client q then find_map (get_first H hs) (correlation_names (id_header q)) else None) of
        Some ident \<Rightarrow> (Some ident, counter)
      | None \<Rightarrow> id_source q counter)"

definition request_id_intercept ::
  "('h, 'x) header_map_scheme \<Rightarrow> request_id \<Rightarrow> 64 word \<Rightarrow> route option \<Rightarrow> ('h request \<Rightarrow> 'h run) \<Rightarrow> 'h request \<Rightarrow>
   'h run \<times> 64 word" where
  "request_id_intercept H q counter at next r =
     (case request_identifier H q counter (request_headers r) of
        (None, counter) \<Rightarrow> (Panicked ''digits'', counter)
      | (Some ident, counter) \<Rightarrow>
          let headers' = correlation_fields (id_header q) ident
          in (case encoded headers' of
                None \<Rightarrow> Returned (plain_reply (write_or_refuse H (refused H) headers'))
              | Some written \<Rightarrow>
                  let r = r\<lparr>request_headers := foldl (\<lambda>hs (name, v). insert_field H hs name v) (request_headers r) written\<rparr>
                  in (case next r of
                        Panicked payload \<Rightarrow> Panicked payload
                      | Returned reply \<Rightarrow>
                          Returned (reply\<lparr>response_of := (response_of reply)\<lparr>headers :=
                            write_encoded H (headers (response_of reply)) (repeatable headers') (varies headers') written\<rparr>\<rparr>)),
              counter))"

section \<open>Security fields\<close>

record transport_security =
  sts_max_age :: nat
  sts_subdomains :: bool

definition sts_new :: "nat \<Rightarrow> transport_security" where
  "sts_new max_age = \<lparr>sts_max_age = max_age, sts_subdomains = False\<rparr>"

definition include_subdomains :: "transport_security \<Rightarrow> transport_security" where
  "include_subdomains s = s\<lparr>sts_subdomains := True\<rparr>"

definition sts_value :: "transport_security \<Rightarrow> string" where
  "sts_value s =
     ''max-age='' @ decimal (as_secs (sts_max_age s)) @ (if sts_subdomains s then ''; includeSubDomains'' else [])"

text \<open>The two type parameters record the opt-ins; \<open>transport\<close> is present exactly when \<open>hsts\<close> is.\<close>

record security_headers =
  transport :: "string option"
  hsts :: bool
  deny_frames :: bool

definition security_new :: security_headers where
  "security_new = \<lparr>transport = None, hsts = False, deny_frames = False\<rparr>"

definition strict_transport :: "security_headers \<Rightarrow> transport_security \<Rightarrow> security_headers" where
  "strict_transport s policy = s\<lparr>transport := Some (sts_value policy), hsts := True\<rparr>"

definition deny_framing :: "security_headers \<Rightarrow> security_headers" where
  "deny_framing s = s\<lparr>deny_frames := True\<rparr>"

definition security_names :: "bool \<Rightarrow> bool \<Rightarrow> string list" where
  "security_names with_hsts deny =
     [''cache-control'', ''referrer-policy'', ''x-content-type-options''] @
     (if with_hsts then [''strict-transport-security''] else []) @ (if deny then [''x-frame-options''] else [])"

definition security_encode :: "string option \<Rightarrow> bool \<Rightarrow> (string \<times> string) list" where
  "security_encode stated deny =
     [(''cache-control'', ''no-store''), (''referrer-policy'', ''no-referrer''), (''x-content-type-options'', ''nosniff'')] @
     (case stated of Some v \<Rightarrow> [(''strict-transport-security'', v)] | None \<Rightarrow> []) @
     (if deny then [(''x-frame-options'', ''DENY'')] else [])"

text \<open>A connection is whether it completed a TLS handshake, and its peer.\<close>

definition conveyed_securely :: "forwarded option \<Rightarrow> (bool \<times> ip_addr option) option \<Rightarrow> bool" where
  "conveyed_securely forwarded connection =
     (case Option.bind forwarded client_is_secure of
        Some secure \<Rightarrow> secure
      | None \<Rightarrow>
          (case connection of
             None \<Rightarrow> False
           | Some (is_tls, peer) \<Rightarrow>
               is_tls \<and>
               (case forwarded of
                  None \<Rightarrow> True
                | Some f \<Rightarrow> (case peer of None \<Rightarrow> False | Some peer \<Rightarrow> client f = Some (to_canonical peer)))))"

definition security_intercept ::
  "('h, 'x) header_map_scheme \<Rightarrow> security_headers \<Rightarrow> (bool \<times> ip_addr option) option \<Rightarrow> route option \<Rightarrow>
   ('h request \<Rightarrow> 'h run) \<Rightarrow> 'h request \<Rightarrow> 'h run" where
  "security_intercept H s connection at next r =
     (let sent = (if conveyed_securely (map_option origin_of (routed_to r)) connection then transport s else None);
          withheld = (hsts s \<and> sent = None)
      in case next r of
           Panicked payload \<Rightarrow> Panicked payload
         | Returned reply \<Rightarrow>
             (let response = write_or_refuse H (response_of reply)
                    \<lparr>encoded = Some (security_encode sent (deny_frames s)), repeatable = False, varies = []\<rparr>
              in Returned (reply\<lparr>response_of :=
                   (if withheld then response\<lparr>headers := remove_field H (headers response) ''strict-transport-security''\<rparr>
                    else response)\<rparr>)))"

section \<open>Lemmas: conditional requests\<close>

lemma matched_visible:
  "if_none_match_lines H (filter (readable H) ls) (Some current) = Some True \<longleftrightarrow>
   if_none_match_lines H ls (Some current) = Some True"
  by (auto simp: if_none_match_lines_def list_ex_iff tag_matches_def readable_def filter_empty_conv split: option.splits)

lemma preconditions_lines:
  "preconditions_decode H hs = Some c \<Longrightarrow> held_lines c = filter (readable H) (get_all H hs ''if-none-match'')"
  by (auto simp: preconditions_decode_def held_lines_def split: list.splits)

lemma preconditions_none:
  "preconditions_decode H hs = None \<Longrightarrow> if_none_match_lines H (get_all H hs ''if-none-match'') (Some current) \<noteq> Some True"
  using matched_visible [of H "get_all H hs ''if-none-match''" current]
  by (auto simp: preconditions_decode_def if_none_match_lines_def split: list.splits)

lemma append_all:
  assumes "header_map_laws H"
  shows "get_all H (foldl (\<lambda>replayed v. append_field H replayed name v) replayed vs) n =
    get_all H replayed n @ (if n = name then vs else [])"
  by (induction vs arbitrary: replayed) (simp_all add: header_map_lawsD(2) [OF assms])

lemma not_modified_fields:
  assumes "header_map_laws H"
  shows "get_all H (not_modified_from H hs) n = (if n \<in> set REPLAYED then get_all H hs n else [])"
proof -
  have "distinct ns \<Longrightarrow>
    get_all H (foldl (\<lambda>replayed name. foldl (\<lambda>replayed v. append_field H replayed name v) replayed (get_all H hs name)) m ns) n =
      get_all H m n @ (if n \<in> set ns then get_all H hs n else [])" for ns m
    by (induction ns arbitrary: m) (auto simp: append_all [OF assms])
  moreover have "distinct REPLAYED" by (simp add: REPLAYED_def)
  ultimately show ?thesis by (simp add: not_modified_from_def header_map_lawsD(8) [OF assms])
qed

text \<open>
  What a conditional request is answered with: a 304 exactly where a retrieval's 200 carries the tag the client holds,
  with the fields a cache updates its copy from and no others; anything else is the handler's response.
\<close>

theorem conditional_exact:
  assumes "header_map_laws H"
  shows "case next r of
      Panicked payload \<Rightarrow> conditional_intercept H at next r = Panicked payload
    | Returned reply \<Rightarrow>
        if answers_not_modified (verb r) \<and> status (response_of reply) = 200 \<and>
           (\<exists>current. Option.bind (get_first H (headers (response_of reply)) ''etag'') (to_str H) = Some current \<and>
                      if_none_match H (request_headers r) (Some current) = Some True)
        then \<exists>hs. conditional_intercept H at next r = Returned (plain_reply \<lparr>status = 304, headers = hs, body = Empty\<rparr>) \<and>
               (\<forall>n. get_all H hs n = (if n \<in> set REPLAYED then get_all H (headers (response_of reply)) n else []))
        else conditional_intercept H at next r = Returned reply"
proof (cases "next r")
  case (Returned reply)
  let ?current = "Option.bind (get_first H (headers (response_of reply)) ''etag'') (to_str H)"
  have m: "(\<exists>c. preconditions_decode H (request_headers r) = Some c \<and> copy_matched H c (headers (response_of reply))) \<longleftrightarrow>
      (\<exists>current. ?current = Some current \<and> if_none_match H (request_headers r) (Some current) = Some True)"
    using preconditions_none [of H "request_headers r"] preconditions_lines [of H "request_headers r"]
    by (cases ?current; cases "preconditions_decode H (request_headers r)")
       (auto simp: copy_matched_def if_none_match_def matched_visible)
  show ?thesis
    unfolding Returned run.case m [symmetric]
    by (auto simp: conditional_intercept_def Returned not_modified_def bodiless_def not_modified_fields [OF assms]
        split: option.split)
qed (simp add: conditional_intercept_def)

section \<open>Lemmas: identifiers\<close>

fun fixed_digits :: "nat \<Rightarrow> nat \<Rightarrow> nat \<Rightarrow> string" where
  "fixed_digits radix 0 n = []"
| "fixed_digits radix (Suc k) n = fixed_digits radix k (n div radix) @ [DIGITS ! (n mod radix)]"

lemma DIGITS_digit:
  assumes "k < 10"
  shows "DIGITS ! k = digit k"
proof -
  have "k \<in> set [0, 1, 2, 3, 4, 5, 6, 7, 8, 9]" using assms by auto
  moreover have "\<forall>k\<in>set [0, 1, 2, 3, 4, 5, 6, 7, 8, 9 :: nat]. DIGITS ! k = digit k"
    by (simp add: DIGITS_def digit_literals)
  ultimately show ?thesis by blast
qed

lemma DIGITS_plain: "distinct DIGITS" "length DIGITS = 16"
  by (simp_all add: DIGITS_def)

lemma digits_loop_fixed:
  "0 < radix \<Longrightarrow> n < radix ^ k \<Longrightarrow> digits_loop N radix N n k written = Some (fixed_digits radix k n @ written)"
proof (induction k arbitrary: n written)
  case 0
  then show ?case by (simp add: digits_loop.simps)
next
  case (Suc k)
  have "n div radix < radix ^ k" using Suc.prems by (simp add: less_mult_imp_div_less mult.commute)
  then show ?case using Suc.IH Suc.prems(1) by (subst digits_loop.simps) simp
qed

lemma digits_loop_decimal:
  "start < N \<Longrightarrow> n < 10 ^ start \<Longrightarrow> digits_loop N 10 1 n start written = Some ((if n = 0 then [] else decimal n) @ written)"
proof (induction start arbitrary: n written)
  case 0
  then show ?case by (simp add: digits_loop.simps)
next
  case (Suc start)
  show ?case
  proof (cases "n = 0")
    case False
    have "n div 10 < 10 ^ start" using Suc.prems by (simp add: less_mult_imp_div_less mult.commute)
    then have "digits_loop N 10 1 n (Suc start) written =
        Some ((if n div 10 = 0 then [] else decimal (n div 10)) @ DIGITS ! (n mod 10) # written)"
      using Suc.IH [of "n div 10"] Suc.prems(1) False by (subst digits_loop.simps) simp
    then show ?thesis using False DIGITS_digit [of "n mod 10"] by (cases "n < 10") (simp_all add: std_simps)
  qed (use Suc.prems in \<open>subst digits_loop.simps, simp, arith?\<close>)
qed

lemma digits_value_fixed: "0 < radix \<Longrightarrow> n < radix ^ N \<Longrightarrow> digits_value N radix n N = Some (fixed_digits radix N n)"
  using digits_loop_fixed [of radix n N N "[]"] by (simp add: digits_value_def)

lemma digits_value_decimal:
  assumes "1 < N" "n < 10 ^ N"
  shows "digits_value N 10 n 1 = Some (decimal n)"
proof -
  obtain k where k: "N = Suc k" using assms(1) by (cases N) simp_all
  have "n div 10 < 10 ^ k" using assms(2) k by (simp add: less_mult_imp_div_less mult.commute)
  then have "digits_loop N 10 1 n N [] = Some ((if n div 10 = 0 then [] else decimal (n div 10)) @ [DIGITS ! (n mod 10)])"
    using digits_loop_decimal [of k N "n div 10"] k assms(1) by (subst digits_loop.simps) simp
  then show ?thesis using DIGITS_digit [of "n mod 10"] by (cases "n < 10") (simp_all add: digits_value_def std_simps)
qed

lemma fixed_digits_length [simp]: "length (fixed_digits radix k n) = k"
  by (induction k arbitrary: n) simp_all

lemma fixed_digits_set:
  assumes "0 < radix" "radix \<le> 16"
  shows "set (fixed_digits radix k n) \<subseteq> set DIGITS"
proof (induction k arbitrary: n)
  case (Suc k)
  have "n mod radix < length DIGITS" unfolding DIGITS_plain using assms by (meson less_le_trans mod_less_divisor)
  then show ?case using Suc [of "n div radix"] by (auto intro: nth_mem)
qed simp

lemma fixed_digits_inject:
  assumes "0 < radix" "radix \<le> 16"
  shows "m < radix ^ k \<Longrightarrow> n < radix ^ k \<Longrightarrow> fixed_digits radix k m = fixed_digits radix k n \<longleftrightarrow> m = n"
proof (induction k arbitrary: m n)
  case (Suc k)
  have r: "i mod radix < 16" for i using assms by (meson less_le_trans mod_less_divisor)
  have "m div radix < radix ^ k" "n div radix < radix ^ k"
    using Suc.prems by (simp_all add: less_mult_imp_div_less mult.commute)
  from Suc.IH [OF this] have "fixed_digits radix (Suc k) m = fixed_digits radix (Suc k) n \<longleftrightarrow>
      m div radix = n div radix \<and> m mod radix = n mod radix"
    using nth_eq_iff_index_eq [OF DIGITS_plain(1)] r by (simp add: DIGITS_plain(2))
  also have "\<dots> \<longleftrightarrow> m = n" by (metis div_mult_mod_eq)
  finally show ?case .
qed simp

lemma joined_halves:
  fixes h l :: "64 word"
  defines "w \<equiv> push_bit 64 (ucast h :: 128 word) OR ucast l"
  shows "ucast (drop_bit 64 w) = h" "ucast w = l"
proof -
  have small: "\<not> bit x n" if "64 \<le> n" for x :: "64 word" and n using bit_imp_le_length [of x n] that by auto
  show "ucast (drop_bit 64 w) = h" "ucast w = l"
    unfolding w_def by (rule bit_word_eqI, auto simp: bit_simps small)+
qed

text \<open>
  The sources never run out of room, and an identifier names the counter it was drawn at, as far as the keyed hash
  tells its inputs apart: a decimal number, or 32 lower-case hexadecimal digits.
\<close>

theorem identifiers_name_the_counter:
  "fst (counter_next n) = Some (decimal (unat n)) \<and>
   (\<exists>s. fst (random_next key n) = Some s \<and> length s = 32 \<and> set s \<subseteq> set ''0123456789abcdef'') \<and>
   (fst (counter_next m) = fst (counter_next n) \<longleftrightarrow> m = n) \<and>
   (fst (random_next key m) = fst (random_next key n) \<longleftrightarrow> halves key m = halves key n)"
proof -
  have c: "fst (counter_next n) = Some (decimal (unat n))" for n :: "64 word"
  proof -
    have "unat n < 10 ^ 20" using unsigned_less [of n, where 'a = nat] by simp
    then show ?thesis using digits_value_decimal [of 20 "unat n"] by (simp add: counter_next_def)
  qed
  define joined where "joined n = (case halves key n of (h, l) \<Rightarrow> push_bit 64 (ucast h :: 128 word) OR ucast l)" for n
  have r: "fst (random_next key n) = Some (fixed_digits 16 32 (unat (joined n)))" for n
  proof -
    have "unat (joined n) < 16 ^ 32" using unsigned_less [of "joined n", where 'a = nat] by simp
    then show ?thesis using digits_value_fixed [of 16 "unat (joined n)" 32]
      by (simp add: random_next_def joined_def case_prod_beta)
  qed
  have "joined m = joined n \<longleftrightarrow> halves key m = halves key n"
    unfolding joined_def using joined_halves by (metis (mono_tags, lifting) case_prod_beta prod.collapse)
  moreover have "fixed_digits 16 32 (unat (joined m)) = fixed_digits 16 32 (unat (joined n)) \<longleftrightarrow> joined m = joined n"
    using fixed_digits_inject [of 16 "unat (joined m)" 32 "unat (joined n)"] unsigned_less [of "joined m", where 'a = nat] unsigned_less [of "joined n", where 'a = nat]
    by (simp add: word_unat_eq_iff [of "joined m" "joined n"])
  moreover have "unat m = unat n \<longleftrightarrow> m = n" by (rule word_unat_eq_iff [symmetric])
  ultimately show ?thesis
    using fixed_digits_set [of 16 32 "unat (joined n)"] by (simp add: c r DIGITS_def)
qed

section \<open>Lemmas: fields\<close>

lemma written_fields:
  assumes "header_map_laws H" "distinct (map fst fs)"
  shows "get_all H (foldl (\<lambda>hs (name, v). insert_field H hs name v) hs fs) n =
    (case map_of fs n of Some v \<Rightarrow> [v] | None \<Rightarrow> get_all H hs n)"
  using assms(2)
proof (induction fs arbitrary: hs)
  case (Cons f fs)
  obtain name v where f: "f = (name, v)" by fastforce
  have "map_of fs name = None" using Cons.prems f by (simp add: map_of_eq_None_iff)
  then show ?case using Cons f by (auto simp: header_map_lawsD(1) [OF assms(1)] split: option.split)
qed simp

text \<open>
  The handler, the response and the client correlate on one identifier: the one the request carries from here on, which
  is the client's only where it is trusted, else drawn from the source.
\<close>

theorem one_identifier:
  assumes "header_map_laws H" "id_header q = x_request_id" "request_identifier H q counter (request_headers r) = (Some ident, after)"
  shows "(\<not> trust_client q \<longrightarrow> id_source q counter = (Some ident, after)) \<and>
    (trust_client q \<and> get_first H (request_headers r) ''x-request-id'' \<noteq> None \<longrightarrow>
       get_first H (request_headers r) ''x-request-id'' = Some ident \<and> after = counter) \<and>
    (let r' = r\<lparr>request_headers := insert_field H (request_headers r) ''x-request-id'' ident\<rparr>
     in snd (request_id_intercept H q counter at next r) = after \<and>
        (case next r' of
           Panicked payload \<Rightarrow> fst (request_id_intercept H q counter at next r) = Panicked payload
         | Returned reply \<Rightarrow> (\<exists>hs. fst (request_id_intercept H q counter at next r) =
               Returned (reply\<lparr>response_of := (response_of reply)\<lparr>headers := hs\<rparr>\<rparr>) \<and>
             (\<forall>n. get_all H hs n = (if n = ''x-request-id'' then [ident] else get_all H (headers (response_of reply)) n)))))"
  using assms(3)
  by (auto simp: request_id_intercept_def assms(2,3) x_request_id_def write_encoded_def Let_def header_map_lawsD(1) [OF assms(1)]
      request_identifier_def split: run.split option.splits)

text \<open>
  The fields every response carries are the documented ones, whatever the handler set; a transport policy is sent only
  over a secure transport and none is let through where it may not be sent. Nothing else of the response changes.
\<close>

theorem security_fields_sent:
  assumes "header_map_laws H"
  shows "case next r of
      Panicked payload \<Rightarrow> security_intercept H s connection at next r = Panicked payload
    | Returned reply \<Rightarrow> \<exists>hs. security_intercept H s connection at next r =
          Returned (reply\<lparr>response_of := (response_of reply)\<lparr>headers := hs\<rparr>\<rparr>) \<and>
        get_all H hs ''cache-control'' = [''no-store''] \<and> get_all H hs ''referrer-policy'' = [''no-referrer''] \<and>
        get_all H hs ''x-content-type-options'' = [''nosniff''] \<and>
        (deny_frames s \<longrightarrow> get_all H hs ''x-frame-options'' = [''DENY'']) \<and>
        (\<forall>policy. transport s = Some policy \<longrightarrow> hsts s \<longrightarrow> get_all H hs ''strict-transport-security'' =
            (if conveyed_securely (map_option origin_of (routed_to r)) connection then [policy] else [])) \<and>
        (\<forall>n. n \<notin> set (security_names (hsts s \<or> transport s \<noteq> None) (deny_frames s)) \<longrightarrow>
            get_all H hs n = get_all H (headers (response_of reply)) n)"
proof (cases "next r")
  case (Returned reply)
  have "distinct (map fst (security_encode sent deny))" for sent deny
    by (auto simp: security_encode_def split: option.split)
  note fs = written_fields [OF assms this]
  define sent where "sent = (if conveyed_securely (map_option origin_of (routed_to r)) connection then transport s else None)"
  define set_fields where "set_fields = foldl (\<lambda>hs (name, v). insert_field H hs name v) (headers (response_of reply))
    (security_encode sent (deny_frames s))"
  define hs where "hs = (if hsts s \<and> sent = None then remove_field H set_fields ''strict-transport-security'' else set_fields)"
  have run: "security_intercept H s connection at next r = Returned (reply\<lparr>response_of := (response_of reply)\<lparr>headers := hs\<rparr>\<rparr>)"
    by (simp add: Returned security_intercept_def write_or_refuse_def write_group_def write_encoded_def Let_def hs_def
        set_fields_def sent_def)
  have fields: "get_all H hs n = (if n = ''strict-transport-security'' \<and> hsts s \<and> sent = None then []
      else case map_of (security_encode sent (deny_frames s)) n of Some v \<Rightarrow> [v] | None \<Rightarrow> get_all H (headers (response_of reply)) n)" for n
    by (simp add: hs_def set_fields_def fs header_map_lawsD(3) [OF assms])
  show ?thesis unfolding Returned run.case
    by (rule exI [of _ hs], simp add: run)
       (auto simp: fields security_encode_def security_names_def sent_def split: option.split)
qed (simp add: security_intercept_def)

end
