(* ===== verification/Schema_Model.thy ===== *)
theory Schema_Model
  imports Path_Template
begin

text \<open>
  The Schema Object (\<open>src/crates/kynos-openapi/src/model/schema\<close>): its keywords, the subschemas it holds at their
  pointers, and the JSON it serializes as; and, over both, the search for the 3.2-only fields of a schema
  (\<open>emit/downgrade/walk.rs\<close>), which reads the typed schema first and serializes only one that may hold such a field.

  \<open>serde_json::Value\<close> keeps an object's members sorted by their keys, a later member replacing an earlier one of the
  same key. An \<open>f64\<close> is held as the text it is
  serialized as, none where it is not finite, which serializes as null.
\<close>

section \<open>JSON values\<close>

datatype json =
    JNull
  | JBool bool
  | JNumber string
  | JString string
  | JArray "json list"
  | JObject "(string \<times> json) list"

fun put_member :: "string \<Rightarrow> 'v \<Rightarrow> (string \<times> 'v) list \<Rightarrow> (string \<times> 'v) list" where
  "put_member k v [] = [(k, v)]"
| "put_member k v ((k', v') # ms) =
     (if k = k' then (k, v) # ms
      else if ord_class.lexordp k k' then (k, v) # (k', v') # ms
      else (k', v') # put_member k v ms)"

definition json_object :: "(string \<times> json) list \<Rightarrow> json" where
  "json_object members = JObject (foldl (\<lambda>ms (k, v). put_member k v ms) [] members)"

fun as_object :: "json \<Rightarrow> (string \<times> json) list option" where
  "as_object (JObject ms) = Some ms"
| "as_object _ = None"

section \<open>The Schema Object\<close>

datatype schema_type = Null_type | Boolean_type | Object_type | Array_type | Number_type | String_type | Integer_type

fun schema_type_name :: "schema_type \<Rightarrow> string" where
  "schema_type_name Null_type = ''null''"
| "schema_type_name Boolean_type = ''boolean''"
| "schema_type_name Object_type = ''object''"
| "schema_type_name Array_type = ''array''"
| "schema_type_name Number_type = ''number''"
| "schema_type_name String_type = ''string''"
| "schema_type_name Integer_type = ''integer''"

datatype type_set = One_type schema_type | Many_types "schema_type list"

fun type_set_json :: "type_set \<Rightarrow> json" where
  "type_set_json (One_type t) = JString (schema_type_name t)"
| "type_set_json (Many_types ts) = JArray (map (\<lambda>t. JString (schema_type_name t)) ts)"

type_synonym extensions = "(string \<times> json) list"

definition EXTENSION_PREFIX :: string where "EXTENSION_PREFIX = ''x-''"

definition RESERVED_EXTENSION_PREFIXES :: "string list" where
  "RESERVED_EXTENSION_PREFIXES = [''x-oai-'', ''x-oas-'']"

definition is_valid_extension :: "string \<Rightarrow> bool" where
  "is_valid_extension name \<longleftrightarrow>
     starts_with EXTENSION_PREFIX name \<and> \<not> list_ex (\<lambda>reserved. starts_with reserved name) RESERVED_EXTENSION_PREFIXES"

record external_documentation =
  docs_description :: "string option"
  docs_url :: string
  docs_extensions :: extensions

record discriminator =
  property_name :: string
  mapping :: "(string \<times> string) list"
  default_mapping :: "string option"
  discriminator_extensions :: extensions

datatype xml_node_type = Element_node | Attribute_node | Text_node | Cdata_node | No_node

datatype xml_node = Flags "bool option" "bool option" | Node_type xml_node_type

record xml =
  xml_name :: "string option"
  xml_namespace :: "string option"
  xml_prefix :: "string option"
  xml_node :: xml_node
  xml_extensions :: extensions

type_synonym finite_number = "string option"

text \<open>The keywords of a schema that hold no schema.\<close>

record schema_keywords =
  sc_dialect :: "string option"
  sc_id :: "string option"
  sc_reference :: "string option"
  sc_anchor :: "string option"
  sc_dynamic_ref :: "string option"
  sc_dynamic_anchor :: "string option"
  sc_comment :: "string option"
  sc_type :: "type_set option"
  sc_const :: "json option"
  sc_enumeration :: "json list option"
  sc_multiple_of :: "finite_number option"
  sc_maximum :: "finite_number option"
  sc_exclusive_maximum :: "finite_number option"
  sc_minimum :: "finite_number option"
  sc_exclusive_minimum :: "finite_number option"
  sc_max_length :: "nat option"
  sc_min_length :: "nat option"
  sc_pattern :: "string option"
  sc_max_items :: "nat option"
  sc_min_items :: "nat option"
  sc_unique_items :: "bool option"
  sc_max_contains :: "nat option"
  sc_min_contains :: "nat option"
  sc_max_properties :: "nat option"
  sc_min_properties :: "nat option"
  sc_required :: "string list option"
  sc_dependent_required :: "(string \<times> string list) list"
  sc_format :: "string option"
  sc_content_encoding :: "string option"
  sc_content_media_type :: "string option"
  sc_title :: "string option"
  sc_description :: "string option"
  sc_default :: "json option"
  sc_deprecated :: "bool option"
  sc_read_only :: "bool option"
  sc_write_only :: "bool option"
  sc_examples :: "json list option"
  sc_discriminator :: "discriminator option"
  sc_xml :: "xml option"
  sc_external_docs :: "external_documentation option"
  sc_example :: "json option"
  unknown_keywords :: "(string \<times> json) list"

datatype schema =
    Schema_bool bool
  | Schema_object
      (plain: schema_keywords)
      (defs: "(string \<times> schema) list")
      (all_of: "schema list option")
      (any_of: "schema list option")
      (one_of: "schema list option")
      (not_schema: "schema option")
      (if_schema: "schema option")
      (then_schema: "schema option")
      (else_schema: "schema option")
      (dependent_schemas: "(string \<times> schema) list")
      (prefix_items: "schema list option")
      (item_schema: "schema option")
      (contains_schema: "schema option")
      (property_schemas: "(string \<times> schema) list")
      (pattern_properties: "(string \<times> schema) list")
      (additional_properties: "schema option")
      (property_names: "schema option")
      (unevaluated_items: "schema option")
      (unevaluated_properties: "schema option")
      (content_schema: "schema option")

text \<open>A schema with no keyword.\<close>

definition no_keywords :: schema_keywords where
  "no_keywords =
     \<lparr>sc_dialect = None, sc_id = None, sc_reference = None, sc_anchor = None, sc_dynamic_ref = None,
      sc_dynamic_anchor = None, sc_comment = None, sc_type = None, sc_const = None, sc_enumeration = None,
      sc_multiple_of = None, sc_maximum = None, sc_exclusive_maximum = None, sc_minimum = None,
      sc_exclusive_minimum = None, sc_max_length = None, sc_min_length = None, sc_pattern = None,
      sc_max_items = None, sc_min_items = None, sc_unique_items = None, sc_max_contains = None,
      sc_min_contains = None, sc_max_properties = None, sc_min_properties = None, sc_required = None,
      sc_dependent_required = [], sc_format = None, sc_content_encoding = None,
      sc_content_media_type = None, sc_title = None, sc_description = None, sc_default = None,
      sc_deprecated = None, sc_read_only = None, sc_write_only = None, sc_examples = None,
      sc_discriminator = None, sc_xml = None, sc_external_docs = None, sc_example = None,
      unknown_keywords = []\<rparr>"

definition keyword_schema :: "schema_keywords \<Rightarrow> schema" where
  "keyword_schema k = Schema_object k [] None None None None None None None [] None None None [] [] None None None None None"

definition schema_any :: schema where "schema_any = Schema_bool True"
definition schema_never :: schema where "schema_never = Schema_bool False"

definition of_type :: "schema_type \<Rightarrow> schema" where
  "of_type ty = keyword_schema (no_keywords\<lparr>sc_type := Some (One_type ty)\<rparr>)"

definition nullable :: "schema_type \<Rightarrow> schema" where
  "nullable ty = keyword_schema (no_keywords\<lparr>sc_type := Some (Many_types [ty, Null_type])\<rparr>)"

definition schema_reference :: "string \<Rightarrow> schema" where
  "schema_reference uri = keyword_schema (no_keywords\<lparr>sc_reference := Some uri\<rparr>)"

definition schema_component :: "string \<Rightarrow> schema" where
  "schema_component name = schema_reference (''#/components/schemas/'' @ name)"

text \<open>An insertion into a map keeps the place of a key it holds; a lookup finds the entry that was put last.\<close>

definition map_get :: "(string \<times> 'v) list \<Rightarrow> string \<Rightarrow> 'v option" where
  "map_get ms k = map_of (rev ms) k"

fun map_insert :: "string \<Rightarrow> 'v \<Rightarrow> (string \<times> 'v) list \<Rightarrow> (string \<times> 'v) list" where
  "map_insert k v [] = [(k, v)]"
| "map_insert k v ((k', v') # ms) = (if k = k' then (k, v) # ms else (k', v') # map_insert k v ms)"

definition extension_insert :: "string \<Rightarrow> json \<Rightarrow> extensions \<Rightarrow> json option \<times> extensions" where
  "extension_insert key v es = (map_of es key, map_insert key v es)"

definition extension_remove :: "string \<Rightarrow> extensions \<Rightarrow> json option \<times> extensions" where
  "extension_remove key es = (map_of es key, filter (\<lambda>(k, _). k \<noteq> key) es)"

definition docs_new :: "string \<Rightarrow> external_documentation" where
  "docs_new url = \<lparr>docs_description = None, docs_url = url, docs_extensions = []\<rparr>"

definition docs_with_description :: "external_documentation \<Rightarrow> string \<Rightarrow> external_documentation" where
  "docs_with_description d description' = d\<lparr>docs_description := Some description'\<rparr>"

definition discriminator_new :: "string \<Rightarrow> discriminator" where
  "discriminator_new name = \<lparr>property_name = name, mapping = [], default_mapping = None, discriminator_extensions = []\<rparr>"

definition with_mapping :: "discriminator \<Rightarrow> string \<Rightarrow> string \<Rightarrow> discriminator" where
  "with_mapping d v schema' = d\<lparr>mapping := map_insert v schema' (mapping d)\<rparr>"

text \<open>The node fields as they are written, flat; None is the conflict of a flag beside \<open>nodeType\<close>.\<close>

definition xml_node_read :: "xml_node_type option \<Rightarrow> bool option \<Rightarrow> bool option \<Rightarrow> xml_node option" where
  "xml_node_read node_type attribute wrapped =
     (case (node_type, attribute, wrapped) of
        (Some _, Some _, _) \<Rightarrow> None
      | (Some _, _, Some _) \<Rightarrow> None
      | (Some t, None, None) \<Rightarrow> Some (Node_type t)
      | (None, _, _) \<Rightarrow> Some (Flags attribute wrapped))"

fun xml_node_written :: "xml_node \<Rightarrow> xml_node_type option \<times> bool option \<times> bool option" where
  "xml_node_written (Flags attribute wrapped) = (None, attribute, wrapped)"
| "xml_node_written (Node_type t) = (Some t, None, None)"

lemma xml_node_read_written: "xml_node_read t a w = Some n \<longleftrightarrow> xml_node_written n = (t, a, w)"
  by (cases n; cases t; cases a; cases w) (auto simp: xml_node_read_def)

lemma map_insert_get: "map_of (map_insert k v ms) = (map_of ms)(k \<mapsto> v)"
  by (induction k v ms rule: map_insert.induct) auto

lemma map_insert_distinct: "distinct (map fst ms) \<Longrightarrow> distinct (map fst (map_insert k v ms))"
proof (induction k v ms rule: map_insert.induct)
  case (2 k v k' v' ms)
  have "fst ` set (map_insert k v ms) \<subseteq> insert k (fst ` set ms)" by (induction k v ms rule: map_insert.induct) auto
  then show ?case using 2 by auto
qed simp

text \<open>How a keyword holds its subschemas, and the keywords that do, in the order they are declared.\<close>

datatype held = Keyed "(string \<times> schema) list" | Listed "schema list option" | Single "schema option"

fun held_keywords :: "schema \<Rightarrow> (string \<times> held) list" where
  "held_keywords (Schema_bool _) = []"
| "held_keywords (Schema_object k defs' all_of' any_of' one_of' not' if' then' else' dependent' prefix' items' contains'
       properties' pattern' additional' names' unevaluated_i unevaluated_p content') =
     [(''$defs'', Keyed defs'), (''allOf'', Listed all_of'), (''anyOf'', Listed any_of'), (''oneOf'', Listed one_of'),
      (''not'', Single not'), (''if'', Single if'), (''then'', Single then'), (''else'', Single else'),
      (''dependentSchemas'', Keyed dependent'), (''prefixItems'', Listed prefix'), (''items'', Single items'),
      (''contains'', Single contains'), (''properties'', Keyed properties'), (''patternProperties'', Keyed pattern'),
      (''additionalProperties'', Single additional'), (''propertyNames'', Single names'),
      (''unevaluatedItems'', Single unevaluated_i), (''unevaluatedProperties'', Single unevaluated_p),
      (''contentSchema'', Single content')]"

fun held_schemas :: "token list \<Rightarrow> held \<Rightarrow> (token list \<times> schema) list" where
  "held_schemas at (Keyed schemas) = map (\<lambda>(key, s). (at @ [Key_token key], s)) schemas"
| "held_schemas at (Listed schemas) =
     map (\<lambda>(i, s). (at @ [Index_token i], s)) (enumerate 0 (case schemas of Some ss \<Rightarrow> ss | None \<Rightarrow> []))"
| "held_schemas at (Single s) = (case s of Some s \<Rightarrow> [(at, s)] | None \<Rightarrow> [])"

definition subschemas :: "token list \<Rightarrow> schema \<Rightarrow> (token list \<times> schema) list" where
  "subschemas at s = concat (map (\<lambda>(keyword, h). held_schemas (at @ [Key_token keyword]) h) (held_keywords s))"

fun held_size :: "held \<Rightarrow> nat" where
  "held_size (Keyed ms) = Suc (size_list (size_prod (\<lambda>_. 0) size) ms)"
| "held_size (Listed ss) = Suc (size_option (size_list size) ss)"
| "held_size (Single s) = Suc (size_option size s)"

lemma size_held: "(name, h) \<in> set (held_keywords s) \<Longrightarrow> held_size h \<le> size s"
  by (cases s) auto

lemma size_list_less: "x \<in> set xs \<Longrightarrow> f x \<le> size_list f xs"
  by (induction xs) auto

lemma size_in_held:
  "(key, x) \<in> set ms \<Longrightarrow> size x < held_size (Keyed ms)"
  "x \<in> set ss \<Longrightarrow> size x < held_size (Listed (Some ss))"
  "size x < held_size (Single (Some x))"
  using size_list_less [of "(key, x)" ms "size_prod (\<lambda>_. 0) size"] size_list_less [of x ss size] by auto

lemma set_enumerate_snd: "(i, x) \<in> set (enumerate n xs) \<Longrightarrow> x \<in> set xs"
  by (auto simp: in_set_enumerate_eq)

lemma size_held_schemas:
  assumes "(at', x) \<in> set (held_schemas at h)"
  shows "size x < held_size h"
proof (cases h)
  case (Keyed ms)
  then obtain key where "(key, x) \<in> set ms" using assms by auto
  then show ?thesis using size_in_held(1) Keyed by simp
next
  case (Listed ss)
  then obtain xs where "ss = Some xs" "x \<in> set xs" using assms set_enumerate_snd by (cases ss) fastforce+
  then show ?thesis using size_in_held(2) Listed by simp
qed (use assms in \<open>auto split: option.splits\<close>)

lemma size_subschema:
  assumes "(at', x) \<in> set (subschemas at s)"
  shows "size x < size s"
proof -
  obtain name h where "(name, h) \<in> set (held_keywords s)" "(at', x) \<in> set (held_schemas (at @ [Key_token name]) h)"
    using assms by (auto simp: subschemas_def)
  then show ?thesis using size_held size_held_schemas by (meson less_le_trans)
qed

lemma size_in_keyword:
  "e \<in> set (held_keywords s) \<Longrightarrow> (name, h) = e \<Longrightarrow> h = Keyed ms \<Longrightarrow> m \<in> set ms \<Longrightarrow> (key, x) = m \<Longrightarrow> size x < size s"
  "e \<in> set (held_keywords s) \<Longrightarrow> (name, h) = e \<Longrightarrow> h = Listed o' \<Longrightarrow> o' = Some ss \<Longrightarrow> x \<in> set ss \<Longrightarrow> size x < size s"
  "e \<in> set (held_keywords s) \<Longrightarrow> (name, h) = e \<Longrightarrow> h = Single o'' \<Longrightarrow> o'' = Some x \<Longrightarrow> size x < size s"
  using size_held [of name h s] size_in_held(1) [of key x ms] size_in_held(2) [of x ss] size_in_held(3) [of x] by auto

section \<open>Serialization\<close>

definition member :: "string \<Rightarrow> ('v \<Rightarrow> json) \<Rightarrow> 'v option \<Rightarrow> (string \<times> json) list" where
  "member name f v = (case v of None \<Rightarrow> [] | Some v \<Rightarrow> [(name, f v)])"

definition keyed_member :: "string \<Rightarrow> ('v \<Rightarrow> json) \<Rightarrow> (string \<times> 'v) list \<Rightarrow> (string \<times> json) list" where
  "keyed_member name f ms = (if ms = [] then [] else [(name, json_object (map (\<lambda>(k, v). (k, f v)) ms))])"

definition number_json :: "finite_number \<Rightarrow> json" where
  "number_json n = (case n of Some digits \<Rightarrow> JNumber digits | None \<Rightarrow> JNull)"

definition json_nat :: "nat \<Rightarrow> json" where "json_nat n = JNumber (decimal n)"
definition json_strings :: "string list \<Rightarrow> json" where "json_strings ss = JArray (map JString ss)"

definition docs_json :: "external_documentation \<Rightarrow> json" where
  "docs_json d =
     json_object (member ''description'' JString (docs_description d) @ [(''url'', JString (docs_url d))] @ docs_extensions d)"

definition discriminator_json :: "discriminator \<Rightarrow> json" where
  "discriminator_json d =
     json_object ([(''propertyName'', JString (property_name d))] @ keyed_member ''mapping'' JString (mapping d) @
       member ''defaultMapping'' JString (default_mapping d) @ discriminator_extensions d)"

fun node_type_name :: "xml_node_type \<Rightarrow> string" where
  "node_type_name Element_node = ''element''"
| "node_type_name Attribute_node = ''attribute''"
| "node_type_name Text_node = ''text''"
| "node_type_name Cdata_node = ''cdata''"
| "node_type_name No_node = ''none''"

definition xml_json :: "xml \<Rightarrow> json" where
  "xml_json x =
     (let (node_type, attribute, wrapped) =
            xml_node_written (xml_node x)
      in json_object (member ''nodeType'' (\<lambda>t. JString (node_type_name t)) node_type @
           member ''name'' JString (xml_name x) @ member ''namespace'' JString (xml_namespace x) @
           member ''prefix'' JString (xml_prefix x) @ member ''attribute'' JBool attribute @
           member ''wrapped'' JBool wrapped @ xml_extensions x))"

definition plain_members :: "schema_keywords \<Rightarrow> (string \<times> json) list" where
  "plain_members k = concat
     [member ''$schema'' JString (sc_dialect k), member ''$id'' JString (sc_id k), member ''$ref'' JString (sc_reference k),
      member ''$anchor'' JString (sc_anchor k), member ''$dynamicRef'' JString (sc_dynamic_ref k),
      member ''$dynamicAnchor'' JString (sc_dynamic_anchor k), member ''$comment'' JString (sc_comment k),
      member ''type'' type_set_json (sc_type k), member ''const'' (\<lambda>v. v) (sc_const k), member ''enum'' JArray (sc_enumeration k),
      member ''multipleOf'' number_json (sc_multiple_of k), member ''maximum'' number_json (sc_maximum k),
      member ''exclusiveMaximum'' number_json (sc_exclusive_maximum k), member ''minimum'' number_json (sc_minimum k),
      member ''exclusiveMinimum'' number_json (sc_exclusive_minimum k), member ''maxLength'' json_nat (sc_max_length k),
      member ''minLength'' json_nat (sc_min_length k), member ''pattern'' JString (sc_pattern k),
      member ''maxItems'' json_nat (sc_max_items k), member ''minItems'' json_nat (sc_min_items k),
      member ''uniqueItems'' JBool (sc_unique_items k), member ''maxContains'' json_nat (sc_max_contains k),
      member ''minContains'' json_nat (sc_min_contains k), member ''maxProperties'' json_nat (sc_max_properties k),
      member ''minProperties'' json_nat (sc_min_properties k), member ''required'' json_strings (sc_required k),
      keyed_member ''dependentRequired'' json_strings (sc_dependent_required k), member ''format'' JString (sc_format k),
      member ''contentEncoding'' JString (sc_content_encoding k), member ''contentMediaType'' JString (sc_content_media_type k),
      member ''title'' JString (sc_title k), member ''description'' JString (sc_description k),
      member ''default'' (\<lambda>v. v) (sc_default k), member ''deprecated'' JBool (sc_deprecated k),
      member ''readOnly'' JBool (sc_read_only k), member ''writeOnly'' JBool (sc_write_only k),
      member ''examples'' JArray (sc_examples k), member ''discriminator'' discriminator_json (sc_discriminator k),
      member ''xml'' xml_json (sc_xml k), member ''externalDocs'' docs_json (sc_external_docs k),
      member ''example'' (\<lambda>v. v) (sc_example k)]"

text \<open>Its members: the keywords the model types, which have names of their own, then the others.\<close>

function schema_json :: "schema \<Rightarrow> json" where
  "schema_json s =
     (case s of
        Schema_bool b \<Rightarrow> JBool b
      | _ \<Rightarrow>
          json_object (plain_members (plain s) @
            concat (map (\<lambda>(name, h).
              case h of
                Keyed ms \<Rightarrow> if ms = [] then [] else [(name, json_object (map (\<lambda>(key, x). (key, schema_json x)) ms))]
              | Listed None \<Rightarrow> []
              | Listed (Some ss) \<Rightarrow> [(name, JArray (map schema_json ss))]
              | Single None \<Rightarrow> []
              | Single (Some x) \<Rightarrow> [(name, schema_json x)]) (held_keywords s)) @
            unknown_keywords (plain s)))"
  by pat_completeness auto
termination
proof (relation "measure size", goal_cases)
  case 2
  then show ?case using size_in_keyword(1) by (simp only: in_measure)
next
  case 3
  then show ?case using size_in_keyword(2) by (simp only: in_measure)
next
  case 4
  then show ?case using size_in_keyword(3) by (simp only: in_measure)
qed simp

declare schema_json.simps [simp del]

section \<open>The 3.2-only fields of a schema\<close>

definition HOLDERS :: "(string \<times> string) list" where
  "HOLDERS = [(''xml'', ''nodeType''), (''discriminator'', ''defaultMapping'')]"

definition INSTANCE_KEYWORDS :: "string list" where
  "INSTANCE_KEYWORDS = [''default'', ''const'', ''enum'', ''examples'', ''example'']"

definition NAME_MAPS :: "string list" where
  "NAME_MAPS = [''$defs'', ''dependentSchemas'', ''properties'', ''patternProperties'']"

datatype members = Keywords | Names

definition carries :: "(string \<times> json) list \<Rightarrow> string \<Rightarrow> string \<Rightarrow> bool" where
  "carries ms holder field =
     (case Option.bind (map_of ms holder) as_object of None \<Rightarrow> False | Some held \<Rightarrow> map_of held field \<noteq> None)"

lemma size_member [termination_simp]: "(key, x) \<in> set ms \<Longrightarrow> size (x :: json) < Suc (size_list (size_prod (\<lambda>_. 0) size) ms)"
  using size_list_less [of "(key, x)" ms "size_prod (\<lambda>_. 0) size"] by simp

function schema_value_blockers :: "string \<Rightarrow> json \<Rightarrow> members \<Rightarrow> string list" where
  "schema_value_blockers location v members =
     (case v of
        JObject ms \<Rightarrow>
          concat (map (\<lambda>(holder, field). if carries ms holder field then [location @ ''/'' @ holder @ ''/'' @ field] else []) HOLDERS) @
          concat (map (\<lambda>(key, nested).
            if members = Keywords \<and> key \<in> set INSTANCE_KEYWORDS then []
            else schema_value_blockers (location @ ''/'' @ pointer_token key) nested
                   (if members = Keywords \<and> key \<in> set NAME_MAPS then Names else Keywords)) ms)
      | JArray items \<Rightarrow>
          concat (map (\<lambda>(i, item). schema_value_blockers (location @ ''/'' @ decimal i) item Keywords) (enumerate 0 items))
      | _ \<Rightarrow> [])"
  by pat_completeness auto
termination
proof (relation "measure (\<lambda>(_, v, _). size v)", goal_cases)
  case (3 location v members ms x key y)
  then show ?case using size_member [of key y ms] by simp
next
  case (2 location v members items x i y)
  then have "y \<in> set items" using set_enumerate_snd by metis
  then show ?case using 2(1) size_list_less [of y items size] by simp
qed simp

declare schema_value_blockers.simps [simp del]

fun value_may_hold :: "json \<Rightarrow> bool" where
  "value_may_hold (JObject ms) \<longleftrightarrow>
     list_ex (\<lambda>(key, v).
       list_ex (\<lambda>(holder, field). key = holder \<and> (case as_object v of None \<Rightarrow> False | Some held \<Rightarrow> map_of held field \<noteq> None)) HOLDERS \<or>
       value_may_hold v) ms"
| "value_may_hold (JArray items) \<longleftrightarrow> list_ex value_may_hold items"
| "value_may_hold _ \<longleftrightarrow> False"

definition members_may_hold :: "(string \<times> json) list \<Rightarrow> bool" where
  "members_may_hold ms \<longleftrightarrow>
     list_ex (\<lambda>(key, v).
       list_ex (\<lambda>(holder, field). key = holder \<and> (case as_object v of None \<Rightarrow> False | Some held \<Rightarrow> map_of held field \<noteq> None)) HOLDERS \<or>
       value_may_hold v) ms"

definition named_holder :: "(string \<times> schema) list \<Rightarrow> bool" where
  "named_holder schemas \<longleftrightarrow>
     list_ex (\<lambda>(holder, field).
       case map_get schemas holder of
         Some (Schema_object k d1 d2 d3 d4 d5 d6 d7 d8 d9 d10 d11 d12 d13 d14 d15 d16 d17 d18 d19) \<Rightarrow>
           map_of (unknown_keywords k) field \<noteq> None
       | _ \<Rightarrow> False) HOLDERS"

definition plain_may_hold :: "schema_keywords \<Rightarrow> bool" where
  "plain_may_hold k \<longleftrightarrow>
     (case sc_xml k of None \<Rightarrow> False
      | Some x \<Rightarrow> (case xml_node x of Node_type _ \<Rightarrow> True | Flags _ _ \<Rightarrow> False) \<or>
                  map_of (xml_extensions x) ''nodeType'' \<noteq> None \<or> members_may_hold (xml_extensions x)) \<or>
     (case sc_discriminator k of None \<Rightarrow> False
      | Some d \<Rightarrow> default_mapping d \<noteq> None \<or> map_of (discriminator_extensions d) ''defaultMapping'' \<noteq> None \<or>
                  members_may_hold (discriminator_extensions d)) \<or>
     (case sc_external_docs k of None \<Rightarrow> False | Some d \<Rightarrow> members_may_hold (docs_extensions d)) \<or>
     members_may_hold (unknown_keywords k)"

function may_hold_blocker :: "schema \<Rightarrow> bool" where
  "may_hold_blocker s =
     (case s of
        Schema_bool _ \<Rightarrow> False
      | _ \<Rightarrow>
          if plain_may_hold (plain s) \<or>
             list_ex named_holder [defs s, dependent_schemas s, property_schemas s, pattern_properties s]
          then True
          else list_ex (\<lambda>(_, x). may_hold_blocker x) (subschemas [Root_token] s))"
  by pat_completeness auto
termination
proof (relation "measure size", goal_cases)
  case (2 s)
  then show ?case using size_subschema [of _ _ "[Root_token]" s] by auto
qed simp

declare may_hold_blocker.simps [simp del]

definition collect_schema_blockers :: "token list \<Rightarrow> schema \<Rightarrow> string list" where
  "collect_schema_blockers at s =
     (if \<not> may_hold_blocker s then [] else schema_value_blockers (at_pointer at) (schema_json s) Keywords)"

section \<open>Lemmas: what a ruled-out schema serializes as\<close>

definition clean_member :: "members \<Rightarrow> string \<times> json \<Rightarrow> bool" where
  "clean_member mode e \<longleftrightarrow>
     (\<forall>holder field held. (holder, field) \<in> set HOLDERS \<longrightarrow> fst e = holder \<longrightarrow> as_object (snd e) = Some held \<longrightarrow> map_of held field = None) \<and>
     (mode = Keywords \<and> fst e \<in> set INSTANCE_KEYWORDS \<or>
      (\<forall>location. schema_value_blockers location (snd e) (if mode = Keywords \<and> fst e \<in> set NAME_MAPS then Names else Keywords) = []))"

lemma carries_iff:
  "carries ms holder field \<longleftrightarrow> (\<exists>v held. map_of ms holder = Some v \<and> as_object v = Some held \<and> map_of held field \<noteq> None)"
  by (cases "map_of ms holder") (auto simp: carries_def split: option.split)

lemma no_blockers_object:
  assumes "\<And>e. e \<in> set ms \<Longrightarrow> clean_member mode e"
  shows "schema_value_blockers location (JObject ms) mode = []"
proof -
  have "\<not> carries ms holder field" if "(holder, field) \<in> set HOLDERS" for holder field
    using assms [OF map_of_SomeD] that unfolding carries_iff clean_member_def by fastforce
  moreover have "(if mode = Keywords \<and> key \<in> set INSTANCE_KEYWORDS then [] else schema_value_blockers location' nested
      (if mode = Keywords \<and> key \<in> set NAME_MAPS then Names else Keywords)) = []" if "(key, nested) \<in> set ms" for key nested location'
    using assms [OF that] by (auto simp: clean_member_def)
  ultimately show ?thesis by (subst schema_value_blockers.simps) auto
qed

definition ordered_members :: "(string \<times> 'v) list \<Rightarrow> bool" where
  "ordered_members = sorted_wrt (\<lambda>e e'. ord_class.lexordp (fst e) (fst e'))"

lemma put_member_ordered:
  "ordered_members ms \<Longrightarrow>
   ordered_members (put_member k v ms) \<and> set (put_member k v ms) = insert (k, v) {e \<in> set ms. fst e \<noteq> k}"
proof (induction k v ms rule: put_member.induct)
  case (2 k v k' v' ms)
  have o: "\<forall>e\<in>set ms. ord_class.lexordp k' (fst e)" "ordered_members ms" using 2(2) by (simp_all add: ordered_members_def)
  consider "k = k'" | "k \<noteq> k'" "ord_class.lexordp k k'" | "k \<noteq> k'" "ord_class.lexordp k' k" "\<not> ord_class.lexordp k k'"
    using lexordp_linear [of k k'] by blast
  then show ?case
  proof cases
    case 1
    then show ?thesis using 2(2) o(1) by (auto simp: ordered_members_def lexordp_irreflexive')
  next
    case 2
    then show ?thesis using o \<open>ordered_members ((k', v') # ms)\<close> lexordp_trans by (fastforce simp: ordered_members_def lexordp_irreflexive')
  next
    case 3
    then show ?thesis using o 2(1) by (auto simp: ordered_members_def)
  qed
qed (simp add: ordered_members_def)

lemma put_members_ordered:
  "ordered_members acc \<Longrightarrow> ordered_members (foldl (\<lambda>ms (k, v). put_member k v ms) acc ms) \<and>
   set (foldl (\<lambda>ms (k, v). put_member k v ms) acc ms) =
     {e. map_get ms (fst e) = Some (snd e)} \<union> {e \<in> set acc. map_get ms (fst e) = None}"
proof (induction ms arbitrary: acc)
  case (Cons m ms)
  obtain k v where m: "m = (k, v)" by fastforce
  have "{e \<in> insert (k, v) {e \<in> set acc. fst e \<noteq> k}. map_get ms (fst e) = None} \<union> {e. map_get ms (fst e) = Some (snd e)} =
      {e. map_get ((k, v) # ms) (fst e) = Some (snd e)} \<union> {e \<in> set acc. map_get ((k, v) # ms) (fst e) = None}"
    by (auto simp: map_get_def map_add_Some_iff split: option.splits if_splits)
  then show ?case using Cons.IH [of "put_member k v acc"] put_member_ordered [OF Cons.prems, of k v] by (simp add: m Un_commute)
qed (auto simp: map_get_def)

lemma object_members: "as_object (json_object ms) = Some held \<Longrightarrow> set held = {e. map_get ms (fst e) = Some (snd e)}"
  using put_members_ordered [of "[]" ms] by (auto simp: json_object_def ordered_members_def)

lemma map_get_member: "map_get ms k = Some v \<Longrightarrow> (k, v) \<in> set ms"
  by (auto simp: map_get_def dest: map_of_SomeD)

lemma no_blockers_json_object:
  assumes "\<And>k v. map_get ms k = Some v \<Longrightarrow> clean_member mode (k, v)"
  shows "schema_value_blockers location (json_object ms) mode = []"
  using object_members [of ms] assms no_blockers_object unfolding json_object_def by force

lemma object_without:
  assumes "as_object (json_object ms) = Some held" "field \<notin> fst ` set ms"
  shows "map_of held field = None"
  using object_members [OF assms(1)] map_get_member assms(2) by (force simp: map_of_eq_None_iff)

lemma held_none:
  assumes "\<not> value_may_hold v"
  shows "schema_value_blockers location v mode = []"
  using assms
proof (induction location v mode rule: schema_value_blockers.induct)
  case (1 location v members)
  show ?case
  proof (cases v)
    case (JObject ms)
    have "\<not> carries ms holder field" if "(holder, field) \<in> set HOLDERS" for holder field
      using 1(3) that map_of_SomeD unfolding carries_iff by (fastforce simp: JObject list_ex_iff)
    moreover have "\<not> value_may_hold nested" if "(key, nested) \<in> set ms" for key nested
      using 1(3) that by (fastforce simp: JObject list_ex_iff)
    moreover have "(if members = Keywords \<and> key \<in> set INSTANCE_KEYWORDS then []
        else schema_value_blockers (location @ ''/'' @ pointer_token key) nested
          (if members = Keywords \<and> key \<in> set NAME_MAPS then Names else Keywords)) = []" if "(key, nested) \<in> set ms" for key nested
      using 1(2) [OF JObject that refl] calculation(2) [OF that] by presburger
    ultimately show ?thesis unfolding JObject by (subst schema_value_blockers.simps) auto
  next
    case (JArray items)
    then show ?thesis using 1(1,3) set_enumerate_snd by (subst schema_value_blockers.simps) (fastforce simp: list_ex_iff)
  qed (subst schema_value_blockers.simps, simp)+
qed

lemma clean_scalar:
  "clean_member mode (k, JString t)" "clean_member mode (k, JBool b)" "clean_member mode (k, JNumber t)" "clean_member mode (k, JNull)"
  by (auto simp: clean_member_def held_none)

lemma clean_array: "\<not> list_ex value_may_hold items \<Longrightarrow> clean_member mode (k, JArray items)"
  by (simp add: clean_member_def held_none)

lemma clean_instance: "k \<in> set INSTANCE_KEYWORDS \<Longrightarrow> clean_member Keywords (k, v)"
  by (auto simp: clean_member_def INSTANCE_KEYWORDS_def HOLDERS_def)

lemma clean_typed:
  "clean_member mode (k, type_set_json t)" "clean_member mode (k, number_json n)" "clean_member mode (k, json_nat l)"
  "clean_member mode (k, json_strings ss)"
  by (cases t; simp add: clean_scalar clean_array list_ex_iff)
     (auto simp: number_json_def json_nat_def json_strings_def clean_scalar clean_array list_ex_iff split: option.split)

lemma clean_arbitrary:
  assumes "\<not> members_may_hold ms" "e \<in> set ms"
  shows "clean_member mode e"
  using assms held_none by (cases e) (fastforce simp: members_may_hold_def clean_member_def list_ex_iff split: option.splits)

lemma clean_object:
  assumes "\<And>e. e \<in> set ms \<Longrightarrow> clean_member (if mode = Keywords \<and> k \<in> set NAME_MAPS then Names else Keywords) e"
    and "\<And>field. (k, field) \<in> set HOLDERS \<Longrightarrow> field \<notin> fst ` set ms"
  shows "clean_member mode (k, json_object ms)"
  using no_blockers_json_object [OF assms(1) [OF map_get_member]] object_without assms(2) by (fastforce simp: clean_member_def)

lemma member_clean:
  "(\<forall>e\<in>set (member name f v). clean_member mode e) \<longleftrightarrow> (\<forall>x. v = Some x \<longrightarrow> clean_member mode (name, f x))"
  by (auto simp: member_def split: option.splits)

lemma member_name: "e \<in> set (member name f v) \<Longrightarrow> fst e = name"
  "e \<in> set (keyed_member name g ms) \<Longrightarrow> fst e = name"
  by (auto simp: member_def keyed_member_def split: option.splits if_splits)

lemma keyed_strings_clean:
  assumes "k \<notin> fst ` set HOLDERS" "\<And>mode k v. clean_member mode (k, f v)"
  shows "\<forall>e\<in>set (keyed_member k f ms). clean_member mode e"
proof -
  have "clean_member mode (k, json_object (map (\<lambda>(k, v). (k, f v)) ms))"
    by (rule clean_object) (use assms in \<open>force simp: image_iff\<close>)+
  then show ?thesis by (simp add: keyed_member_def)
qed

lemma docs_clean:
  "\<not> members_may_hold (docs_extensions d) \<Longrightarrow> clean_member mode (''externalDocs'', docs_json d)"
  unfolding docs_json_def
  by (rule clean_object) (auto simp: member_clean [unfolded Ball_def, rule_format] HOLDERS_def member_def clean_scalar clean_arbitrary split: option.splits)

lemma discriminator_clean:
  assumes "default_mapping d = None" "map_of (discriminator_extensions d) ''defaultMapping'' = None"
    "\<not> members_may_hold (discriminator_extensions d)"
  shows "clean_member mode (''discriminator'', discriminator_json d)"
  unfolding discriminator_json_def
proof (rule clean_object)
  fix e assume "e \<in> set ([(''propertyName'', JString (property_name d))] @ keyed_member ''mapping'' JString (mapping d) @
    member ''defaultMapping'' JString (default_mapping d) @ discriminator_extensions d)"
  then show "clean_member (if mode = Keywords \<and> ''discriminator'' \<in> set NAME_MAPS then Names else Keywords) e"
    using keyed_strings_clean [of "''mapping''" JString] assms(1)
    by (auto simp: HOLDERS_def clean_scalar member_def intro: clean_arbitrary [OF assms(3)])
next
  fix field assume "(''discriminator'', field) \<in> set HOLDERS"
  then have f: "field = ''defaultMapping''" by (simp add: HOLDERS_def)
  show "field \<notin> fst ` set ([(''propertyName'', JString (property_name d))] @ keyed_member ''mapping'' JString (mapping d) @
    member ''defaultMapping'' JString (default_mapping d) @ discriminator_extensions d)"
    using assms(1,2) by (auto simp: f member_def keyed_member_def map_of_eq_None_iff)
qed

lemma xml_clean:
  assumes "xml_node x = Flags a w" "map_of (xml_extensions x) ''nodeType'' = None" "\<not> members_may_hold (xml_extensions x)"
  shows "clean_member mode (''xml'', xml_json x)"
  unfolding xml_json_def assms(1) xml_node_written.simps prod.case Let_def
proof (rule clean_object)
  fix field assume "(''xml'', field) \<in> set HOLDERS"
  then have f: "field = ''nodeType''" by (simp add: HOLDERS_def)
  show "field \<notin> fst ` set (member ''nodeType'' (\<lambda>t. JString (node_type_name t)) None @
           member ''name'' JString (xml_name x) @ member ''namespace'' JString (xml_namespace x) @
           member ''prefix'' JString (xml_prefix x) @ member ''attribute'' JBool a @
           member ''wrapped'' JBool w @ xml_extensions x)"
    using assms(2) by (auto simp: f map_of_eq_None_iff dest: member_name) (auto simp: member_def)
qed (use clean_arbitrary [OF assms(3)] in \<open>auto simp: member_def clean_scalar split: option.splits\<close>)

lemma plain_clean:
  assumes "\<not> plain_may_hold k"
  shows "\<forall>e\<in>set (plain_members k). clean_member Keywords e"
proof -
  have "clean_member Keywords (''discriminator'', discriminator_json d)" if "sc_discriminator k = Some d" for d
    using assms that discriminator_clean by (auto simp: plain_may_hold_def)
  moreover have "clean_member Keywords (''xml'', xml_json x)" if "sc_xml k = Some x" for x
    using assms that xml_clean by (auto simp: plain_may_hold_def split: xml_node.splits)
  moreover have "clean_member Keywords (''externalDocs'', docs_json d)" if "sc_external_docs k = Some d" for d
    using assms that docs_clean by (auto simp: plain_may_hold_def)
  moreover have "\<forall>e\<in>set (keyed_member ''dependentRequired'' json_strings (sc_dependent_required k)). clean_member Keywords e"
    by (rule keyed_strings_clean) (simp_all add: HOLDERS_def clean_typed)
  ultimately show ?thesis
    by (simp add: plain_members_def ball_Un member_clean clean_scalar clean_typed clean_instance INSTANCE_KEYWORDS_def)
qed

lemma plain_names: "''nodeType'' \<notin> fst ` set (plain_members k)" "''defaultMapping'' \<notin> fst ` set (plain_members k)"
  by (auto simp: plain_members_def dest: member_name)

section \<open>Lemmas: the search rules out only schemas that hold no such field\<close>

definition held_set :: "held \<Rightarrow> schema set" where
  "held_set h =
     (case h of Keyed ms \<Rightarrow> snd ` set ms | Listed None \<Rightarrow> {} | Listed (Some ss) \<Rightarrow> set ss | Single s \<Rightarrow> set_option s)"

lemma snd_enumerate: "snd ` set (enumerate n xs) = set xs"
  by (metis image_set map_snd_enumerate)

lemma snd_held_schemas: "snd ` set (held_schemas at h) = held_set h"
proof (cases h)
  case (Listed ss)
  then show ?thesis by (cases ss) (auto simp: held_set_def image_image case_prod_beta snd_enumerate)
qed (auto simp: held_set_def image_image case_prod_beta split: option.splits)

lemma snd_subschemas: "snd ` set (subschemas at s) = (\<Union>e\<in>set (held_keywords s). held_set (snd e))"
  by (simp add: subschemas_def image_UN snd_held_schemas case_prod_beta)

lemma size_in_subschema:
  assumes "(name, h) \<in> set (held_keywords s)" "x \<in> held_set h"
  shows "size x < size s"
proof -
  have "x \<in> snd ` set (subschemas [Root_token] s)" using assms unfolding snd_subschemas by force
  then obtain at' where "(at', x) \<in> set (subschemas [Root_token] s)" by auto
  then show ?thesis by (rule size_subschema)
qed

lemma holds_none_nested:
  assumes "\<not> may_hold_blocker s" "(name, h) \<in> set (held_keywords s)" "x \<in> held_set h"
  shows "\<not> may_hold_blocker x"
proof -
  have "x \<in> snd ` set (subschemas [Root_token] s)" using assms(2,3) unfolding snd_subschemas by force
  then obtain at' where "(at', x) \<in> set (subschemas [Root_token] s)" by auto
  moreover have "\<not> list_ex (\<lambda>(_, x). may_hold_blocker x) (subschemas [Root_token] s)"
    using assms(1) by (subst (asm) may_hold_blocker.simps) (auto simp: subschemas_def split: schema.splits if_splits)
  ultimately show ?thesis by (auto simp: list_ex_iff list_all_iff)
qed

lemma held_names: "(name, h) \<in> set (held_keywords s) \<Longrightarrow>
  name \<notin> {''xml'', ''discriminator'', ''nodeType'', ''defaultMapping''} \<and> name \<notin> set INSTANCE_KEYWORDS \<and>
  ((\<exists>ms. h = Keyed ms) \<longleftrightarrow> name \<in> set NAME_MAPS)"
  by (cases s) (auto simp: INSTANCE_KEYWORDS_def NAME_MAPS_def)

definition held_entry :: "string \<times> held \<Rightarrow> (string \<times> json) list" where
  "held_entry e =
     (case snd e of
        Keyed ms \<Rightarrow> if ms = [] then [] else [(fst e, json_object (map (\<lambda>(key, x). (key, schema_json x)) ms))]
      | Listed None \<Rightarrow> []
      | Listed (Some ss) \<Rightarrow> [(fst e, JArray (map schema_json ss))]
      | Single None \<Rightarrow> []
      | Single (Some x) \<Rightarrow> [(fst e, schema_json x)])"

definition schema_entries :: "schema \<Rightarrow> (string \<times> json) list" where
  "schema_entries s = plain_members (plain s) @ concat (map held_entry (held_keywords s)) @ unknown_keywords (plain s)"

lemma schema_json_cases:
  "(\<exists>b. s = Schema_bool b \<and> schema_json s = JBool b) \<or> (\<forall>b. s \<noteq> Schema_bool b) \<and> schema_json s = json_object (schema_entries s)"
proof (cases s)
  case (Schema_bool b)
  then show ?thesis by (simp add: schema_json.simps)
next
  case Schema_object
  have "(\<lambda>(name, h). case h of
      Keyed ms \<Rightarrow> if ms = [] then [] else [(name, json_object (map (\<lambda>(key, x). (key, schema_json x)) ms))]
    | Listed None \<Rightarrow> [] | Listed (Some ss) \<Rightarrow> [(name, JArray (map schema_json ss))]
    | Single None \<Rightarrow> [] | Single (Some x) \<Rightarrow> [(name, schema_json x)]) = held_entry"
    by (rule ext) (simp add: held_entry_def case_prod_beta)
  note entries = this
  show ?thesis
    by (subst schema_json.simps) (simp only: Schema_object schema.case entries schema_entries_def schema.distinct simp_thms)
qed

lemma schema_entries_cases:
  assumes "e \<in> set (schema_entries s)"
  obtains "e \<in> set (plain_members (plain s))" | name h where "(name, h) \<in> set (held_keywords s)" "e \<in> set (held_entry (name, h))"
    | "e \<in> set (unknown_keywords (plain s))"
  using assms by (fastforce simp: schema_entries_def)

lemma held_entry_name: "e' \<in> set (held_entry e) \<Longrightarrow> fst e' = fst e"
  by (auto simp: held_entry_def split: held.splits option.splits if_splits)

lemma field_of_schema:
  assumes "as_object (schema_json x) = Some held" "map_of held field \<noteq> None" "(holder, field) \<in> set HOLDERS"
  shows "(\<forall>b. x \<noteq> Schema_bool b) \<and> map_of (unknown_keywords (plain x)) field \<noteq> None"
proof -
  have f: "field \<in> {''nodeType'', ''defaultMapping''}" using assms(3) by (auto simp: HOLDERS_def)
  have j: "(\<forall>b. x \<noteq> Schema_bool b) \<and> schema_json x = json_object (schema_entries x)"
    using schema_json_cases [of x] assms(1) by auto
  then have "field \<in> fst ` set (schema_entries x)" using object_without [of "schema_entries x" held field] assms(1,2) by auto
  moreover have "field \<notin> fst ` set (plain_members (plain x))" using f plain_names by (metis insertE singletonD)
  moreover have "field \<notin> fst ` set (concat (map held_entry (held_keywords x)))"
    using f held_names held_entry_name by fastforce
  ultimately show ?thesis using j by (auto simp: schema_entries_def map_of_eq_None_iff)
qed

lemma named_holder_iff:
  "named_holder ms \<longleftrightarrow> (\<exists>e\<in>set HOLDERS. \<exists>x. map_get ms (fst e) = Some x \<and> (\<forall>b. x \<noteq> Schema_bool b) \<and>
     map_of (unknown_keywords (plain x)) (snd e) \<noteq> None)"
  unfolding named_holder_def list_ex_iff
  by (rule bex_cong [OF refl]) (simp split: prod.split option.split schema.split)

lemma named_clean:
  assumes "\<not> named_holder ms" "map_get ms key = Some x"
    "\<And>location. schema_value_blockers location (schema_json x) Keywords = []"
  shows "clean_member Names (key, schema_json x)"
proof -
  have "map_of held field = None" if "(key, field) \<in> set HOLDERS" "as_object (schema_json x) = Some held" for field held
  proof (rule ccontr)
    assume "map_of held field \<noteq> None"
    note u = field_of_schema [OF that(2) this that(1)]
    have "named_holder ms" using u that(1) assms(2) unfolding named_holder_iff by (intro bexI [of _ "(key, field)"]) auto
    then show False using assms(1) by simp
  qed
  then show ?thesis using assms(3) by (auto simp: clean_member_def)
qed

lemma held_entry_clean:
  assumes e: "(name, h) \<in> set (held_keywords s)" "e' \<in> set (held_entry (name, h))"
    and x: "\<And>x location. x \<in> held_set h \<Longrightarrow> schema_value_blockers location (schema_json x) Keywords = []"
    and h: "\<And>ms. h = Keyed ms \<Longrightarrow> \<not> named_holder ms"
  shows "clean_member Keywords e'"
proof -
  note n = held_names [OF e(1)]
  have "schema_value_blockers location (snd e') (if name \<in> set NAME_MAPS then Names else Keywords) = []" for location
  proof (cases h)
    case (Keyed ms)
    have "schema_value_blockers location (json_object (map (\<lambda>(key, x). (key, schema_json x)) ms)) Names = []"
    proof (rule no_blockers_json_object)
      fix key v assume "map_get (map (\<lambda>(key, x). (key, schema_json x)) ms) key = Some v"
      then obtain x' where m: "map_get ms key = Some x'" "v = schema_json x'"
        by (auto simp: map_get_def rev_map map_of_map)
      then have "x' \<in> held_set h" using map_get_member by (fastforce simp: Keyed held_set_def rev_image_eqI)
      then show "clean_member Names (key, v)" using named_clean [of ms key x'] h [OF Keyed] x m by blast
    qed
    then show ?thesis using n e(2) Keyed by (auto simp: held_entry_def split: if_splits)
  next
    case (Listed ss)
    then show ?thesis using n e(2) x by (cases ss) (auto simp: held_entry_def held_set_def schema_value_blockers.simps [of _ "JArray _"] dest!: set_enumerate_snd)
  next
    case (Single o')
    then show ?thesis using n e(2) x by (cases o') (auto simp: held_entry_def held_set_def)
  qed
  then show ?thesis using n held_entry_name [OF e(2)] by (auto simp: clean_member_def HOLDERS_def)
qed

lemma ruled_out_object:
  assumes "\<not> may_hold_blocker s" "\<And>b. s \<noteq> Schema_bool b"
  shows "\<not> plain_may_hold (plain s)" "\<not> list_ex named_holder [defs s, dependent_schemas s, property_schemas s, pattern_properties s]"
proof -
  have "may_hold_blocker s" if "plain_may_hold (plain s) \<or> list_ex named_holder [defs s, dependent_schemas s, property_schemas s, pattern_properties s]"
  proof (cases s)
    case (Schema_bool b)
    then show ?thesis using assms(2) by blast
  qed (use that in \<open>subst may_hold_blocker.simps, simp\<close>)
  then show "\<not> plain_may_hold (plain s)" "\<not> list_ex named_holder [defs s, dependent_schemas s, property_schemas s, pattern_properties s]"
    using assms(1) by blast+
qed

lemma ruled_out_holds_none:
  assumes "\<not> may_hold_blocker s"
  shows "schema_value_blockers location (schema_json s) Keywords = []"
  using assms
proof (induction s arbitrary: location rule: measure_induct_rule [of size])
  case (less s)
  show ?case
  proof (cases "\<exists>b. s = Schema_bool b")
    case True
    then show ?thesis using schema_json_cases [of s] by (auto simp: held_none)
  next
    case False
    then have m: "\<not> plain_may_hold (plain s)" "\<not> list_ex named_holder [defs s, dependent_schemas s, property_schemas s, pattern_properties s]"
      using ruled_out_object [OF less.prems] False by auto
    have k: "\<not> named_holder ms" if "(name, Keyed ms) \<in> set (held_keywords s)" for name ms
      using m(2) that by (cases s) auto
    have x: "schema_value_blockers location (schema_json x) Keywords = []" if "(name, h) \<in> set (held_keywords s)" "x \<in> held_set h" for name h x location
    proof -
      have "size x < size s" using size_in_subschema that by blast
      then show ?thesis using less.IH holds_none_nested [OF less.prems that] by blast
    qed
    have "clean_member Keywords e" if "e \<in> set (schema_entries s)" for e
    proof -
      from that show ?thesis
      proof (cases rule: schema_entries_cases)
        case 2
        then show ?thesis using held_entry_clean x k by blast
      qed (use m(1) plain_clean clean_arbitrary [of "unknown_keywords (plain s)" e] in \<open>auto simp: plain_may_hold_def\<close>)
    qed
    from no_blockers_json_object [OF this [OF map_get_member]] show ?thesis using schema_json_cases [of s] False by auto
  qed
qed

section \<open>Lemmas: what is reported, and where\<close>

text \<open>The values a walk reaches, with the reference tokens to them: instance data is not entered.\<close>

inductive reached :: "json \<Rightarrow> members \<Rightarrow> string list \<Rightarrow> json \<Rightarrow> bool" where
  here: "reached v mode [] v"
| in_member: "(key, x) \<in> set ms \<Longrightarrow> \<not> (mode = Keywords \<and> key \<in> set INSTANCE_KEYWORDS) \<Longrightarrow>
    reached x (if mode = Keywords \<and> key \<in> set NAME_MAPS then Names else Keywords) ts y \<Longrightarrow>
    reached (JObject ms) mode (pointer_token key # ts) y"
| in_item: "i < length items \<Longrightarrow> reached (items ! i) Keywords ts y \<Longrightarrow> reached (JArray items) mode (decimal i # ts) y"

inductive_cases reached_objectE: "reached (JObject ms) mode ts y"
inductive_cases reached_arrayE: "reached (JArray items) mode ts y"
inductive_cases reached_scalarE: "reached JNull mode ts y" "reached (JBool b) mode ts y" "reached (JNumber d) mode ts y"
  "reached (JString t) mode ts y"

definition pointed :: "string list \<Rightarrow> string" where
  "pointed ts = concat (map (\<lambda>t. ''/'' @ t) ts)"

lemma pointed_Cons: "pointed [] = []" "pointed (t # ts) = ''/'' @ t @ pointed ts"
  by (simp_all add: pointed_def)

definition reported :: "string \<Rightarrow> json \<Rightarrow> members \<Rightarrow> string set" where
  "reported location v mode =
     {location @ pointed ts @ pointed [holder, field] |ts ms holder field.
        reached v mode ts (JObject ms) \<and> (holder, field) \<in> set HOLDERS \<and> carries ms holder field}"

lemma reportedI:
  "reached v mode ts (JObject ms) \<Longrightarrow> (holder, field) \<in> set HOLDERS \<Longrightarrow> carries ms holder field \<Longrightarrow>
   p = location @ pointed ts @ pointed [holder, field] \<Longrightarrow> p \<in> reported location v mode"
  unfolding reported_def by blast

lemma reported_object:
  "reported location (JObject ms) mode =
     {location @ pointed [holder, field] |holder field. (holder, field) \<in> set HOLDERS \<and> carries ms holder field} \<union>
     (\<Union>e\<in>set ms. if mode = Keywords \<and> fst e \<in> set INSTANCE_KEYWORDS then {}
        else reported (location @ ''/'' @ pointer_token (fst e)) (snd e)
          (if mode = Keywords \<and> fst e \<in> set NAME_MAPS then Names else Keywords))" (is "?l = ?r")
proof (intro set_eqI iffI)
  fix p assume "p \<in> ?l"
  then obtain ts held holder field where p: "p = location @ pointed ts @ pointed [holder, field]"
    "reached (JObject ms) mode ts (JObject held)" "(holder, field) \<in> set HOLDERS" "carries held holder field"
    by (auto simp: reported_def)
  from p(2) show "p \<in> ?r"
  proof (elim reached_objectE)
    assume "ts = []" "JObject held = JObject ms"
    then show ?thesis using p by (auto simp: pointed_Cons)
  next
    fix key x ts'
    assume 2: "ts = pointer_token key # ts'" "(key, x) \<in> set ms" "mode = Keywords \<longrightarrow> key \<notin> set INSTANCE_KEYWORDS"
      "reached x (if mode = Keywords \<and> key \<in> set NAME_MAPS then Names else Keywords) ts' (JObject held)"
    then have "p \<in> reported (location @ ''/'' @ pointer_token key) x (if mode = Keywords \<and> key \<in> set NAME_MAPS then Names else Keywords)"
      using p by (intro reportedI [OF 2(4)]) (auto simp: pointed_Cons)
    then show ?thesis using 2 by force
  qed
next
  fix p assume "p \<in> ?r"
  then consider holder field where "p = location @ pointed [holder, field]" "(holder, field) \<in> set HOLDERS" "carries ms holder field"
    | key x ts held holder field where "(key, x) \<in> set ms" "\<not> (mode = Keywords \<and> key \<in> set INSTANCE_KEYWORDS)"
      "reached x (if mode = Keywords \<and> key \<in> set NAME_MAPS then Names else Keywords) ts (JObject held)"
      "(holder, field) \<in> set HOLDERS" "carries held holder field" "p = (location @ ''/'' @ pointer_token key) @ pointed ts @ pointed [holder, field]"
    by (fastforce simp: reported_def split: if_splits)
  then show "p \<in> ?l"
  proof cases
    case 1
    then show ?thesis by (intro reportedI [OF here]) (auto simp: pointed_Cons)
  next
    case 2
    have "p = location @ pointed (pointer_token key # ts) @ pointed [holder, field]" using 2(6) by (simp add: pointed_Cons)
    then show ?thesis using in_member [OF 2(1-3)] 2(4,5) by (blast intro: reportedI)
  qed
qed

lemma reported_array:
  "reported location (JArray items) mode = (\<Union>i<length items. reported (location @ ''/'' @ decimal i) (items ! i) Keywords)" (is "?l = ?r")
proof (intro set_eqI iffI)
  fix p assume "p \<in> ?l"
  then obtain ts held holder field where p: "p = location @ pointed ts @ pointed [holder, field]"
    "reached (JArray items) mode ts (JObject held)" "(holder, field) \<in> set HOLDERS" "carries held holder field"
    by (auto simp: reported_def)
  from p(2) obtain i ts' where i: "ts = decimal i # ts'" "i < length items" "reached (items ! i) Keywords ts' (JObject held)"
    by (auto elim: reached_arrayE)
  then have "p = (location @ ''/'' @ decimal i) @ pointed ts' @ pointed [holder, field]" using p(1) by (simp add: pointed_Cons)
  then have "p \<in> reported (location @ ''/'' @ decimal i) (items ! i) Keywords" using i(3) p(3,4) by (blast intro: reportedI)
  then show "p \<in> ?r" using i(2) by blast
next
  fix p assume "p \<in> ?r"
  then obtain i ts held holder field where p: "i < length items" "reached (items ! i) Keywords ts (JObject held)" "(holder, field) \<in> set HOLDERS"
    "carries held holder field" "p = location @ pointed (decimal i # ts) @ pointed [holder, field]"
    by (auto simp: reported_def pointed_Cons)
  then show "p \<in> ?l" using in_item [OF p(1,2)] p(3-) by (blast intro: reportedI)
qed

lemma blockers_reported: "set (schema_value_blockers location v mode) = reported location v mode"
proof (induction location v mode rule: schema_value_blockers.induct)
  case (1 location v mode)
  show ?case
  proof (cases v)
    case (JObject ms)
    have "set (if mode = Keywords \<and> fst e \<in> set INSTANCE_KEYWORDS then []
        else schema_value_blockers (location @ ''/'' @ pointer_token (fst e)) (snd e) (if mode = Keywords \<and> fst e \<in> set NAME_MAPS then Names else Keywords)) =
      (if mode = Keywords \<and> fst e \<in> set INSTANCE_KEYWORDS then {}
        else reported (location @ ''/'' @ pointer_token (fst e)) (snd e) (if mode = Keywords \<and> fst e \<in> set NAME_MAPS then Names else Keywords))"
      if "e \<in> set ms" for e
    proof (cases "mode = Keywords \<and> fst e \<in> set INSTANCE_KEYWORDS")
      case False
      then show ?thesis using 1(2) [OF JObject that prod.collapse False] by (simp only: if_False)
    qed simp
    then have "(\<Union>e\<in>set ms. set (if mode = Keywords \<and> fst e \<in> set INSTANCE_KEYWORDS then []
        else schema_value_blockers (location @ ''/'' @ pointer_token (fst e)) (snd e) (if mode = Keywords \<and> fst e \<in> set NAME_MAPS then Names else Keywords))) =
      (\<Union>e\<in>set ms. if mode = Keywords \<and> fst e \<in> set INSTANCE_KEYWORDS then {}
        else reported (location @ ''/'' @ pointer_token (fst e)) (snd e) (if mode = Keywords \<and> fst e \<in> set NAME_MAPS then Names else Keywords))"
      by (rule SUP_cong [OF refl])
    moreover have "(\<Union>e\<in>set HOLDERS. set (if carries ms (fst e) (snd e) then [location @ ''/'' @ fst e @ ''/'' @ snd e] else [])) =
      {location @ pointed [holder, field] |holder field. (holder, field) \<in> set HOLDERS \<and> carries ms holder field}"
      by (auto simp: pointed_Cons split: if_splits) blast
    ultimately show ?thesis unfolding JObject reported_object
      by (subst schema_value_blockers.simps) (simp only: json.case set_append set_concat set_map image_image case_prod_beta)
  next
    case (JArray items)
    have "set (schema_value_blockers (location @ ''/'' @ decimal i) (items ! i) Keywords) = reported (location @ ''/'' @ decimal i) (items ! i) Keywords"
      if "i < length items" for i
      using 1(1) [OF JArray, of "(i, items ! i)" i "items ! i"] that by (simp add: in_set_enumerate_eq)
    moreover have "set (schema_value_blockers location (JArray items) mode) =
        (\<Union>i<length items. set (schema_value_blockers (location @ ''/'' @ decimal i) (items ! i) Keywords))"
      by (subst schema_value_blockers.simps) (force simp: in_set_enumerate_eq)
    ultimately show ?thesis unfolding JArray reported_array by simp
  qed (auto simp: reported_def held_none elim: reached_scalarE)
qed

text \<open>C39: What is reported of a schema are exactly the pointers of the \<open>xml.nodeType\<close> and \<open>discriminator.defaultMapping\<close>
  of what it serializes as, outside instance data, however deep: the search over the typed schema, made before
  anything is serialized, rules out only schemas that hold none.\<close>

theorem schema_blockers_exact:
  "p \<in> set (collect_schema_blockers at s) \<longleftrightarrow>
    (\<exists>ts ms holder field. reached (schema_json s) Keywords ts (JObject ms) \<and>
       (holder, field) \<in> {(''xml'', ''nodeType''), (''discriminator'', ''defaultMapping'')} \<and> carries ms holder field \<and>
       p = at_pointer at @ concat (map (\<lambda>t. ''/'' @ t) (ts @ [holder, field])))"
proof -
  have "collect_schema_blockers at s = schema_value_blockers (at_pointer at) (schema_json s) Keywords"
    using ruled_out_holds_none by (simp add: collect_schema_blockers_def)
  then show ?thesis by (auto simp: blockers_reported reported_def pointed_def HOLDERS_def)
qed

end
