(* ===== verification/Openapi_Model.thy ===== *)
theory Openapi_Model
  imports Schema_Model Methods
begin

text \<open>
  The objects of an OpenAPI document (\<open>src/crates/kynos-openapi/src/model\<close>) and the flat wire shapes the ones with
  exclusive fields are read from and written as. The features \<open>openapi32\<close> and \<open>http\<close> are on. A map is the list of its
  entries; an insertion is \<open>map_insert\<close>. Objects that hold one another are datatypes around the record of their other
  fields.
\<close>

type_synonym 'v entries = "(string \<times> 'v) list"

section \<open>References, examples, links\<close>

record reference =
  ref_location :: string
  ref_summary :: "string option"
  ref_description :: "string option"

definition ref_new :: "string \<Rightarrow> reference" where
  "ref_new location = \<lparr>ref_location = location, ref_summary = None, ref_description = None\<rparr>"

definition ref_schema :: "string \<Rightarrow> reference" where
  "ref_schema name = ref_new (''#/components/schemas/'' @ name)"

definition ref_response :: "string \<Rightarrow> reference" where
  "ref_response name = ref_new (''#/components/responses/'' @ name)"

definition ref_parameter :: "string \<Rightarrow> reference" where
  "ref_parameter name = ref_new (''#/components/parameters/'' @ name)"

definition ref_request_body :: "string \<Rightarrow> reference" where
  "ref_request_body name = ref_new (''#/components/requestBodies/'' @ name)"

definition ref_security_scheme :: "string \<Rightarrow> reference" where
  "ref_security_scheme name = ref_new (''#/components/securitySchemes/'' @ name)"

datatype 'a ref_or = Ref reference | Item 'a

fun as_item :: "'a ref_or \<Rightarrow> 'a option" where
  "as_item (Item x) = Some x"
| "as_item (Ref _) = None"

fun as_ref_object :: "'a ref_or \<Rightarrow> reference option" where
  "as_ref_object (Ref r) = Some r"
| "as_ref_object (Item _) = None"

datatype example_value =
    Embedded json
  | External string "json option"
  | Data json "string option"
  | Serialized string

record example =
  ex_summary :: "string option"
  ex_description :: "string option"
  ex_value :: "example_value option"
  ex_extensions :: extensions

definition example_carrying :: "example_value \<Rightarrow> example" where
  "example_carrying v = \<lparr>ex_summary = None, ex_description = None, ex_value = Some v, ex_extensions = []\<rparr>"

definition example_new :: "json \<Rightarrow> example" where "example_new v = example_carrying (Embedded v)"
definition example_external :: "string \<Rightarrow> example" where "example_external uri = example_carrying (External uri None)"
definition example_data :: "json \<Rightarrow> example" where "example_data v = example_carrying (Data v None)"
definition example_serialized :: "string \<Rightarrow> example" where "example_serialized s = example_carrying (Serialized s)"

definition example_data_serialized :: "json \<Rightarrow> string \<Rightarrow> example" where
  "example_data_serialized v s = example_carrying (Data v (Some s))"

definition example_data_external :: "json \<Rightarrow> string \<Rightarrow> example" where
  "example_data_external v uri = example_carrying (External uri (Some v))"

text \<open>The four fields a value is written in: \<open>value\<close>, \<open>dataValue\<close>, \<open>serializedValue\<close>, \<open>externalValue\<close>.\<close>

datatype example_conflict = Value_not_alone | Two_serializations

fun example_value_read ::
  "json option \<times> json option \<times> string option \<times> string option \<Rightarrow> example_conflict + example_value option" where
  "example_value_read (Some _, Some _, _, _) = Inl Value_not_alone"
| "example_value_read (Some _, _, Some _, _) = Inl Value_not_alone"
| "example_value_read (Some _, _, _, Some _) = Inl Value_not_alone"
| "example_value_read (_, _, Some _, Some _) = Inl Two_serializations"
| "example_value_read (Some v, None, None, None) = Inr (Some (Embedded v))"
| "example_value_read (None, data, None, Some uri) = Inr (Some (External uri data))"
| "example_value_read (None, Some data, serialized, None) = Inr (Some (Data data serialized))"
| "example_value_read (None, None, Some serialized, None) = Inr (Some (Serialized serialized))"
| "example_value_read (None, None, None, None) = Inr None"

fun example_value_written ::
  "example_value option \<Rightarrow> json option \<times> json option \<times> string option \<times> string option" where
  "example_value_written (Some (Embedded v)) = (Some v, None, None, None)"
| "example_value_written (Some (External uri data)) = (None, data, None, Some uri)"
| "example_value_written (Some (Data data serialized)) = (None, Some data, serialized, None)"
| "example_value_written (Some (Serialized serialized)) = (None, None, Some serialized, None)"
| "example_value_written None = (None, None, None, None)"

text \<open>An \<open>example\<close> or \<open>examples\<close> member; None is both at once.\<close>

datatype examples = Inline json | Named "example ref_or entries"

fun as_inline :: "examples \<Rightarrow> json option" where
  "as_inline (Inline v) = Some v"
| "as_inline (Named _) = None"

fun as_named :: "examples \<Rightarrow> example ref_or entries option" where
  "as_named (Named named) = Some named"
| "as_named (Inline _) = None"

fun examples_from :: "json option \<Rightarrow> example ref_or entries option \<Rightarrow> examples option option" where
  "examples_from (Some _) (Some _) = None"
| "examples_from (Some v) None = Some (Some (Inline v))"
| "examples_from None (Some named) = Some (Some (Named named))"
| "examples_from None None = Some None"

fun examples_into :: "examples option \<Rightarrow> json option \<times> example ref_or entries option" where
  "examples_into (Some (Inline v)) = (Some v, None)"
| "examples_into (Some (Named named)) = (None, Some named)"
| "examples_into None = (None, None)"

definition examples_with_named :: "examples option \<Rightarrow> string \<Rightarrow> example ref_or \<Rightarrow> examples" where
  "examples_with_named held name ex =
     Named (map_insert name ex (case held of Some (Named named) \<Rightarrow> named | _ \<Rightarrow> []))"

record server_variable =
  sv_enumeration :: "string list option"
  sv_default :: string
  sv_description :: "string option"
  sv_extensions :: extensions

definition server_variable_new :: "string \<Rightarrow> server_variable" where
  "server_variable_new v = \<lparr>sv_enumeration = None, sv_default = v, sv_description = None, sv_extensions = []\<rparr>"

definition server_variable_enumerated :: "string \<Rightarrow> string list \<Rightarrow> server_variable" where
  "server_variable_enumerated v vs = \<lparr>sv_enumeration = Some vs, sv_default = v, sv_description = None, sv_extensions = []\<rparr>"

record server =
  server_url :: string
  server_name :: "string option"
  server_description :: "string option"
  server_variables :: "server_variable entries"
  server_extensions :: extensions

definition server_new :: "string \<Rightarrow> server" where
  "server_new url = \<lparr>server_url = url, server_name = None, server_description = None, server_variables = [], server_extensions = []\<rparr>"

definition server_with_variable :: "server \<Rightarrow> string \<Rightarrow> server_variable \<Rightarrow> server" where
  "server_with_variable s name v = s\<lparr>server_variables := map_insert name v (server_variables s)\<rparr>"

datatype link_target = Target_uri string | Target_id string

record link =
  link_target :: link_target
  link_parameters :: "json entries"
  link_request_body :: "json option"
  link_description :: "string option"
  link_server :: "server option"
  link_extensions :: extensions

definition link_targeting :: "link_target \<Rightarrow> link" where
  "link_targeting target = \<lparr>link_target = target, link_parameters = [], link_request_body = None, link_description = None,
     link_server = None, link_extensions = []\<rparr>"

definition link_to_operation :: "string \<Rightarrow> link" where "link_to_operation i = link_targeting (Target_id i)"
definition link_to_operation_ref :: "string \<Rightarrow> link" where "link_to_operation_ref uri = link_targeting (Target_uri uri)"

definition link_with_parameter :: "link \<Rightarrow> string \<Rightarrow> json \<Rightarrow> link" where
  "link_with_parameter l name v = l\<lparr>link_parameters := map_insert name v (link_parameters l)\<rparr>"

text \<open>The two fields of a target: \<open>operationRef\<close> and \<open>operationId\<close>.\<close>

datatype link_conflict = Neither_target | Both_targets

fun link_target_read :: "string option \<Rightarrow> string option \<Rightarrow> link_conflict + link_target" where
  "link_target_read (Some _) (Some _) = Inl Both_targets"
| "link_target_read (Some uri) None = Inr (Target_uri uri)"
| "link_target_read None (Some i) = Inr (Target_id i)"
| "link_target_read None None = Inl Neither_target"

fun link_target_written :: "link_target \<Rightarrow> string option \<times> string option" where
  "link_target_written (Target_uri uri) = (Some uri, None)"
| "link_target_written (Target_id i) = (None, Some i)"

section \<open>Parameters, headers, media types\<close>

datatype parameter_in = In_query | In_header | In_path | In_cookie | In_querystring

fun parameter_in_str :: "parameter_in \<Rightarrow> string" where
  "parameter_in_str In_query = ''query''"
| "parameter_in_str In_header = ''header''"
| "parameter_in_str In_path = ''path''"
| "parameter_in_str In_cookie = ''cookie''"
| "parameter_in_str In_querystring = ''querystring''"

datatype style = Matrix | Label | Simple | Form | Space_delimited | Pipe_delimited | Deep_object | Cookie_style

fun style_str :: "style \<Rightarrow> string" where
  "style_str Matrix = ''matrix''"
| "style_str Label = ''label''"
| "style_str Simple = ''simple''"
| "style_str Form = ''form''"
| "style_str Space_delimited = ''spaceDelimited''"
| "style_str Pipe_delimited = ''pipeDelimited''"
| "style_str Deep_object = ''deepObject''"
| "style_str Cookie_style = ''cookie''"

datatype header_style = Simple_header

datatype encoding_style = Form_encoding | Space_encoding | Pipe_encoding | Deep_encoding

fun encoding_style_of :: "encoding_style \<Rightarrow> style" where
  "encoding_style_of Form_encoding = Form"
| "encoding_style_of Space_encoding = Space_delimited"
| "encoding_style_of Pipe_encoding = Pipe_delimited"
| "encoding_style_of Deep_encoding = Deep_object"

fun header_style_of :: "header_style \<Rightarrow> style" where
  "header_style_of Simple_header = Simple"

fun style_default_for :: "parameter_in \<Rightarrow> style" where
  "style_default_for In_query = Form"
| "style_default_for In_cookie = Form"
| "style_default_for In_path = Simple"
| "style_default_for In_header = Simple"
| "style_default_for In_querystring = Form"

fun style_valid_for :: "style \<Rightarrow> parameter_in \<Rightarrow> bool" where
  "style_valid_for Matrix location \<longleftrightarrow> location = In_path"
| "style_valid_for Label location \<longleftrightarrow> location = In_path"
| "style_valid_for Simple location \<longleftrightarrow> location = In_path \<or> location = In_header"
| "style_valid_for Form location \<longleftrightarrow> location = In_query \<or> location = In_cookie"
| "style_valid_for Space_delimited location \<longleftrightarrow> location = In_query"
| "style_valid_for Pipe_delimited location \<longleftrightarrow> location = In_query"
| "style_valid_for Deep_object location \<longleftrightarrow> location = In_query"
| "style_valid_for Cookie_style location \<longleftrightarrow> location = In_cookie"

fun style_default_explode :: "style \<Rightarrow> bool" where
  "style_default_explode Form = True"
| "style_default_explode Cookie_style = True"
| "style_default_explode _ = False"

text \<open>The fields of a Media Type, an Encoding and a Header Object that hold none of the three.\<close>

record media_type_head =
  mt_schema :: "schema option"
  mt_item_schema :: "schema option"
  mt_examples :: "examples option"
  mt_extensions :: extensions

record encoding_head =
  en_content_type :: "string option"
  en_style :: "encoding_style option"
  en_explode :: "bool option"
  en_allow_reserved :: "bool option"
  en_extensions :: extensions

record header_head =
  hd_description :: "string option"
  hd_required :: "bool option"
  hd_deprecated :: "bool option"
  hd_examples :: "examples option"
  hd_extensions :: extensions

datatype media_type = Media_type
    (mt_head: media_type_head)
    (mt_encoding: "encoding entries")
    (mt_prefix_encoding: "encoding list option")
    (mt_item_encoding: "encoding option")
and encoding = Encoding
    (en_head: encoding_head)
    (en_headers: "header ref_or entries")
    (en_encoding: "encoding entries")
    (en_prefix_encoding: "encoding list option")
    (en_item_encoding: "encoding option")
and header = Header (hd_head: header_head) (hd_shape: header_shape)
and header_shape =
    Header_schema schema "header_style option" "bool option"
  | Header_content string "media_type ref_or"

datatype parameter_shape =
    Shape_schema schema "style option" "bool option" "bool option"
  | Shape_content string "media_type ref_or"

record parameter =
  pm_name :: string
  pm_location :: parameter_in
  pm_description :: "string option"
  pm_required :: "bool option"
  pm_deprecated :: "bool option"
  pm_allow_empty :: "bool option"
  pm_shape :: parameter_shape
  pm_examples :: "examples option"
  pm_extensions :: extensions

definition parameter_shaped :: "string \<Rightarrow> parameter_in \<Rightarrow> parameter_shape \<Rightarrow> parameter" where
  "parameter_shaped name location shape' =
     \<lparr>pm_name = name, pm_location = location, pm_description = None,
      pm_required = (if location = In_path then Some True else None), pm_deprecated = None, pm_allow_empty = None,
      pm_shape = shape', pm_examples = None, pm_extensions = []\<rparr>"

definition parameter_new :: "string \<Rightarrow> parameter_in \<Rightarrow> schema \<Rightarrow> parameter" where
  "parameter_new name location s = parameter_shaped name location (Shape_schema s None None None)"

definition parameter_with_content :: "string \<Rightarrow> parameter_in \<Rightarrow> string \<Rightarrow> media_type ref_or \<Rightarrow> parameter" where
  "parameter_with_content name location mime v = parameter_shaped name location (Shape_content mime v)"

definition parameter_with_style :: "parameter \<Rightarrow> style \<Rightarrow> bool \<Rightarrow> parameter" where
  "parameter_with_style p st explode =
     (case pm_shape p of
        Shape_schema s _ _ reserved \<Rightarrow> p\<lparr>pm_shape := Shape_schema s (Some st) (Some explode) reserved\<rparr>
      | Shape_content _ _ \<Rightarrow> p)"

definition parameter_with_example :: "parameter \<Rightarrow> json \<Rightarrow> parameter" where
  "parameter_with_example p v = p\<lparr>pm_examples := Some (Inline v)\<rparr>"

definition parameter_with_named_example :: "parameter \<Rightarrow> string \<Rightarrow> example \<Rightarrow> parameter" where
  "parameter_with_named_example p name ex = p\<lparr>pm_examples := Some (examples_with_named (pm_examples p) name (Item ex))\<rparr>"

definition parameter_with_named_example_ref :: "parameter \<Rightarrow> string \<Rightarrow> reference \<Rightarrow> parameter" where
  "parameter_with_named_example_ref p name r = p\<lparr>pm_examples := Some (examples_with_named (pm_examples p) name (Ref r))\<rparr>"

definition pm_schema :: "parameter \<Rightarrow> schema option" where
  "pm_schema p = (case pm_shape p of Shape_schema s _ _ _ \<Rightarrow> Some s | Shape_content _ _ \<Rightarrow> None)"

definition pm_content :: "parameter \<Rightarrow> (string \<times> media_type ref_or) option" where
  "pm_content p = (case pm_shape p of Shape_content mime v \<Rightarrow> Some (mime, v) | Shape_schema _ _ _ _ \<Rightarrow> None)"

definition pm_style :: "parameter \<Rightarrow> style option" where
  "pm_style p = (case pm_shape p of Shape_schema _ st _ _ \<Rightarrow> st | Shape_content _ _ \<Rightarrow> None)"

definition pm_allow_reserved :: "parameter \<Rightarrow> bool option" where
  "pm_allow_reserved p = (case pm_shape p of Shape_schema _ _ _ reserved \<Rightarrow> reserved | Shape_content _ _ \<Rightarrow> None)"

definition pm_named_examples :: "parameter \<Rightarrow> example ref_or entries option" where
  "pm_named_examples p = Option.bind (pm_examples p) as_named"

definition pm_example :: "parameter \<Rightarrow> json option" where
  "pm_example p = Option.bind (pm_examples p) as_inline"

definition effective_style :: "parameter \<Rightarrow> style option" where
  "effective_style p =
     (case pm_shape p of
        Shape_schema _ st _ _ \<Rightarrow> Some (case st of Some st \<Rightarrow> st | None \<Rightarrow> style_default_for (pm_location p))
      | Shape_content _ _ \<Rightarrow> None)"

definition effective_explode :: "parameter \<Rightarrow> bool option" where
  "effective_explode p =
     (case pm_shape p of
        Shape_schema _ _ explode _ \<Rightarrow>
          Some (case explode of Some explode \<Rightarrow> explode
                | None \<Rightarrow> (case effective_style p of None \<Rightarrow> False | Some st \<Rightarrow> style_default_explode st))
      | Shape_content _ _ \<Rightarrow> None)"

definition IGNORED_HEADER_PARAMETERS :: "string list" where
  "IGNORED_HEADER_PARAMETERS = [''Accept'', ''Content-Type'', ''Authorization'']"

definition is_ignored_header_parameter :: "string \<Rightarrow> bool" where
  "is_ignored_header_parameter name \<longleftrightarrow> list_ex (\<lambda>ignored. eq_ignore_ascii_case ignored name) IGNORED_HEADER_PARAMETERS"

definition IGNORED_HEADERS :: "string list" where "IGNORED_HEADERS = [''Content-Type'']"

definition is_ignored_header :: "string \<Rightarrow> bool" where
  "is_ignored_header name \<longleftrightarrow> list_ex (\<lambda>ignored. eq_ignore_ascii_case ignored name) IGNORED_HEADERS"

definition header_shaped :: "header_shape \<Rightarrow> header" where
  "header_shaped shape' =
     Header \<lparr>hd_description = None, hd_required = None, hd_deprecated = None, hd_examples = None, hd_extensions = []\<rparr> shape'"

definition header_new :: "schema \<Rightarrow> header" where "header_new s = header_shaped (Header_schema s None None)"

definition header_with_content :: "string \<Rightarrow> media_type ref_or \<Rightarrow> header" where
  "header_with_content mime v = header_shaped (Header_content mime v)"

fun hd_schema :: "header \<Rightarrow> schema option" where
  "hd_schema (Header _ (Header_schema s _ _)) = Some s"
| "hd_schema (Header _ (Header_content _ _)) = None"

fun hd_content :: "header \<Rightarrow> (string \<times> media_type ref_or) option" where
  "hd_content (Header _ (Header_content mime v)) = Some (mime, v)"
| "hd_content (Header _ (Header_schema _ _ _)) = None"

definition hd_named_examples :: "header \<Rightarrow> example ref_or entries option" where
  "hd_named_examples h = Option.bind (hd_examples (hd_head h)) as_named"

fun header_with_style :: "header \<Rightarrow> header_style \<Rightarrow> bool \<Rightarrow> header" where
  "header_with_style (Header h (Header_schema s _ _)) st explode = Header h (Header_schema s (Some st) (Some explode))"
| "header_with_style h st explode = h"

definition media_type_default :: media_type where
  "media_type_default =
     Media_type \<lparr>mt_schema = None, mt_item_schema = None, mt_examples = None, mt_extensions = []\<rparr> [] None None"

fun media_type_map :: "(media_type_head \<Rightarrow> media_type_head) \<Rightarrow> media_type \<Rightarrow> media_type" where
  "media_type_map f (Media_type h encodings prefix' item') = Media_type (f h) encodings prefix' item'"

definition media_type_new :: "schema \<Rightarrow> media_type" where
  "media_type_new s = media_type_map (mt_schema_update (\<lambda>_. Some s)) media_type_default"

definition media_type_sequential :: "schema \<Rightarrow> media_type" where
  "media_type_sequential s = media_type_map (mt_item_schema_update (\<lambda>_. Some s)) media_type_default"

fun media_type_with_encoding :: "media_type \<Rightarrow> string \<Rightarrow> encoding \<Rightarrow> media_type" where
  "media_type_with_encoding (Media_type h encodings prefix' item') property en =
     Media_type h (map_insert property en encodings) prefix' item'"

definition mt_named_examples :: "media_type \<Rightarrow> example ref_or entries option" where
  "mt_named_examples m = Option.bind (mt_examples (mt_head m)) as_named"

definition encoding_new :: "string \<Rightarrow> encoding" where
  "encoding_new mime =
     Encoding \<lparr>en_content_type = Some mime, en_style = None, en_explode = None, en_allow_reserved = None, en_extensions = []\<rparr>
       [] [] None None"

fun encoding_with_header :: "encoding \<Rightarrow> string \<Rightarrow> header \<Rightarrow> encoding" where
  "encoding_with_header (Encoding h headers' encodings prefix' item') name x =
     Encoding h (map_insert name (Item x) headers') encodings prefix' item'"

text \<open>The wire shapes: the flat fields of a parameter and of a header.\<close>

datatype parameter_conflict = Neither_shape | Both_shapes | Content_not_singular nat | Examples_conflict

fun shape_from :: "schema option \<Rightarrow> media_type ref_or entries \<Rightarrow> parameter_conflict + schema \<times> (string \<times> media_type ref_or) option" where
  "shape_from (Some _) (_ # _) = Inl Both_shapes"
| "shape_from None [] = Inl Neither_shape"
| "shape_from None [(mime, v)] = Inr (Schema_bool True, Some (mime, v))"
| "shape_from None content = Inl (Content_not_singular (length content))"
| "shape_from (Some s) [] = Inr (s, None)"

record raw_parameter =
  raw_name :: string
  raw_location :: parameter_in
  raw_description :: "string option"
  raw_required :: "bool option"
  raw_deprecated :: "bool option"
  raw_allow_empty :: "bool option"
  raw_style :: "style option"
  raw_explode :: "bool option"
  raw_allow_reserved :: "bool option"
  raw_schema :: "schema option"
  raw_example :: "json option"
  raw_examples :: "example ref_or entries option"
  raw_content :: "media_type ref_or entries"
  raw_extensions :: extensions

definition parameter_read :: "raw_parameter \<Rightarrow> parameter_conflict + parameter" where
  "parameter_read r =
     (case shape_from (raw_schema r) (raw_content r) of
        Inl e \<Rightarrow> Inl e
      | Inr (s, entry) \<Rightarrow>
          let shape' = (case entry of Some (mime, v) \<Rightarrow> Shape_content mime v
                        | None \<Rightarrow> Shape_schema s (raw_style r) (raw_explode r) (raw_allow_reserved r))
          in (case examples_from (raw_example r) (raw_examples r) of
                None \<Rightarrow> Inl Examples_conflict
              | Some held \<Rightarrow> Inr \<lparr>pm_name = raw_name r, pm_location = raw_location r, pm_description = raw_description r,
                  pm_required = raw_required r, pm_deprecated = raw_deprecated r, pm_allow_empty = raw_allow_empty r,
                  pm_shape = shape', pm_examples = held, pm_extensions = raw_extensions r\<rparr>))"

definition parameter_written :: "parameter \<Rightarrow> raw_parameter" where
  "parameter_written p =
     (let (s, st, explode, reserved, content) = (case pm_shape p of
             Shape_schema s st explode reserved \<Rightarrow> (Some s, st, explode, reserved, [])
           | Shape_content mime v \<Rightarrow> (None, None, None, None, [(mime, v)]));
          (ex, exs) = examples_into (pm_examples p)
      in \<lparr>raw_name = pm_name p, raw_location = pm_location p, raw_description = pm_description p,
          raw_required = pm_required p, raw_deprecated = pm_deprecated p, raw_allow_empty = pm_allow_empty p,
          raw_style = st, raw_explode = explode, raw_allow_reserved = reserved, raw_schema = s, raw_example = ex,
          raw_examples = exs, raw_content = content, raw_extensions = pm_extensions p\<rparr>)"

record raw_header =
  rh_description :: "string option"
  rh_required :: "bool option"
  rh_deprecated :: "bool option"
  rh_style :: "header_style option"
  rh_explode :: "bool option"
  rh_schema :: "schema option"
  rh_example :: "json option"
  rh_examples :: "example ref_or entries option"
  rh_content :: "media_type ref_or entries"
  rh_extensions :: extensions

definition header_read :: "raw_header \<Rightarrow> parameter_conflict + header" where
  "header_read r =
     (case shape_from (rh_schema r) (rh_content r) of
        Inl e \<Rightarrow> Inl e
      | Inr (s, entry) \<Rightarrow>
          let shape' = (case entry of Some (mime, v) \<Rightarrow> Header_content mime v
                        | None \<Rightarrow> Header_schema s (rh_style r) (rh_explode r))
          in (case examples_from (rh_example r) (rh_examples r) of
                None \<Rightarrow> Inl Examples_conflict
              | Some held \<Rightarrow> Inr (Header \<lparr>hd_description = rh_description r, hd_required = rh_required r,
                  hd_deprecated = rh_deprecated r, hd_examples = held, hd_extensions = rh_extensions r\<rparr> shape')))"

fun header_written :: "header \<Rightarrow> raw_header" where
  "header_written (Header h shape') =
     (let (s, st, explode, content) = (case shape' of
             Header_schema s st explode \<Rightarrow> (Some s, st, explode, [])
           | Header_content mime v \<Rightarrow> (None, None, None, [(mime, v)]));
          (ex, exs) = examples_into (hd_examples h)
      in \<lparr>rh_description = hd_description h, rh_required = hd_required h, rh_deprecated = hd_deprecated h,
          rh_style = st, rh_explode = explode, rh_schema = s, rh_example = ex, rh_examples = exs, rh_content = content,
          rh_extensions = hd_extensions h\<rparr>)"

record raw_media_type =
  rm_schema :: "schema option"
  rm_item_schema :: "schema option"
  rm_example :: "json option"
  rm_examples :: "example ref_or entries option"
  rm_encoding :: "encoding entries"
  rm_prefix_encoding :: "encoding list option"
  rm_item_encoding :: "encoding option"
  rm_extensions :: extensions

definition media_type_read :: "raw_media_type \<Rightarrow> media_type option" where
  "media_type_read r =
     (case examples_from (rm_example r) (rm_examples r) of
        None \<Rightarrow> None
      | Some held \<Rightarrow> Some (Media_type \<lparr>mt_schema = rm_schema r, mt_item_schema = rm_item_schema r, mt_examples = held,
          mt_extensions = rm_extensions r\<rparr> (rm_encoding r) (rm_prefix_encoding r) (rm_item_encoding r)))"

fun media_type_written :: "media_type \<Rightarrow> raw_media_type" where
  "media_type_written (Media_type h encodings prefix' item') =
     (let (ex, exs) = examples_into (mt_examples h)
      in \<lparr>rm_schema = mt_schema h, rm_item_schema = mt_item_schema h, rm_example = ex, rm_examples = exs,
          rm_encoding = encodings, rm_prefix_encoding = prefix', rm_item_encoding = item', rm_extensions = mt_extensions h\<rparr>)"

section \<open>Request bodies and responses\<close>

record request_body =
  rb_description :: "string option"
  rb_content :: "media_type ref_or entries"
  rb_required :: "bool option"
  rb_extensions :: extensions

definition request_body_new :: "string \<Rightarrow> media_type ref_or \<Rightarrow> request_body" where
  "request_body_new mime content =
     \<lparr>rb_description = None, rb_content = [(mime, content)], rb_required = Some True, rb_extensions = []\<rparr>"

definition request_body_json :: "schema \<Rightarrow> request_body" where
  "request_body_json s = request_body_new ''application/json'' (Item (media_type_new s))"

definition request_body_with_media_type :: "request_body \<Rightarrow> string \<Rightarrow> media_type ref_or \<Rightarrow> request_body" where
  "request_body_with_media_type b mime content = b\<lparr>rb_content := map_insert mime content (rb_content b)\<rparr>"

datatype status_pattern = Code nat | Informational | Success | Redirection | Client_error | Server_error

fun status_matches :: "status_pattern \<Rightarrow> nat \<Rightarrow> bool" where
  "status_matches (Code exact) c \<longleftrightarrow> exact = c"
| "status_matches Informational c \<longleftrightarrow> 100 \<le> c \<and> c < 200"
| "status_matches Success c \<longleftrightarrow> 200 \<le> c \<and> c < 300"
| "status_matches Redirection c \<longleftrightarrow> 300 \<le> c \<and> c < 400"
| "status_matches Client_error c \<longleftrightarrow> 400 \<le> c \<and> c < 500"
| "status_matches Server_error c \<longleftrightarrow> 500 \<le> c \<and> c < 600"

fun status_is_range :: "status_pattern \<Rightarrow> bool" where
  "status_is_range (Code _) = False"
| "status_is_range _ = True"

fun status_display :: "status_pattern \<Rightarrow> string" where
  "status_display (Code c) = decimal c"
| "status_display Informational = ''1XX''"
| "status_display Success = ''2XX''"
| "status_display Redirection = ''3XX''"
| "status_display Client_error = ''4XX''"
| "status_display Server_error = ''5XX''"

definition status_parse :: "string \<Rightarrow> status_pattern option" where
  "status_parse v =
     (if v = ''1XX'' then Some Informational else if v = ''2XX'' then Some Success
      else if v = ''3XX'' then Some Redirection else if v = ''4XX'' then Some Client_error
      else if v = ''5XX'' then Some Server_error
      else (case v of
              [h, t, u] \<Rightarrow>
                if is_ascii_digit h \<and> 1 \<le> digit_val h \<and> digit_val h \<le> 5 \<and> is_ascii_digit t \<and> is_ascii_digit u
                then Some (Code (digit_val h * 100 + digit_val t * 10 + digit_val u))
                else None
            | _ \<Rightarrow> None))"

record response =
  rs_summary :: "string option"
  rs_description :: "string option"
  rs_headers :: "header ref_or entries"
  rs_content :: "media_type ref_or entries"
  rs_links :: "link ref_or entries"
  rs_extensions :: extensions

definition response_new :: "string \<Rightarrow> response" where
  "response_new description' = \<lparr>rs_summary = None, rs_description = Some description', rs_headers = [], rs_content = [],
     rs_links = [], rs_extensions = []\<rparr>"

definition response_with_content :: "string \<Rightarrow> string \<Rightarrow> media_type ref_or \<Rightarrow> response" where
  "response_with_content description' mime content = (response_new description')\<lparr>rs_content := [(mime, content)]\<rparr>"

definition response_with_header :: "response \<Rightarrow> string \<Rightarrow> header \<Rightarrow> response" where
  "response_with_header r name h = r\<lparr>rs_headers := map_insert name (Item h) (rs_headers r)\<rparr>"

definition response_with_link :: "response \<Rightarrow> string \<Rightarrow> link \<Rightarrow> response" where
  "response_with_link r name l = r\<lparr>rs_links := map_insert name (Item l) (rs_links r)\<rparr>"

definition response_with_extension :: "response \<Rightarrow> string \<Rightarrow> json \<Rightarrow> response" where
  "response_with_extension r key v = r\<lparr>rs_extensions := map_insert key v (rs_extensions r)\<rparr>"

record responses =
  default_response :: "response ref_or option"
  keyed_responses :: "response ref_or entries"
  responses_extensions :: extensions

definition responses_new :: responses where
  "responses_new = \<lparr>default_response = None, keyed_responses = [], responses_extensions = []\<rparr>"

definition responses_with :: "responses \<Rightarrow> nat \<Rightarrow> response \<Rightarrow> responses" where
  "responses_with rs st r = rs\<lparr>keyed_responses := map_insert (status_display (Code st)) (Item r) (keyed_responses rs)\<rparr>"

definition responses_with_pattern :: "responses \<Rightarrow> status_pattern \<Rightarrow> response ref_or \<Rightarrow> responses" where
  "responses_with_pattern rs p r = rs\<lparr>keyed_responses := map_insert (status_display p) r (keyed_responses rs)\<rparr>"

definition responses_with_default :: "responses \<Rightarrow> response \<Rightarrow> responses" where
  "responses_with_default rs r = rs\<lparr>default_response := Some (Item r)\<rparr>"

definition responses_empty :: "responses \<Rightarrow> bool" where
  "responses_empty rs \<longleftrightarrow> default_response rs = None \<and> keyed_responses rs = [] \<and> responses_extensions rs = []"

definition declares_a_response :: "responses \<Rightarrow> bool" where
  "declares_a_response rs \<longleftrightarrow> default_response rs \<noteq> None \<or> keyed_responses rs \<noteq> []"

definition responses_get :: "responses \<Rightarrow> nat \<Rightarrow> response ref_or option" where
  "responses_get rs st = map_get (keyed_responses rs) (status_display (Code st))"

definition responses_entries :: "responses \<Rightarrow> (string \<times> response) list" where
  "responses_entries rs =
     (case Option.bind (default_response rs) as_item of Some r \<Rightarrow> [(''default'', r)] | None \<Rightarrow> []) @
     filter_map (\<lambda>(key, r). map_option (\<lambda>r. (key, r)) (as_item r)) (keyed_responses rs)"

definition merge_from :: "responses \<Rightarrow> responses \<Rightarrow> responses" where
  "merge_from rs other =
     rs\<lparr>default_response := (case default_response rs of None \<Rightarrow> default_response other | Some r \<Rightarrow> Some r),
        keyed_responses := foldl (\<lambda>held (key, r). if map_get held key = None then map_insert key r held else held)
          (keyed_responses rs) (keyed_responses other)\<rparr>"

section \<open>Security\<close>

record oauth_flow =
  fl_authorization_url :: "string option"
  fl_token_url :: "string option"
  fl_device_url :: "string option"
  fl_refresh_url :: "string option"
  fl_scopes :: "string entries"
  fl_extensions :: extensions

definition oauth_flow_new :: "string entries \<Rightarrow> oauth_flow" where
  "oauth_flow_new scopes = \<lparr>fl_authorization_url = None, fl_token_url = None, fl_device_url = None, fl_refresh_url = None,
     fl_scopes = foldl (\<lambda>ms (k, v). map_insert k v ms) [] scopes, fl_extensions = []\<rparr>"

record oauth_flows =
  implicit_flow :: "oauth_flow option"
  password_flow :: "oauth_flow option"
  client_credentials_flow :: "oauth_flow option"
  authorization_code_flow :: "oauth_flow option"
  device_authorization_flow :: "oauth_flow option"
  flows_extensions :: extensions

datatype api_key_location = Key_in_query | Key_in_header | Key_in_cookie

fun api_key_location_str :: "api_key_location \<Rightarrow> string" where
  "api_key_location_str Key_in_query = ''query''"
| "api_key_location_str Key_in_header = ''header''"
| "api_key_location_str Key_in_cookie = ''cookie''"

record scheme_head =
  sh_description :: "string option"
  sh_deprecated :: "bool option"
  sh_extensions :: extensions

datatype scheme_kind =
    Api_key string api_key_location
  | Http_scheme string "string option"
  | Mutual_tls
  | OAuth2 oauth_flows "string option"
  | Open_id_connect string

text \<open>The fields every type of scheme has, and those of its type.\<close>

record security_scheme =
  scheme_head :: scheme_head
  scheme_kind :: scheme_kind

definition scheme_of :: "scheme_kind \<Rightarrow> security_scheme" where
  "scheme_of k = \<lparr>scheme_head = \<lparr>sh_description = None, sh_deprecated = None, sh_extensions = []\<rparr>, scheme_kind = k\<rparr>"

definition scheme_http :: "string \<Rightarrow> string option \<Rightarrow> security_scheme" where "scheme_http s f = scheme_of (Http_scheme s f)"
definition scheme_bearer :: "string option \<Rightarrow> security_scheme" where "scheme_bearer f = scheme_http ''bearer'' f"
definition scheme_basic :: security_scheme where "scheme_basic = scheme_http ''basic'' None"

definition scheme_api_key :: "string \<Rightarrow> api_key_location \<Rightarrow> security_scheme" where
  "scheme_api_key name location = scheme_of (Api_key name location)"

definition scheme_mutual_tls :: security_scheme where "scheme_mutual_tls = scheme_of Mutual_tls"
definition scheme_oauth2 :: "oauth_flows \<Rightarrow> security_scheme" where "scheme_oauth2 flows = scheme_of (OAuth2 flows None)"
definition scheme_open_id :: "string \<Rightarrow> security_scheme" where "scheme_open_id url = scheme_of (Open_id_connect url)"

definition scheme_with_description :: "security_scheme \<Rightarrow> string \<Rightarrow> security_scheme" where
  "scheme_with_description s description' = s\<lparr>scheme_head := (scheme_head s)\<lparr>sh_description := Some description'\<rparr>\<rparr>"

definition scheme_with_extension :: "security_scheme \<Rightarrow> string \<Rightarrow> json \<Rightarrow> security_scheme" where
  "scheme_with_extension s key v =
     s\<lparr>scheme_head := (scheme_head s)\<lparr>sh_extensions := map_insert key v (sh_extensions (scheme_head s))\<rparr>\<rparr>"

definition scheme_with_deprecated :: "security_scheme \<Rightarrow> bool \<Rightarrow> security_scheme" where
  "scheme_with_deprecated s d = s\<lparr>scheme_head := (scheme_head s)\<lparr>sh_deprecated := Some d\<rparr>\<rparr>"

definition scheme_with_metadata_url :: "security_scheme \<Rightarrow> string \<Rightarrow> security_scheme" where
  "scheme_with_metadata_url s url =
     (case scheme_kind s of OAuth2 flows _ \<Rightarrow> s\<lparr>scheme_kind := OAuth2 flows (Some url)\<rparr> | _ \<Rightarrow> s)"

type_synonym security_requirement = "string list entries"

definition requirement_anonymous :: security_requirement where "requirement_anonymous = []"
definition requirement_scheme :: "string \<Rightarrow> security_requirement" where "requirement_scheme name = [(name, [])]"

definition requirement_scoped :: "string \<Rightarrow> string list \<Rightarrow> security_requirement" where
  "requirement_scoped name scopes = [(name, scopes)]"

definition requirement_and :: "security_requirement \<Rightarrow> string \<Rightarrow> string list \<Rightarrow> security_requirement" where
  "requirement_and r name scopes = map_insert name scopes r"

definition is_anonymous :: "security_requirement \<Rightarrow> bool" where "is_anonymous r \<longleftrightarrow> r = []"

section \<open>Operations, path items, callbacks\<close>

record operation_head =
  op_tags :: "string list"
  op_summary :: "string option"
  op_description :: "string option"
  op_external_docs :: "external_documentation option"
  op_id :: "string option"
  op_parameters :: "parameter ref_or list"
  op_request_body :: "request_body ref_or option"
  op_responses :: responses
  op_deprecated :: "bool option"
  op_security :: "security_requirement list option"
  op_servers :: "server list"
  op_extensions :: extensions

record path_item_head =
  pi_reference :: "string option"
  pi_summary :: "string option"
  pi_description :: "string option"
  pi_servers :: "server list"
  pi_parameters :: "parameter ref_or list"
  pi_extensions :: extensions

datatype operation = Operation (op_head: operation_head) (op_callbacks: "callback ref_or entries")
and callback = Callback (cb_items: "path_item ref_or entries") (cb_extensions: extensions)
and path_item = Path_item
    (pi_head: path_item_head)
    (pi_get: "operation option")
    (pi_put: "operation option")
    (pi_post: "operation option")
    (pi_delete: "operation option")
    (pi_options: "operation option")
    (pi_head_operation: "operation option")
    (pi_patch: "operation option")
    (pi_trace: "operation option")
    (pi_query: "operation option")
    (pi_additional: "operation entries")

definition operation_default :: operation where
  "operation_default = Operation
     \<lparr>op_tags = [], op_summary = None, op_description = None, op_external_docs = None, op_id = None, op_parameters = [],
      op_request_body = None, op_responses = responses_new, op_deprecated = None, op_security = None, op_servers = [],
      op_extensions = []\<rparr> []"

fun operation_map :: "(operation_head \<Rightarrow> operation_head) \<Rightarrow> operation \<Rightarrow> operation" where
  "operation_map f (Operation h callbacks) = Operation (f h) callbacks"

definition operation_new :: "string \<Rightarrow> operation" where
  "operation_new i = operation_map (op_id_update (\<lambda>_. Some i)) operation_default"

definition operation_with_tag :: "operation \<Rightarrow> string \<Rightarrow> operation" where
  "operation_with_tag p tag = operation_map (op_tags_update (\<lambda>tags. tags @ [tag])) p"

definition operation_with_parameter :: "operation \<Rightarrow> parameter \<Rightarrow> operation" where
  "operation_with_parameter p x = operation_map (op_parameters_update (\<lambda>xs. xs @ [Item x])) p"

definition operation_with_request_body :: "operation \<Rightarrow> request_body \<Rightarrow> operation" where
  "operation_with_request_body p b = operation_map (op_request_body_update (\<lambda>_. Some (Item b))) p"

definition operation_with_responses :: "operation \<Rightarrow> responses \<Rightarrow> operation" where
  "operation_with_responses p rs = operation_map (op_responses_update (\<lambda>_. rs)) p"

definition operation_with_security :: "operation \<Rightarrow> security_requirement \<Rightarrow> operation" where
  "operation_with_security p r =
     operation_map (op_security_update (\<lambda>held. Some ((case held of Some rs \<Rightarrow> rs | None \<Rightarrow> []) @ [r]))) p"

definition operation_deprecated :: "operation \<Rightarrow> operation" where
  "operation_deprecated p = operation_map (op_deprecated_update (\<lambda>_. Some True)) p"

fun callback_with :: "callback \<Rightarrow> string \<Rightarrow> path_item \<Rightarrow> callback" where
  "callback_with (Callback entries' exts) expression x = Callback (map_insert expression (Item x) entries') exts"

fun callback_empty :: "callback \<Rightarrow> bool" where
  "callback_empty (Callback entries' exts) \<longleftrightarrow> entries' = [] \<and> exts = []"

definition path_item_new :: path_item where
  "path_item_new = Path_item \<lparr>pi_reference = None, pi_summary = None, pi_description = None, pi_servers = [],
     pi_parameters = [], pi_extensions = []\<rparr> None None None None None None None None None []"

fun path_operation :: "path_item \<Rightarrow> http_method \<Rightarrow> operation option" where
  "path_operation x Get = pi_get x"
| "path_operation x Put = pi_put x"
| "path_operation x Post = pi_post x"
| "path_operation x Delete = pi_delete x"
| "path_operation x Options = pi_options x"
| "path_operation x Head = pi_head_operation x"
| "path_operation x Patch = pi_patch x"
| "path_operation x Trace = pi_trace x"
| "path_operation x Query = pi_query x"

fun put_operation :: "path_item \<Rightarrow> http_method \<Rightarrow> operation \<Rightarrow> path_item" where
  "put_operation (Path_item h g p o' d s e a t q more') Get x = Path_item h (Some x) p o' d s e a t q more'"
| "put_operation (Path_item h g p o' d s e a t q more') Put x = Path_item h g (Some x) o' d s e a t q more'"
| "put_operation (Path_item h g p o' d s e a t q more') Post x = Path_item h g p (Some x) d s e a t q more'"
| "put_operation (Path_item h g p o' d s e a t q more') Delete x = Path_item h g p o' (Some x) s e a t q more'"
| "put_operation (Path_item h g p o' d s e a t q more') Options x = Path_item h g p o' d (Some x) e a t q more'"
| "put_operation (Path_item h g p o' d s e a t q more') Head x = Path_item h g p o' d s (Some x) a t q more'"
| "put_operation (Path_item h g p o' d s e a t q more') Patch x = Path_item h g p o' d s e (Some x) t q more'"
| "put_operation (Path_item h g p o' d s e a t q more') Trace x = Path_item h g p o' d s e a (Some x) q more'"
| "put_operation (Path_item h g p o' d s e a t q more') Query x = Path_item h g p o' d s e a t (Some x) more'"

definition set_operation :: "path_item \<Rightarrow> http_method \<Rightarrow> operation \<Rightarrow> operation option \<times> path_item" where
  "set_operation x m p = (path_operation x m, put_operation x m p)"

definition path_operations :: "path_item \<Rightarrow> (http_method \<times> operation) list" where
  "path_operations x = filter_map (\<lambda>m. map_option (\<lambda>p. (m, p)) (path_operation x m)) all_methods"

record paths =
  paths_items :: "path_item entries"
  paths_extensions :: extensions

definition paths_insert :: "paths \<Rightarrow> path_template \<Rightarrow> path_item \<Rightarrow> path_item option \<times> paths" where
  "paths_insert ps t x = (map_get (paths_items ps) (raw t), ps\<lparr>paths_items := map_insert (raw t) x (paths_items ps)\<rparr>)"

definition paths_get :: "paths \<Rightarrow> path_template \<Rightarrow> path_item option" where
  "paths_get ps t = map_get (paths_items ps) (raw t)"

definition declares_a_path :: "paths \<Rightarrow> bool" where "declares_a_path ps \<longleftrightarrow> paths_items ps \<noteq> []"

section \<open>Components\<close>

definition is_component_char :: "char \<Rightarrow> bool" where
  "is_component_char c \<longleftrightarrow> is_ascii_alnum c \<or> c = CHR ''.'' \<or> c = CHR ''-'' \<or> c = CHR ''_''"

definition is_component_name :: "string \<Rightarrow> bool" where
  "is_component_name name \<longleftrightarrow> name \<noteq> [] \<and> list_all is_component_char name"

text \<open>None is the invalid name.\<close>

definition component_name_new :: "string \<Rightarrow> string option" where
  "component_name_new name = (if is_component_name name then Some name else None)"

fun sanitized_from :: "bool \<Rightarrow> string \<Rightarrow> string" where
  "sanitized_from previous_was_underscore [] = []"
| "sanitized_from previous_was_underscore (c # cs) =
     (if is_component_char c then c # sanitized_from False cs
      else if previous_was_underscore then sanitized_from True cs
      else CHR ''_'' # sanitized_from True cs)"

definition component_name_sanitized :: "string \<Rightarrow> string option" where
  "component_name_sanitized name =
     (let out = sanitized_from False name;
          trimmed = rev (dropWhile (\<lambda>c. c = CHR ''_'') (rev (dropWhile (\<lambda>c. c = CHR ''_'') out)))
      in component_name_new (if trimmed = [] then out else trimmed))"

record components =
  co_schemas :: "schema entries"
  co_responses :: "response ref_or entries"
  co_parameters :: "parameter ref_or entries"
  co_examples :: "example ref_or entries"
  co_request_bodies :: "request_body ref_or entries"
  co_headers :: "header ref_or entries"
  co_security_schemes :: "security_scheme ref_or entries"
  co_links :: "link ref_or entries"
  co_callbacks :: "callback ref_or entries"
  co_path_items :: "path_item entries"
  co_media_types :: "media_type ref_or entries"
  co_extensions :: extensions

definition components_new :: components where
  "components_new = \<lparr>co_schemas = [], co_responses = [], co_parameters = [], co_examples = [], co_request_bodies = [],
     co_headers = [], co_security_schemes = [], co_links = [], co_callbacks = [], co_path_items = [], co_media_types = [],
     co_extensions = []\<rparr>"

definition components_insert_schema :: "components \<Rightarrow> string \<Rightarrow> schema \<Rightarrow> schema \<times> components" where
  "components_insert_schema c name s = (schema_component name, c\<lparr>co_schemas := map_insert name s (co_schemas c)\<rparr>)"

definition components_insert_security_scheme :: "components \<Rightarrow> string \<Rightarrow> security_scheme \<Rightarrow> components" where
  "components_insert_security_scheme c name s =
     c\<lparr>co_security_schemes := map_insert name (Item s) (co_security_schemes c)\<rparr>"

definition components_empty :: "components \<Rightarrow> bool" where
  "components_empty c \<longleftrightarrow> co_schemas c = [] \<and> co_responses c = [] \<and> co_parameters c = [] \<and> co_examples c = [] \<and>
     co_request_bodies c = [] \<and> co_headers c = [] \<and> co_security_schemes c = [] \<and> co_links c = [] \<and> co_callbacks c = [] \<and>
     co_path_items c = [] \<and> co_extensions c = [] \<and> co_media_types c = []"

section \<open>The document\<close>

record contact =
  contact_name :: "string option"
  contact_url :: "string option"
  contact_email :: "string option"
  contact_extensions :: extensions

datatype license_link = Spdx string | License_url string

record license =
  license_name :: string
  license_link :: "license_link option"
  license_extensions :: extensions

definition license_named :: "string \<Rightarrow> license" where
  "license_named name = \<lparr>license_name = name, license_link = None, license_extensions = []\<rparr>"

definition license_spdx :: "string \<Rightarrow> string \<Rightarrow> license" where
  "license_spdx name i = (license_named name)\<lparr>license_link := Some (Spdx i)\<rparr>"

definition license_with_url :: "string \<Rightarrow> string \<Rightarrow> license" where
  "license_with_url name url = (license_named name)\<lparr>license_link := Some (License_url url)\<rparr>"

text \<open>The two fields of a link, \<open>identifier\<close> and \<open>url\<close>; None is both at once.\<close>

fun license_link_read :: "string option \<Rightarrow> string option \<Rightarrow> license_link option option" where
  "license_link_read (Some _) (Some _) = None"
| "license_link_read (Some i) None = Some (Some (Spdx i))"
| "license_link_read None (Some url) = Some (Some (License_url url))"
| "license_link_read None None = Some None"

fun license_link_written :: "license_link option \<Rightarrow> string option \<times> string option" where
  "license_link_written (Some (Spdx i)) = (Some i, None)"
| "license_link_written (Some (License_url url)) = (None, Some url)"
| "license_link_written None = (None, None)"

record info =
  info_title :: string
  info_summary :: "string option"
  info_description :: "string option"
  info_terms :: "string option"
  info_contact :: "contact option"
  info_license :: "license option"
  info_version :: string
  info_extensions :: extensions

definition info_new :: "string \<Rightarrow> string \<Rightarrow> info" where
  "info_new title version = \<lparr>info_title = title, info_summary = None, info_description = None, info_terms = None,
     info_contact = None, info_license = None, info_version = version, info_extensions = []\<rparr>"

record tag =
  tag_name :: string
  tag_summary :: "string option"
  tag_description :: "string option"
  tag_parent :: "string option"
  tag_kind :: "string option"
  tag_external_docs :: "external_documentation option"
  tag_extensions :: extensions

definition tag_new :: "string \<Rightarrow> tag" where
  "tag_new name = \<lparr>tag_name = name, tag_summary = None, tag_description = None, tag_parent = None, tag_kind = None,
     tag_external_docs = None, tag_extensions = []\<rparr>"

datatype spec_version = V3_1 | V3_2

fun spec_version_str :: "spec_version \<Rightarrow> string" where
  "spec_version_str V3_1 = ''3.1.2''"
| "spec_version_str V3_2 = ''3.2.0''"

definition supports_3_2 :: "spec_version \<Rightarrow> bool" where "supports_3_2 v \<longleftrightarrow> v = V3_2"

definition OAS_DIALECT :: string where "OAS_DIALECT = ''https://spec.openapis.org/oas/3.1/dialect/base''"

record document =
  doc_openapi :: string
  doc_self_uri :: "string option"
  doc_info :: info
  doc_dialect :: "string option"
  doc_servers :: "server list"
  doc_paths :: paths
  doc_webhooks :: "path_item entries"
  doc_components :: components
  doc_security :: "security_requirement list"
  doc_tags :: "tag list"
  doc_external_docs :: "external_documentation option"
  doc_extensions :: extensions

definition document_new :: "spec_version \<Rightarrow> info \<Rightarrow> document" where
  "document_new version i = \<lparr>doc_openapi = spec_version_str version, doc_self_uri = None, doc_info = i, doc_dialect = None,
     doc_servers = [], doc_paths = \<lparr>paths_items = [], paths_extensions = []\<rparr>, doc_webhooks = [],
     doc_components = components_new, doc_security = [], doc_tags = [], doc_external_docs = None, doc_extensions = []\<rparr>"

definition document_spec_version :: "document \<Rightarrow> spec_version option" where
  "document_spec_version d =
     (case split_on (\<lambda>c. c = CHR ''.'') (doc_openapi d) of
        major # minor # _ \<Rightarrow>
          if major = ''3'' \<and> minor = ''1'' then Some V3_1
          else if major = ''3'' \<and> minor = ''2'' then Some V3_2 else None
      | _ \<Rightarrow> None)"

definition effective_dialect :: "document \<Rightarrow> string" where
  "effective_dialect d = (case doc_dialect d of Some dialect \<Rightarrow> dialect | None \<Rightarrow> OAS_DIALECT)"

definition document_with_server :: "document \<Rightarrow> server \<Rightarrow> document" where
  "document_with_server d s = d\<lparr>doc_servers := doc_servers d @ [s]\<rparr>"

definition document_with_tag :: "document \<Rightarrow> tag \<Rightarrow> document" where
  "document_with_tag d t = d\<lparr>doc_tags := doc_tags d @ [t]\<rparr>"

definition document_with_security :: "document \<Rightarrow> security_requirement \<Rightarrow> document" where
  "document_with_security d r = d\<lparr>doc_security := doc_security d @ [r]\<rparr>"

section \<open>Lemmas: sizes\<close>

lemma size_entry [termination_simp]:
  "(k, x) \<in> set ms \<Longrightarrow> f x < Suc (size_list (size_prod (\<lambda>_. 0) f) ms)"
  using size_list_less [of "(k, x)" ms "size_prod (\<lambda>_. 0) f"] by simp

lemma size_item_entry [termination_simp]:
  "(k, Item x) \<in> set ms \<Longrightarrow> f x < Suc (size_list (size_prod (\<lambda>_. 0) (size_ref_or f)) ms)"
  using size_list_less [of "(k, Item x)" ms "size_prod (\<lambda>_. 0) (size_ref_or f)"] by simp

section \<open>Lemmas: what is written is read back\<close>

lemma example_value_round_trip: "example_value_read t = Inr v \<longleftrightarrow> example_value_written v = t"
  by (cases t rule: example_value_read.cases; cases v rule: example_value_written.cases) auto

lemma link_target_round_trip: "link_target_read a b = Inr v \<longleftrightarrow> link_target_written v = (a, b)"
  by (cases a; cases b; cases v) auto

lemma license_link_round_trip: "license_link_read a b = Some v \<longleftrightarrow> license_link_written v = (a, b)"
  by (cases a; cases b; cases v rule: license_link_written.cases) auto

lemma examples_round_trip: "examples_from a b = Some v \<longleftrightarrow> examples_into v = (a, b)"
  by (cases a; cases b; cases v rule: examples_into.cases) auto

lemma parameter_round_trip: "parameter_read (parameter_written p) = Inr p"
  by (cases "examples_into (pm_examples p)", cases "pm_shape p")
     (simp_all add: parameter_read_def parameter_written_def examples_round_trip [THEN iffD2])

lemma header_round_trip: "header_read (header_written h) = Inr h"
proof (cases h)
  case (Header x shape')
  then show ?thesis
    by (cases "examples_into (hd_examples x)", cases shape') (simp_all add: header_read_def examples_round_trip [THEN iffD2])
qed

lemma media_type_round_trip: "media_type_read (media_type_written m) = Some m"
proof (cases m)
  case (Media_type h a b c)
  then show ?thesis by (cases "examples_into (mt_examples h)") (simp add: media_type_read_def examples_round_trip [THEN iffD2])
qed

lemma status_parse_display:
  assumes "case p of Code c \<Rightarrow> 100 \<le> c \<and> c < 600 | _ \<Rightarrow> True"
  shows "status_parse (status_display p) = Some p"
proof (cases p)
  case (Code c)
  define h t u where d: "h = c div 100" "t = c div 10 mod 10" "u = c mod 10"
  have "c div 100 = c div 10 div 10" by (simp add: div_mult2_eq [of c 10 10, simplified])
  then have e: "h * 10 + t = c div 10" unfolding d by (metis div_mult_mod_eq)
  have c: "c = h * 100 + t * 10 + u" using e div_mult_mod_eq [of c 10] unfolding d by linarith
  have b: "1 \<le> h" "h \<le> 5" "t < 10" "u < 10" using assms unfolding Code d by auto
  have "10 \<le> c" using c b by linarith
  then have "decimal c = decimal (h * 10 + t) @ [digit u]" using decimal_ge [of c] e d(3) by simp
  moreover have "decimal (h * 10 + t) = [digit h, digit t]" using decimal_ge [of "h * 10 + t"] decimal_lt [of h] b by simp
  ultimately have "decimal c = [digit h, digit t, digit u]" by simp
  moreover have "digit u \<noteq> CHR ''X''" using b byte_digit [of u] by (auto simp: byte_inject [symmetric])
  moreover have "is_ascii_digit (digit x) \<and> digit_val (digit x) = x" if "x < 10" for x
    using byte_digit [OF that] that by (simp add: is_ascii_digit_def digit_val_def)
  ultimately show ?thesis using c b by (simp add: Code status_parse_def)
qed (simp_all add: status_parse_def)

lemma component_name_exact: "component_name_sanitized name = Some out \<Longrightarrow> is_component_name out"
  by (auto simp: component_name_sanitized_def component_name_new_def Let_def split: if_splits)

end
