(* ===== verification/Openapi_Walk.thy ===== *)
theory Openapi_Walk
  imports Openapi_Model
begin

text \<open>
  The walk over the path items, operations and callbacks of a document (\<open>src/crates/kynos-openapi/src/visit.rs\<close>) and the
  search for what stands in the way of emitting it as OpenAPI 3.1 (\<open>emit/downgrade.rs\<close>, \<open>emit/downgrade/walk.rs\<close>,
  \<open>emit/downgrade/unrecognised.rs\<close>). A visitor is told each place in turn; the walk is the list of what it is told,
  under a parameter that says which path items it enters. What the code pushes onto a vector is the list a function
  returns.
\<close>

section \<open>Visiting\<close>

datatype place =
    At_path_item "token list" path_item "string option"
  | At_operation "token list" path_item operation
  | At_operation_walked "token list" operation
  | At_callback "token list" callback
  | At_callback_entry "token list" string
  | At_reference "token list" string

type_synonym enters = "token list \<Rightarrow> path_item \<Rightarrow> string option \<Rightarrow> bool"

definition key_at :: "token list \<Rightarrow> string \<Rightarrow> token list" where "key_at at k = at @ [Key_token k]"
definition index_at :: "token list \<Rightarrow> nat \<Rightarrow> token list" where "index_at at i = at @ [Index_token i]"

lemma size_path_operation: "(m, p) \<in> set (path_operations x) \<Longrightarrow> size p < size x"
  by (cases x; cases m) (auto simp: path_operations_def all_methods_def split: option.splits)

lemma size_additional: "(name, p) \<in> set (pi_additional x) \<Longrightarrow> size p < size x"
  by (cases x) (auto dest: size_entry [of _ _ _ size])

lemma size_callback: "(name, Item c) \<in> set (op_callbacks p) \<Longrightarrow> size c < size p"
  by (cases p) (auto dest: size_item_entry [of _ _ _ size])

lemma size_callback_item: "(expression, Item x) \<in> set (cb_items c) \<Longrightarrow> size x < size c"
  by (cases c) (auto dest: size_item_entry [of _ _ _ size])

function walk_path_item :: "enters \<Rightarrow> token list \<Rightarrow> path_item \<Rightarrow> string option \<Rightarrow> place list"
and walk_operation :: "enters \<Rightarrow> token list \<Rightarrow> path_item \<Rightarrow> operation \<Rightarrow> place list"
and visit_callback :: "enters \<Rightarrow> token list \<Rightarrow> callback \<Rightarrow> place list" where
  "walk_path_item enter at x path = At_path_item at x path #
     (if \<not> enter at x path then []
      else concat (map (\<lambda>(m, p). walk_operation enter (key_at at (field_name m)) x p) (path_operations x)) @
           concat (map (\<lambda>(m, p). walk_operation enter (key_at (key_at at ''additionalOperations'') m) x p) (pi_additional x)))"
| "walk_operation enter at x p = At_operation at x p #
     concat (map (\<lambda>(name, entry).
       case entry of
         Item c \<Rightarrow> visit_callback enter (key_at (key_at at ''callbacks'') name) c
       | Ref r \<Rightarrow> [At_reference (key_at (key_at at ''callbacks'') name) (ref_location r)]) (op_callbacks p)) @
     [At_operation_walked at p]"
| "visit_callback enter at c = At_callback at c #
     concat (map (\<lambda>(expression, entry). At_callback_entry (key_at at expression) expression #
       (case entry of
          Item x \<Rightarrow> walk_path_item enter (key_at at expression) x None
        | Ref r \<Rightarrow> [At_reference (key_at at expression) (ref_location r)])) (cb_items c))"
  by pat_completeness auto
termination
  by (relation "measure (case_sum (\<lambda>(_, _, x, _). size x) (case_sum (\<lambda>(_, _, _, p). size p) (\<lambda>(_, _, c). size c)))")
     (auto simp: size_path_operation size_additional size_callback size_callback_item)

declare walk_path_item.simps [simp del] walk_operation.simps [simp del] visit_callback.simps [simp del]

definition visit_path_item :: "enters \<Rightarrow> token list \<Rightarrow> path_item \<Rightarrow> place list" where
  "visit_path_item enter at x = walk_path_item enter at x None"

definition callback_or_reference :: "enters \<Rightarrow> token list \<Rightarrow> callback ref_or \<Rightarrow> place list" where
  "callback_or_reference enter at entry =
     (case entry of Item c \<Rightarrow> visit_callback enter at c | Ref r \<Rightarrow> [At_reference at (ref_location r)])"

definition visit_routes :: "enters \<Rightarrow> document \<Rightarrow> place list" where
  "visit_routes enter d =
     concat (map (\<lambda>(path, x). walk_path_item enter (key_at [Root_token, Key_token ''paths''] path) x (Some path))
       (paths_items (doc_paths d))) @
     concat (map (\<lambda>(name, x). visit_path_item enter (key_at [Root_token, Key_token ''webhooks''] name) x) (doc_webhooks d))"

definition visit_document :: "enters \<Rightarrow> document \<Rightarrow> place list" where
  "visit_document enter d =
     visit_routes enter d @
     (let components = [Root_token, Key_token ''components'']
      in concat (map (\<lambda>(name, x). visit_path_item enter (key_at (key_at components ''pathItems'') name) x)
           (co_path_items (doc_components d))) @
         concat (map (\<lambda>(name, entry). callback_or_reference enter (key_at (key_at components ''callbacks'') name) entry)
           (co_callbacks (doc_components d))))"

definition inline_items :: "token list \<Rightarrow> 'a ref_or entries \<Rightarrow> (token list \<Rightarrow> 'a \<Rightarrow> 'r list) \<Rightarrow> 'r list" where
  "inline_items at entries' visit =
     concat (map (\<lambda>(name, entry). case entry of Item x \<Rightarrow> visit (key_at at name) x | Ref _ \<Rightarrow> []) entries')"

lemma inline_items_cong [fundef_cong]:
  "at = at' \<Longrightarrow> ms = ms' \<Longrightarrow> (\<And>name x. (name, Item x) \<in> set ms' \<Longrightarrow> visit (key_at at' name) x = visit' (key_at at' name) x) \<Longrightarrow>
   inline_items at ms visit = inline_items at' ms' visit'"
  unfolding inline_items_def by (auto intro!: arg_cong [of _ _ concat] split: ref_or.split)

section \<open>3.2-only fields\<close>

definition present_fields :: "token list \<Rightarrow> (string \<times> bool) list \<Rightarrow> string list" where
  "present_fields at fields' = concat (map (\<lambda>(field, present). if present then [at_pointer (key_at at field)] else []) fields')"

definition oauth_flow_blockers :: "token list \<Rightarrow> oauth_flows \<Rightarrow> string list" where
  "oauth_flow_blockers at fs =
     (if device_authorization_flow fs \<noteq> None then [at_pointer (key_at at ''deviceAuthorization'')] else []) @
     concat (map (\<lambda>(name, flow).
       case flow of
         None \<Rightarrow> []
       | Some f \<Rightarrow> if fl_device_url f \<noteq> None then [at_pointer (key_at (key_at at name) ''deviceAuthorizationUrl'')] else [])
       [(''implicit'', implicit_flow fs), (''password'', password_flow fs),
        (''clientCredentials'', client_credentials_flow fs), (''authorizationCode'', authorization_code_flow fs),
        (''deviceAuthorization'', device_authorization_flow fs)])"

definition security_scheme_blockers :: "token list \<Rightarrow> security_scheme \<Rightarrow> string list" where
  "security_scheme_blockers at s =
     (case scheme_kind s of
        OAuth2 flows url \<Rightarrow>
          (if url \<noteq> None then [at_pointer (key_at at ''oauth2MetadataUrl'')] else []) @
          oauth_flow_blockers (key_at at ''flows'') flows
      | _ \<Rightarrow> []) @
     (if sh_deprecated (scheme_head s) \<noteq> None then [at_pointer (key_at at ''deprecated'')] else [])"

definition server_blockers :: "token list \<Rightarrow> server \<Rightarrow> string list" where
  "server_blockers at s = (if server_name s \<noteq> None then [at_pointer (key_at at ''name'')] else [])"

definition servers_blockers :: "token list \<Rightarrow> server list \<Rightarrow> string list" where
  "servers_blockers at ss =
     concat (map (\<lambda>(i, s). server_blockers (index_at (key_at at ''servers'') i) s) (enumerate 0 ss))"

definition link_blockers :: "token list \<Rightarrow> link \<Rightarrow> string list" where
  "link_blockers at l = (case link_server l of None \<Rightarrow> [] | Some s \<Rightarrow> server_blockers (key_at at ''server'') s)"

fun example_value_carries :: "example_value option \<Rightarrow> bool \<times> bool" where
  "example_value_carries (Some (External _ data)) = (data \<noteq> None, False)"
| "example_value_carries (Some (Data _ serialized)) = (True, serialized \<noteq> None)"
| "example_value_carries (Some (Serialized _)) = (False, True)"
| "example_value_carries (Some (Embedded _)) = (False, False)"
| "example_value_carries None = (False, False)"

definition example_blockers :: "token list \<Rightarrow> example \<Rightarrow> string list" where
  "example_blockers at x =
     (let (data, serialized) = example_value_carries (ex_value x)
      in present_fields at [(''dataValue'', data), (''serializedValue'', serialized)])"

definition named_example_blockers :: "token list \<Rightarrow> example ref_or entries option \<Rightarrow> string list" where
  "named_example_blockers at named =
     (case named of None \<Rightarrow> [] | Some ms \<Rightarrow> inline_items (key_at at ''examples'') ms example_blockers)"

function media_type_blockers :: "token list \<Rightarrow> media_type \<Rightarrow> string list"
and encoding_blockers :: "token list \<Rightarrow> encoding \<Rightarrow> string list"
and header_blockers :: "token list \<Rightarrow> header \<Rightarrow> string list"
and content_entry_blockers :: "token list \<Rightarrow> media_type ref_or \<Rightarrow> string list" where
  "media_type_blockers at (Media_type h encodings prefix' item') =
     present_fields at [(''itemSchema'', mt_item_schema h \<noteq> None), (''prefixEncoding'', prefix' \<noteq> None),
       (''itemEncoding'', item' \<noteq> None)] @
     concat (map (\<lambda>(property, e). encoding_blockers (key_at (key_at at ''encoding'') property) e) encodings) @
     named_example_blockers at (Option.bind (mt_examples h) as_named) @
     (case mt_schema h of None \<Rightarrow> [] | Some s \<Rightarrow> collect_schema_blockers (key_at at ''schema'') s)"
| "encoding_blockers at (Encoding h headers' encodings prefix' item') =
     present_fields at [(''encoding'', encodings \<noteq> []), (''prefixEncoding'', prefix' \<noteq> None), (''itemEncoding'', item' \<noteq> None)] @
     inline_items (key_at at ''headers'') headers' (\<lambda>at x. header_blockers at x)"
| "header_blockers at (Header h shape') =
     (case shape' of
        Header_content mime v \<Rightarrow> content_entry_blockers (key_at (key_at at ''content'') mime) v
      | Header_schema s _ _ \<Rightarrow> collect_schema_blockers (key_at at ''schema'') s) @
     named_example_blockers at (Option.bind (hd_examples h) as_named)"
| "content_entry_blockers at (Item m) = media_type_blockers at m"
| "content_entry_blockers at (Ref _) = []"
  by pat_completeness auto
termination
  by (relation "measure (case_sum (case_sum (\<lambda>(_, m). size m) (\<lambda>(_, e). size e))
       (case_sum (\<lambda>(_, h). size h) (\<lambda>(_, entry). size_ref_or size entry)))")
     (auto simp: termination_simp)

definition content_blockers :: "token list \<Rightarrow> media_type ref_or entries \<Rightarrow> string list" where
  "content_blockers at content =
     concat (map (\<lambda>(mime, entry). content_entry_blockers (key_at (key_at at ''content'') mime) entry) content)"

definition parameter_blockers :: "token list \<Rightarrow> parameter \<Rightarrow> string list" where
  "parameter_blockers at p =
     (if pm_location p = In_querystring then [at_pointer at] else []) @
     (if pm_style p = Some Cookie_style then [at_pointer (key_at at ''style'')] else []) @
     (case pm_content p of None \<Rightarrow> []
      | Some (mime, v) \<Rightarrow> content_entry_blockers (key_at (key_at at ''content'') mime) v) @
     (case pm_schema p of None \<Rightarrow> [] | Some s \<Rightarrow> collect_schema_blockers (key_at at ''schema'') s) @
     named_example_blockers at (pm_named_examples p)"

definition parameters_blockers :: "token list \<Rightarrow> parameter ref_or list \<Rightarrow> string list" where
  "parameters_blockers at ps =
     concat (map (\<lambda>(i, entry). case entry of Item p \<Rightarrow> parameter_blockers (index_at (key_at at ''parameters'') i) p | Ref _ \<Rightarrow> [])
       (enumerate 0 ps))"

definition response_blockers :: "token list \<Rightarrow> response \<Rightarrow> string list" where
  "response_blockers at r =
     (if rs_summary r \<noteq> None then [at_pointer (key_at at ''summary'')] else []) @
     content_blockers at (rs_content r) @
     inline_items (key_at at ''headers'') (rs_headers r) header_blockers @
     inline_items (key_at at ''links'') (rs_links r) link_blockers"

definition responses_blockers :: "token list \<Rightarrow> responses \<Rightarrow> string list" where
  "responses_blockers at rs =
     (let default' = Option.bind (default_response rs) as_item
      in concat (map (\<lambda>(st, r). response_blockers (key_at at st) r)
           (drop (if default' \<noteq> None then 1 else 0) (responses_entries rs))) @
         (case default' of None \<Rightarrow> [] | Some r \<Rightarrow> response_blockers (key_at at ''default'') r))"

fun place_blockers :: "place \<Rightarrow> string list" where
  "place_blockers (At_path_item at x _) =
     (if pi_query x \<noteq> None then [at_pointer (key_at at ''query'')] else []) @
     (if pi_additional x \<noteq> [] then [at_pointer (key_at at ''additionalOperations'')] else []) @
     parameters_blockers at (pi_parameters (pi_head x)) @ servers_blockers at (pi_servers (pi_head x))"
| "place_blockers (At_operation at _ p) =
     parameters_blockers at (op_parameters (op_head p)) @
     (case op_request_body (op_head p) of
        Some (Item b) \<Rightarrow> content_blockers (key_at at ''requestBody'') (rb_content b)
      | _ \<Rightarrow> []) @
     responses_blockers (key_at at ''responses'') (op_responses (op_head p)) @
     servers_blockers at (op_servers (op_head p))"
| "place_blockers _ = []"

definition places_blockers :: "place list \<Rightarrow> string list" where
  "places_blockers ps = concat (map place_blockers ps)"

definition enter_all :: enters where "enter_all at x path = True"

definition components_blockers :: "token list \<Rightarrow> components \<Rightarrow> string list" where
  "components_blockers at c =
     (if co_media_types c \<noteq> [] then [at_pointer (key_at at ''mediaTypes'')] else []) @
     inline_items (key_at at ''securitySchemes'') (co_security_schemes c) security_scheme_blockers @
     concat (map (\<lambda>(name, s). collect_schema_blockers (key_at (key_at at ''schemas'') name) s) (co_schemas c)) @
     inline_items (key_at at ''responses'') (co_responses c) response_blockers @
     inline_items (key_at at ''parameters'') (co_parameters c) parameter_blockers @
     inline_items (key_at at ''headers'') (co_headers c) header_blockers @
     named_example_blockers at (Some (co_examples c)) @
     inline_items (key_at at ''requestBodies'') (co_request_bodies c) (\<lambda>at b. content_blockers at (rb_content b)) @
     concat (map (\<lambda>(name, x). places_blockers (visit_path_item enter_all (key_at (key_at at ''pathItems'') name) x)) (co_path_items c)) @
     inline_items (key_at at ''callbacks'') (co_callbacks c) (\<lambda>at cb. places_blockers (visit_callback enter_all at cb)) @
     inline_items (key_at at ''links'') (co_links c) link_blockers"

definition three_two_fields :: "document \<Rightarrow> string list" where
  "three_two_fields d =
     (if doc_self_uri d \<noteq> None then [at_pointer (key_at [Root_token] ''$self'')] else []) @
     servers_blockers [Root_token] (doc_servers d) @
     concat (map (\<lambda>(i, t). present_fields (index_at (key_at [Root_token] ''tags'') i)
         [(''summary'', tag_summary t \<noteq> None), (''parent'', tag_parent t \<noteq> None), (''kind'', tag_kind t \<noteq> None)])
       (enumerate 0 (doc_tags d))) @
     components_blockers (key_at [Root_token] ''components'') (doc_components d) @
     places_blockers (visit_routes enter_all d)"

end
