(* ===== verification/Openapi_Unrecognised.thy ===== *)
theory Openapi_Unrecognised
  imports Openapi_Walk
begin

text \<open>
  What stands in the way of OpenAPI 3.1 in every build (\<open>src/crates/kynos-openapi/src/emit/downgrade/unrecognised.rs\<close>):
  fields no object recognises, and what 3.2 relaxed; the obstacles as they are reported (\<open>emit/downgrade.rs\<close>) and
  the emission at a version (\<open>emit/mod.rs\<close>). The
  five vectors the walk fills are five kinds of one list, each vector its sublist.
\<close>

datatype finding =
    Unrecognised string string
  | Reserved string string
  | Undescribed string
  | Scheme_uri string
  | Media_type_ref string

fun field_pointer :: "string \<Rightarrow> string \<Rightarrow> string" where
  "field_pointer holder name = holder @ ''/'' @ pointer_token name"

definition check_extensions :: "token list \<Rightarrow> extensions \<Rightarrow> finding list" where
  "check_extensions at es =
     concat (map (\<lambda>(key, _).
       if \<not> starts_with EXTENSION_PREFIX key then [Unrecognised (at_pointer at) key]
       else if \<not> is_valid_extension key then [Reserved (at_pointer at) key]
       else []) es)"

definition names_a_scheme_by_uri :: "string \<Rightarrow> bool" where
  "names_a_scheme_by_uri name \<longleftrightarrow> CHR ''/'' \<in> set name \<or> CHR '':'' \<in> set name \<or> CHR ''#'' \<in> set name"

definition security_fields :: "string list \<Rightarrow> token list \<Rightarrow> security_requirement list \<Rightarrow> finding list" where
  "security_fields schemes at rs =
     concat (map (\<lambda>(i, r). concat (map (\<lambda>(name, _).
       if name \<notin> set schemes \<and> names_a_scheme_by_uri name then [Scheme_uri (at_pointer (key_at (index_at at i) name))] else []) r))
       (enumerate 0 rs))"

definition info_fields :: "token list \<Rightarrow> info \<Rightarrow> finding list" where
  "info_fields at i =
     check_extensions at (info_extensions i) @
     (case info_contact i of None \<Rightarrow> [] | Some c \<Rightarrow> check_extensions (key_at at ''contact'') (contact_extensions c)) @
     (case info_license i of None \<Rightarrow> [] | Some l \<Rightarrow> check_extensions (key_at at ''license'') (license_extensions l))"

definition server_fields :: "token list \<Rightarrow> server \<Rightarrow> finding list" where
  "server_fields at s =
     check_extensions at (server_extensions s) @
     concat (map (\<lambda>(name, v). check_extensions (key_at (key_at at ''variables'') name) (sv_extensions v)) (server_variables s))"

definition servers_fields :: "token list \<Rightarrow> server list \<Rightarrow> finding list" where
  "servers_fields at ss = concat (map (\<lambda>(i, s). server_fields (index_at at i) s) (enumerate 0 ss))"

definition external_docs_fields :: "token list \<Rightarrow> external_documentation \<Rightarrow> finding list" where
  "external_docs_fields at d = check_extensions at (docs_extensions d)"

definition tag_fields :: "token list \<Rightarrow> tag \<Rightarrow> finding list" where
  "tag_fields at t =
     check_extensions at (tag_extensions t) @
     (case tag_external_docs t of None \<Rightarrow> [] | Some d \<Rightarrow> external_docs_fields (key_at at ''externalDocs'') d)"

definition reserved_keywords :: "token list \<Rightarrow> (string \<times> json) list \<Rightarrow> finding list" where
  "reserved_keywords at ks =
     concat (map (\<lambda>(key, _).
       if starts_with EXTENSION_PREFIX key \<and> \<not> is_valid_extension key then [Reserved (at_pointer at) key] else []) ks)"

function schema_fields :: "token list \<Rightarrow> schema \<Rightarrow> finding list" where
  "schema_fields at s =
     (case s of
        Schema_bool _ \<Rightarrow> []
      | _ \<Rightarrow>
          reserved_keywords at (unknown_keywords (plain s)) @
          (case sc_discriminator (plain s) of None \<Rightarrow> []
           | Some d \<Rightarrow> check_extensions (key_at at ''discriminator'') (discriminator_extensions d)) @
          (case sc_xml (plain s) of None \<Rightarrow> [] | Some x \<Rightarrow> check_extensions (key_at at ''xml'') (xml_extensions x)) @
          (case sc_external_docs (plain s) of None \<Rightarrow> [] | Some d \<Rightarrow> external_docs_fields (key_at at ''externalDocs'') d) @
          concat (map (\<lambda>(at, x). schema_fields at x) (subschemas at s)))"
  by pat_completeness auto
termination
proof (relation "measure (\<lambda>(_, s). size s)", goal_cases)
  case (2 at s)
  then show ?case using size_subschema by fastforce
qed simp

declare schema_fields.simps [simp del]

definition example_fields :: "token list \<Rightarrow> example \<Rightarrow> finding list" where
  "example_fields at x = check_extensions at (ex_extensions x)"

definition examples_fields :: "token list \<Rightarrow> examples option \<Rightarrow> finding list" where
  "examples_fields at held =
     (case held of Some (Named ms) \<Rightarrow> inline_items (key_at at ''examples'') ms example_fields | _ \<Rightarrow> [])"

definition link_fields :: "token list \<Rightarrow> link \<Rightarrow> finding list" where
  "link_fields at l =
     check_extensions at (link_extensions l) @
     (case link_server l of None \<Rightarrow> [] | Some s \<Rightarrow> server_fields (key_at at ''server'') s)"

lemma size_enumerated: "(i, x) \<in> set (enumerate n xs) \<Longrightarrow> size x \<le> size_list size xs"
  using set_enumerate_snd size_list_less by metis

function media_type_fields :: "token list \<Rightarrow> media_type \<Rightarrow> finding list"
and encoding_fields :: "token list \<Rightarrow> encoding \<Rightarrow> finding list"
and header_fields :: "token list \<Rightarrow> header \<Rightarrow> finding list"
and content_entry_fields :: "token list \<Rightarrow> media_type ref_or \<Rightarrow> finding list" where
  "media_type_fields at (Media_type h encodings prefix' item') =
     check_extensions at (mt_extensions h) @
     (case mt_schema h of None \<Rightarrow> [] | Some s \<Rightarrow> schema_fields (key_at at ''schema'') s) @
     examples_fields at (mt_examples h) @
     concat (map (\<lambda>(property, e). encoding_fields (key_at (key_at at ''encoding'') property) e) encodings) @
     (case mt_item_schema h of None \<Rightarrow> [] | Some s \<Rightarrow> schema_fields (key_at at ''itemSchema'') s) @
     (case prefix' of None \<Rightarrow> []
      | Some es \<Rightarrow> concat (map (\<lambda>(i, e). encoding_fields (index_at (key_at at ''prefixEncoding'') i) e) (enumerate 0 es))) @
     (case item' of None \<Rightarrow> [] | Some e \<Rightarrow> encoding_fields (key_at at ''itemEncoding'') e)"
| "encoding_fields at (Encoding h headers' encodings prefix' item') =
     check_extensions at (en_extensions h) @
     inline_items (key_at at ''headers'') headers' (\<lambda>at x. header_fields at x) @
     concat (map (\<lambda>(property, e). encoding_fields (key_at (key_at at ''encoding'') property) e) encodings) @
     (case prefix' of None \<Rightarrow> []
      | Some es \<Rightarrow> concat (map (\<lambda>(i, e). encoding_fields (index_at (key_at at ''prefixEncoding'') i) e) (enumerate 0 es))) @
     (case item' of None \<Rightarrow> [] | Some e \<Rightarrow> encoding_fields (key_at at ''itemEncoding'') e)"
| "header_fields at (Header h shape') =
     check_extensions at (hd_extensions h) @
     (case shape' of
        Header_schema s _ _ \<Rightarrow> schema_fields (key_at at ''schema'') s
      | Header_content mime v \<Rightarrow> content_entry_fields (key_at (key_at at ''content'') mime) v) @
     examples_fields at (hd_examples h)"
| "content_entry_fields at (Item m) = media_type_fields at m"
| "content_entry_fields at (Ref _) = [Media_type_ref (at_pointer at)]"
  by pat_completeness auto
termination
  by (relation "measure (case_sum (case_sum (\<lambda>(_, m). size m) (\<lambda>(_, e). size e))
       (case_sum (\<lambda>(_, h). size h) (\<lambda>(_, entry). size_ref_or size entry)))")
     (auto simp: termination_simp dest!: size_enumerated)

definition content_fields :: "token list \<Rightarrow> media_type ref_or entries \<Rightarrow> finding list" where
  "content_fields at content = concat (map (\<lambda>(mime, entry). content_entry_fields (key_at at mime) entry) content)"

definition parameter_fields :: "token list \<Rightarrow> parameter \<Rightarrow> finding list" where
  "parameter_fields at p =
     check_extensions at (pm_extensions p) @
     (case pm_schema p of None \<Rightarrow> [] | Some s \<Rightarrow> schema_fields (key_at at ''schema'') s) @
     (case pm_content p of None \<Rightarrow> []
      | Some (mime, v) \<Rightarrow> content_entry_fields (key_at (key_at at ''content'') mime) v) @
     examples_fields at (pm_examples p)"

definition parameters_fields :: "token list \<Rightarrow> parameter ref_or list \<Rightarrow> finding list" where
  "parameters_fields at ps =
     concat (map (\<lambda>(i, entry). case as_item entry of Some p \<Rightarrow> parameter_fields (index_at at i) p | None \<Rightarrow> []) (enumerate 0 ps))"

definition request_body_fields :: "token list \<Rightarrow> request_body \<Rightarrow> finding list" where
  "request_body_fields at b =
     check_extensions at (rb_extensions b) @ content_fields (key_at at ''content'') (rb_content b)"

definition response_fields :: "token list \<Rightarrow> response \<Rightarrow> finding list" where
  "response_fields at r =
     (if rs_description r = None then [Undescribed (at_pointer at)] else []) @
     check_extensions at (rs_extensions r) @
     inline_items (key_at at ''headers'') (rs_headers r) header_fields @
     content_fields (key_at at ''content'') (rs_content r) @
     inline_items (key_at at ''links'') (rs_links r) link_fields"

definition responses_fields :: "token list \<Rightarrow> responses \<Rightarrow> finding list" where
  "responses_fields at rs =
     check_extensions at (responses_extensions rs) @
     concat (map (\<lambda>(key, r). response_fields (key_at at key) r) (responses_entries rs))"

definition oauth_flows_fields :: "token list \<Rightarrow> oauth_flows \<Rightarrow> finding list" where
  "oauth_flows_fields at fs =
     check_extensions at (flows_extensions fs) @
     concat (map (\<lambda>(name, flow). case flow of None \<Rightarrow> [] | Some f \<Rightarrow> check_extensions (key_at at name) (fl_extensions f))
       [(''implicit'', implicit_flow fs), (''password'', password_flow fs),
        (''clientCredentials'', client_credentials_flow fs), (''authorizationCode'', authorization_code_flow fs),
        (''deviceAuthorization'', device_authorization_flow fs)])"

definition security_scheme_fields :: "token list \<Rightarrow> security_scheme \<Rightarrow> finding list" where
  "security_scheme_fields at s =
     check_extensions at (sh_extensions (scheme_head s)) @
     (case scheme_kind s of OAuth2 flows _ \<Rightarrow> oauth_flows_fields (key_at at ''flows'') flows | _ \<Rightarrow> [])"

fun place_fields :: "string list \<Rightarrow> place \<Rightarrow> finding list" where
  "place_fields schemes (At_path_item at x _) =
     check_extensions at (pi_extensions (pi_head x)) @
     servers_fields (key_at at ''servers'') (pi_servers (pi_head x)) @
     parameters_fields (key_at at ''parameters'') (pi_parameters (pi_head x))"
| "place_fields schemes (At_operation at _ p) =
     check_extensions at (op_extensions (op_head p)) @
     (case op_security (op_head p) of None \<Rightarrow> [] | Some rs \<Rightarrow> security_fields schemes (key_at at ''security'') rs) @
     (case op_external_docs (op_head p) of None \<Rightarrow> [] | Some d \<Rightarrow> external_docs_fields (key_at at ''externalDocs'') d) @
     parameters_fields (key_at at ''parameters'') (op_parameters (op_head p)) @
     (case Option.bind (op_request_body (op_head p)) as_item of None \<Rightarrow> []
      | Some b \<Rightarrow> request_body_fields (key_at at ''requestBody'') b) @
     responses_fields (key_at at ''responses'') (op_responses (op_head p))"
| "place_fields schemes (At_operation_walked at p) = servers_fields (key_at at ''servers'') (op_servers (op_head p))"
| "place_fields schemes (At_callback at c) = check_extensions at (cb_extensions c)"
| "place_fields schemes _ = []"

definition places_fields :: "string list \<Rightarrow> place list \<Rightarrow> finding list" where
  "places_fields schemes ps = concat (map (place_fields schemes) ps)"

definition components_fields :: "string list \<Rightarrow> token list \<Rightarrow> components \<Rightarrow> finding list" where
  "components_fields schemes at c =
     check_extensions at (co_extensions c) @
     concat (map (\<lambda>(name, s). schema_fields (key_at (key_at at ''schemas'') name) s) (co_schemas c)) @
     inline_items (key_at at ''responses'') (co_responses c) response_fields @
     inline_items (key_at at ''parameters'') (co_parameters c) parameter_fields @
     inline_items (key_at at ''examples'') (co_examples c) example_fields @
     inline_items (key_at at ''requestBodies'') (co_request_bodies c) request_body_fields @
     inline_items (key_at at ''headers'') (co_headers c) header_fields @
     inline_items (key_at at ''securitySchemes'') (co_security_schemes c) security_scheme_fields @
     inline_items (key_at at ''links'') (co_links c) link_fields @
     inline_items (key_at at ''callbacks'') (co_callbacks c) (\<lambda>at cb. places_fields schemes (visit_callback enter_all at cb)) @
     concat (map (\<lambda>(name, x). places_fields schemes (visit_path_item enter_all (key_at (key_at at ''pathItems'') name) x))
       (co_path_items c)) @
     inline_items (key_at at ''mediaTypes'') (co_media_types c) media_type_fields"

definition document_fields :: "document \<Rightarrow> finding list" where
  "document_fields d =
     (let schemes = map fst (co_security_schemes (doc_components d))
      in check_extensions [Root_token] (doc_extensions d) @
         security_fields schemes (key_at [Root_token] ''security'') (doc_security d) @
         info_fields (key_at [Root_token] ''info'') (doc_info d) @
         servers_fields (key_at [Root_token] ''servers'') (doc_servers d) @
         check_extensions (key_at [Root_token] ''paths'') (paths_extensions (doc_paths d)) @
         places_fields schemes (visit_routes enter_all d) @
         components_fields schemes (key_at [Root_token] ''components'') (doc_components d) @
         concat (map (\<lambda>(i, t). tag_fields (index_at (key_at [Root_token] ''tags'') i) t) (enumerate 0 (doc_tags d))) @
         (case doc_external_docs d of None \<Rightarrow> [] | Some x \<Rightarrow> external_docs_fields (key_at [Root_token] ''externalDocs'') x))"

section \<open>The obstacles reported\<close>

record found =
  found_fields :: "(string \<times> string) list"
  found_reserved :: "(string \<times> string) list"
  undescribed_responses :: "string list"
  scheme_uris :: "string list"
  media_type_refs :: "string list"

definition unrecognised_walk :: "document \<Rightarrow> found" where
  "unrecognised_walk d =
     (let fs = document_fields d in
      \<lparr>found_fields = filter_map (\<lambda>f. case f of Unrecognised h n \<Rightarrow> Some (h, n) | _ \<Rightarrow> None) fs,
       found_reserved = filter_map (\<lambda>f. case f of Reserved h n \<Rightarrow> Some (h, n) | _ \<Rightarrow> None) fs,
       undescribed_responses = filter_map (\<lambda>f. case f of Undescribed p \<Rightarrow> Some p | _ \<Rightarrow> None) fs,
       scheme_uris = filter_map (\<lambda>f. case f of Scheme_uri p \<Rightarrow> Some p | _ \<Rightarrow> None) fs,
       media_type_refs = filter_map (\<lambda>f. case f of Media_type_ref p \<Rightarrow> Some p | _ \<Rightarrow> None) fs\<rparr>)"

record three_one_obstacles =
  obstacle_fields :: "string list"
  obstacle_responses :: "string list"
  obstacle_scheme_uris :: "string list"

definition three_one_obstacles :: "document \<Rightarrow> three_one_obstacles" where
  "three_one_obstacles d =
     (let found = unrecognised_walk d in
      \<lparr>obstacle_fields = three_two_fields d @ map (\<lambda>(h, n). field_pointer h n) (found_fields found) @ media_type_refs found,
       obstacle_responses = undescribed_responses found, obstacle_scheme_uris = scheme_uris found\<rparr>)"

definition three_two_only_constructs :: "document \<Rightarrow> string list" where
  "three_two_only_constructs d =
     (let o' = three_one_obstacles d
      in obstacle_fields o' @ map (\<lambda>r. r @ ''/description'') (obstacle_responses o') @ obstacle_scheme_uris o')"

definition unrecognised_fields :: "document \<Rightarrow> string list" where
  "unrecognised_fields d = map (\<lambda>(h, n). field_pointer h n) (found_fields (unrecognised_walk d))"

datatype emit_error = Requires_3_2 "string list"

definition emit :: "document \<Rightarrow> spec_version \<Rightarrow> emit_error + document" where
  "emit d version =
     (if \<not> supports_3_2 version \<and> three_two_only_constructs d \<noteq> [] then Inl (Requires_3_2 (three_two_only_constructs d))
      else Inr (d\<lparr>doc_openapi := spec_version_str version\<rparr>))"

end
