(* ===== verification/Openapi_Json.thy ===== *)
theory Openapi_Json
  imports Openapi_Model
begin

text \<open>
  The JSON the objects of a document serialize as: the fields of a struct under the names serde gives them, absent
  where they are skipped, then its extensions, a later member replacing an earlier one of the same name.
\<close>

section \<open>Leaves\<close>

definition entries_json :: "('v \<Rightarrow> json) \<Rightarrow> 'v entries \<Rightarrow> json" where
  "entries_json f ms = json_object (map (\<lambda>(k, v). (k, f v)) ms)"

definition listed_member :: "string \<Rightarrow> ('v \<Rightarrow> json) \<Rightarrow> 'v list \<Rightarrow> (string \<times> json) list" where
  "listed_member name f vs = (if vs = [] then [] else [(name, JArray (map f vs))])"

definition array_member :: "string \<Rightarrow> ('v \<Rightarrow> json) \<Rightarrow> 'v list option \<Rightarrow> (string \<times> json) list" where
  "array_member name f vs = (case vs of None \<Rightarrow> [] | Some vs \<Rightarrow> [(name, JArray (map f vs))])"

definition reference_json :: "reference \<Rightarrow> json" where
  "reference_json r = json_object
     ([(''$ref'', JString (ref_location r))] @ member ''summary'' JString (ref_summary r) @
      member ''description'' JString (ref_description r))"

fun ref_or_json :: "('a \<Rightarrow> json) \<Rightarrow> 'a ref_or \<Rightarrow> json" where
  "ref_or_json f (Ref r) = reference_json r"
| "ref_or_json f (Item x) = f x"

lemma ref_or_json_cong [fundef_cong]:
  "r = r' \<Longrightarrow> (\<And>x. r' = Item x \<Longrightarrow> f x = f' x) \<Longrightarrow> ref_or_json f r = ref_or_json f' r'"
  by (cases r') auto

lemma entries_json_cong [fundef_cong]:
  "ms = ms' \<Longrightarrow> (\<And>k x. (k, x) \<in> set ms' \<Longrightarrow> f x = f' x) \<Longrightarrow> entries_json f ms = entries_json f' ms'"
  by (auto simp: entries_json_def intro!: arg_cong [of _ _ json_object])

definition example_json :: "example \<Rightarrow> json" where
  "example_json x =
     (let (v, data, serialized, uri) = example_value_written (ex_value x)
      in json_object (member ''summary'' JString (ex_summary x) @ member ''description'' JString (ex_description x) @
           member ''value'' (\<lambda>v. v) v @ member ''dataValue'' (\<lambda>v. v) data @ member ''serializedValue'' JString serialized @
           member ''externalValue'' JString uri @ ex_extensions x))"

definition examples_members :: "examples option \<Rightarrow> (string \<times> json) list" where
  "examples_members held =
     (let (v, named) = examples_into held
      in member ''example'' (\<lambda>v. v) v @ member ''examples'' (entries_json (ref_or_json example_json)) named)"

definition server_variable_json :: "server_variable \<Rightarrow> json" where
  "server_variable_json v = json_object
     (member ''enum'' json_strings (sv_enumeration v) @ [(''default'', JString (sv_default v))] @
      member ''description'' JString (sv_description v) @ sv_extensions v)"

definition server_json :: "server \<Rightarrow> json" where
  "server_json s = json_object
     ([(''url'', JString (server_url s))] @ member ''name'' JString (server_name s) @
      member ''description'' JString (server_description s) @
      keyed_member ''variables'' server_variable_json (server_variables s) @ server_extensions s)"

definition link_json :: "link \<Rightarrow> json" where
  "link_json l =
     (let (uri, i) = link_target_written (link_target l)
      in json_object (member ''operationRef'' JString uri @ member ''operationId'' JString i @
           keyed_member ''parameters'' (\<lambda>v. v) (link_parameters l) @ member ''requestBody'' (\<lambda>v. v) (link_request_body l) @
           member ''description'' JString (link_description l) @ member ''server'' server_json (link_server l) @
           link_extensions l))"

definition tag_json :: "tag \<Rightarrow> json" where
  "tag_json t = json_object
     ([(''name'', JString (tag_name t))] @ member ''summary'' JString (tag_summary t) @
      member ''description'' JString (tag_description t) @ member ''parent'' JString (tag_parent t) @
      member ''kind'' JString (tag_kind t) @ member ''externalDocs'' docs_json (tag_external_docs t) @ tag_extensions t)"

definition contact_json :: "contact \<Rightarrow> json" where
  "contact_json c = json_object
     (member ''name'' JString (contact_name c) @ member ''url'' JString (contact_url c) @
      member ''email'' JString (contact_email c) @ contact_extensions c)"

definition license_json :: "license \<Rightarrow> json" where
  "license_json l =
     (let (i, url) = license_link_written (license_link l)
      in json_object ([(''name'', JString (license_name l))] @ member ''identifier'' JString i @ member ''url'' JString url @
           license_extensions l))"

definition info_json :: "info \<Rightarrow> json" where
  "info_json i = json_object
     ([(''title'', JString (info_title i))] @ member ''summary'' JString (info_summary i) @
      member ''description'' JString (info_description i) @ member ''termsOfService'' JString (info_terms i) @
      member ''contact'' contact_json (info_contact i) @ member ''license'' license_json (info_license i) @
      [(''version'', JString (info_version i))] @ info_extensions i)"

definition oauth_flow_json :: "oauth_flow \<Rightarrow> json" where
  "oauth_flow_json f = json_object
     (member ''authorizationUrl'' JString (fl_authorization_url f) @ member ''tokenUrl'' JString (fl_token_url f) @
      member ''deviceAuthorizationUrl'' JString (fl_device_url f) @ member ''refreshUrl'' JString (fl_refresh_url f) @
      [(''scopes'', entries_json JString (fl_scopes f))] @ fl_extensions f)"

definition oauth_flows_json :: "oauth_flows \<Rightarrow> json" where
  "oauth_flows_json fs = json_object
     (member ''implicit'' oauth_flow_json (implicit_flow fs) @ member ''password'' oauth_flow_json (password_flow fs) @
      member ''clientCredentials'' oauth_flow_json (client_credentials_flow fs) @
      member ''authorizationCode'' oauth_flow_json (authorization_code_flow fs) @
      member ''deviceAuthorization'' oauth_flow_json (device_authorization_flow fs) @ flows_extensions fs)"

fun scheme_kind_members :: "scheme_kind \<Rightarrow> (string \<times> json) list" where
  "scheme_kind_members (Api_key name location) =
     [(''type'', JString ''apiKey''), (''name'', JString name), (''in'', JString (api_key_location_str location))]"
| "scheme_kind_members (Http_scheme scheme bearer_format) =
     [(''type'', JString ''http''), (''scheme'', JString scheme)] @ member ''bearerFormat'' JString bearer_format"
| "scheme_kind_members Mutual_tls = [(''type'', JString ''mutualTLS'')]"
| "scheme_kind_members (OAuth2 flows url) =
     [(''type'', JString ''oauth2''), (''flows'', oauth_flows_json flows)] @ member ''oauth2MetadataUrl'' JString url"
| "scheme_kind_members (Open_id_connect url) =
     [(''type'', JString ''openIdConnect''), (''openIdConnectUrl'', JString url)]"

definition security_scheme_json :: "security_scheme \<Rightarrow> json" where
  "security_scheme_json s = json_object
     (scheme_kind_members (scheme_kind s) @ member ''description'' JString (sh_description (scheme_head s)) @
      member ''deprecated'' JBool (sh_deprecated (scheme_head s)) @ sh_extensions (scheme_head s))"

definition requirement_json :: "security_requirement \<Rightarrow> json" where
  "requirement_json r = entries_json json_strings r"

section \<open>Media types, encodings, headers, parameters\<close>

fun encoding_style_str :: "encoding_style \<Rightarrow> string" where "encoding_style_str st = style_str (encoding_style_of st)"

fun media_type_json :: "media_type \<Rightarrow> json"
and encoding_json :: "encoding \<Rightarrow> json"
and header_json :: "header \<Rightarrow> json"
and header_shape_members :: "header_shape \<Rightarrow> (string \<times> json) list" where
  "media_type_json (Media_type h encodings prefix' item') = json_object
     (member ''schema'' schema_json (mt_schema h) @ member ''itemSchema'' schema_json (mt_item_schema h) @
      examples_members (mt_examples h) @
      (if encodings = [] then [] else [(''encoding'', entries_json encoding_json encodings)]) @
      (case prefix' of None \<Rightarrow> [] | Some es \<Rightarrow> [(''prefixEncoding'', JArray (map encoding_json es))]) @
      (case item' of None \<Rightarrow> [] | Some e \<Rightarrow> [(''itemEncoding'', encoding_json e)]) @ mt_extensions h)"
| "encoding_json (Encoding h headers' encodings prefix' item') = json_object
     (member ''contentType'' JString (en_content_type h) @
      (if headers' = [] then [] else [(''headers'', entries_json (ref_or_json header_json) headers')]) @
      member ''style'' (\<lambda>st. JString (encoding_style_str st)) (en_style h) @ member ''explode'' JBool (en_explode h) @
      member ''allowReserved'' JBool (en_allow_reserved h) @
      (if encodings = [] then [] else [(''encoding'', entries_json encoding_json encodings)]) @
      (case prefix' of None \<Rightarrow> [] | Some es \<Rightarrow> [(''prefixEncoding'', JArray (map encoding_json es))]) @
      (case item' of None \<Rightarrow> [] | Some e \<Rightarrow> [(''itemEncoding'', encoding_json e)]) @ en_extensions h)"
| "header_json (Header h shape') = json_object
     (member ''description'' JString (hd_description h) @ member ''required'' JBool (hd_required h) @
      member ''deprecated'' JBool (hd_deprecated h) @ header_shape_members shape' @ examples_members (hd_examples h) @
      hd_extensions h)"
| "header_shape_members (Header_schema s st explode) =
     member ''style'' (\<lambda>st. JString (style_str (header_style_of st))) st @ member ''explode'' JBool explode @
     [(''schema'', schema_json s)]"
| "header_shape_members (Header_content mime v) =
     [(''content'', json_object [(mime, ref_or_json media_type_json v)])]"

definition parameter_json :: "parameter \<Rightarrow> json" where
  "parameter_json p =
     (let w = parameter_written p in json_object
       ([(''name'', JString (raw_name w)), (''in'', JString (parameter_in_str (raw_location w)))] @
        member ''description'' JString (raw_description w) @ member ''required'' JBool (raw_required w) @
        member ''deprecated'' JBool (raw_deprecated w) @ member ''allowEmptyValue'' JBool (raw_allow_empty w) @
        member ''style'' (\<lambda>st. JString (style_str st)) (raw_style w) @ member ''explode'' JBool (raw_explode w) @
        member ''allowReserved'' JBool (raw_allow_reserved w) @ member ''schema'' schema_json (raw_schema w) @
        examples_members (pm_examples p) @
        keyed_member ''content'' (ref_or_json media_type_json) (raw_content w) @ raw_extensions w))"

section \<open>Bodies, responses, operations\<close>

definition request_body_json_value :: "request_body \<Rightarrow> json" where
  "request_body_json_value b = json_object
     (member ''description'' JString (rb_description b) @
      [(''content'', entries_json (ref_or_json media_type_json) (rb_content b))] @
      member ''required'' JBool (rb_required b) @ rb_extensions b)"

definition response_json :: "response \<Rightarrow> json" where
  "response_json r = json_object
     (member ''summary'' JString (rs_summary r) @ member ''description'' JString (rs_description r) @
      keyed_member ''headers'' (ref_or_json header_json) (rs_headers r) @
      keyed_member ''content'' (ref_or_json media_type_json) (rs_content r) @
      keyed_member ''links'' (ref_or_json link_json) (rs_links r) @ rs_extensions r)"

definition responses_json :: "responses \<Rightarrow> json" where
  "responses_json rs = json_object
     (member ''default'' (ref_or_json response_json) (default_response rs) @
      map (\<lambda>(key, r). (key, ref_or_json response_json r)) (keyed_responses rs) @ responses_extensions rs)"

definition operation_head_members :: "operation_head \<Rightarrow> (string \<times> json) list" where
  "operation_head_members h =
     listed_member ''tags'' JString (op_tags h) @ member ''summary'' JString (op_summary h) @
     member ''description'' JString (op_description h) @ member ''externalDocs'' docs_json (op_external_docs h) @
     member ''operationId'' JString (op_id h) @ listed_member ''parameters'' (ref_or_json parameter_json) (op_parameters h) @
     member ''requestBody'' (ref_or_json request_body_json_value) (op_request_body h) @
     (if responses_empty (op_responses h) then [] else [(''responses'', responses_json (op_responses h))]) @
     member ''deprecated'' JBool (op_deprecated h) @ array_member ''security'' requirement_json (op_security h) @
     listed_member ''servers'' server_json (op_servers h)"

definition path_item_head_members :: "path_item_head \<Rightarrow> (string \<times> json) list" where
  "path_item_head_members h =
     member ''$ref'' JString (pi_reference h) @ member ''summary'' JString (pi_summary h) @
     member ''description'' JString (pi_description h) @ listed_member ''servers'' server_json (pi_servers h) @
     listed_member ''parameters'' (ref_or_json parameter_json) (pi_parameters h)"

fun operation_json :: "operation \<Rightarrow> json"
and callback_json :: "callback \<Rightarrow> json"
and path_item_json :: "path_item \<Rightarrow> json" where
  "operation_json (Operation h callbacks) = json_object
     (operation_head_members h @
      (if callbacks = [] then [] else [(''callbacks'', entries_json (ref_or_json callback_json) callbacks)]) @ op_extensions h)"
| "callback_json (Callback entries' exts) = json_object
     (map (\<lambda>(k, x). (k, ref_or_json path_item_json x)) entries' @ exts)"
| "path_item_json (Path_item h g p o' d s e a t q more') = json_object
     (path_item_head_members h @
      (case g of None \<Rightarrow> [] | Some x \<Rightarrow> [(''get'', operation_json x)]) @
      (case p of None \<Rightarrow> [] | Some x \<Rightarrow> [(''put'', operation_json x)]) @
      (case o' of None \<Rightarrow> [] | Some x \<Rightarrow> [(''post'', operation_json x)]) @
      (case d of None \<Rightarrow> [] | Some x \<Rightarrow> [(''delete'', operation_json x)]) @
      (case s of None \<Rightarrow> [] | Some x \<Rightarrow> [(''options'', operation_json x)]) @
      (case e of None \<Rightarrow> [] | Some x \<Rightarrow> [(''head'', operation_json x)]) @
      (case a of None \<Rightarrow> [] | Some x \<Rightarrow> [(''patch'', operation_json x)]) @
      (case t of None \<Rightarrow> [] | Some x \<Rightarrow> [(''trace'', operation_json x)]) @
      (case q of None \<Rightarrow> [] | Some x \<Rightarrow> [(''query'', operation_json x)]) @
      (if more' = [] then [] else [(''additionalOperations'', entries_json operation_json more')]) @ pi_extensions h)"

section \<open>The document\<close>

definition paths_json :: "paths \<Rightarrow> json" where
  "paths_json ps = json_object (map (\<lambda>(k, x). (k, path_item_json x)) (paths_items ps) @ paths_extensions ps)"

definition components_json :: "components \<Rightarrow> json" where
  "components_json c = json_object
     (keyed_member ''schemas'' schema_json (co_schemas c) @
      keyed_member ''responses'' (ref_or_json response_json) (co_responses c) @
      keyed_member ''parameters'' (ref_or_json parameter_json) (co_parameters c) @
      keyed_member ''examples'' (ref_or_json example_json) (co_examples c) @
      keyed_member ''requestBodies'' (ref_or_json request_body_json_value) (co_request_bodies c) @
      keyed_member ''headers'' (ref_or_json header_json) (co_headers c) @
      keyed_member ''securitySchemes'' (ref_or_json security_scheme_json) (co_security_schemes c) @
      keyed_member ''links'' (ref_or_json link_json) (co_links c) @
      keyed_member ''callbacks'' (ref_or_json callback_json) (co_callbacks c) @
      keyed_member ''pathItems'' path_item_json (co_path_items c) @
      keyed_member ''mediaTypes'' (ref_or_json media_type_json) (co_media_types c) @ co_extensions c)"

definition document_json :: "document \<Rightarrow> json" where
  "document_json d = json_object
     ([(''openapi'', JString (doc_openapi d))] @ member ''$self'' JString (doc_self_uri d) @
      [(''info'', info_json (doc_info d))] @ member ''jsonSchemaDialect'' JString (doc_dialect d) @
      listed_member ''servers'' server_json (doc_servers d) @ [(''paths'', paths_json (doc_paths d))] @
      keyed_member ''webhooks'' path_item_json (doc_webhooks d) @
      (if components_empty (doc_components d) then [] else [(''components'', components_json (doc_components d))]) @
      listed_member ''security'' requirement_json (doc_security d) @ listed_member ''tags'' tag_json (doc_tags d) @
      member ''externalDocs'' docs_json (doc_external_docs d) @ doc_extensions d)"

end
