(* ===== verification/Downgrade.thy ===== *)
theory Downgrade
  imports Openapi_Unrecognised Openapi_Json
begin

text \<open>
  What OpenAPI 3.1 reads: the fields its objects have, those they require and the values of the enumerated ones, as the
  field tables of the specification list them. A document nothing is reported of
  (\<open>src/crates/kynos-openapi/src/emit/downgrade.rs\<close>) serializes as what these tables admit.
\<close>

section \<open>The objects of OpenAPI 3.1\<close>

datatype oas_object =
    O_document | O_info | O_contact | O_license | O_server | O_server_variable | O_components | O_paths | O_path_item
  | O_operation | O_docs | O_parameter | O_request_body | O_media_type | O_encoding | O_responses | O_response | O_callback
  | O_example | O_link | O_header | O_tag | O_security_scheme | O_oauth_flows | O_oauth_flow

datatype kind =
    Anything
  | Text_value
  | Flag_value
  | One_of_values "string list"
  | Schema_kind
  | Requirement_kind
  | Object_kind oas_object
  | Object_or_reference oas_object
  | Map_of kind
  | List_of kind

fun fields31 :: "oas_object \<Rightarrow> (string \<times> kind) list" where
  "fields31 O_document =
     [(''openapi'', Text_value), (''info'', Object_kind O_info), (''jsonSchemaDialect'', Text_value),
      (''servers'', List_of (Object_kind O_server)), (''paths'', Object_kind O_paths),
      (''webhooks'', Map_of (Object_kind O_path_item)), (''components'', Object_kind O_components),
      (''security'', List_of Requirement_kind), (''tags'', List_of (Object_kind O_tag)), (''externalDocs'', Object_kind O_docs)]"
| "fields31 O_info =
     [(''title'', Text_value), (''summary'', Text_value), (''description'', Text_value), (''termsOfService'', Text_value),
      (''contact'', Object_kind O_contact), (''license'', Object_kind O_license), (''version'', Text_value)]"
| "fields31 O_contact = [(''name'', Text_value), (''url'', Text_value), (''email'', Text_value)]"
| "fields31 O_license = [(''name'', Text_value), (''identifier'', Text_value), (''url'', Text_value)]"
| "fields31 O_server =
     [(''url'', Text_value), (''description'', Text_value), (''variables'', Map_of (Object_kind O_server_variable))]"
| "fields31 O_server_variable = [(''enum'', List_of Text_value), (''default'', Text_value), (''description'', Text_value)]"
| "fields31 O_components =
     [(''schemas'', Map_of Schema_kind), (''responses'', Map_of (Object_or_reference O_response)),
      (''parameters'', Map_of (Object_or_reference O_parameter)), (''examples'', Map_of (Object_or_reference O_example)),
      (''requestBodies'', Map_of (Object_or_reference O_request_body)), (''headers'', Map_of (Object_or_reference O_header)),
      (''securitySchemes'', Map_of (Object_or_reference O_security_scheme)), (''links'', Map_of (Object_or_reference O_link)),
      (''callbacks'', Map_of (Object_or_reference O_callback)), (''pathItems'', Map_of (Object_kind O_path_item))]"
| "fields31 O_paths = []"
| "fields31 O_path_item =
     [(''$ref'', Text_value), (''summary'', Text_value), (''description'', Text_value), (''get'', Object_kind O_operation),
      (''put'', Object_kind O_operation), (''post'', Object_kind O_operation), (''delete'', Object_kind O_operation),
      (''options'', Object_kind O_operation), (''head'', Object_kind O_operation), (''patch'', Object_kind O_operation),
      (''trace'', Object_kind O_operation), (''servers'', List_of (Object_kind O_server)),
      (''parameters'', List_of (Object_or_reference O_parameter))]"
| "fields31 O_operation =
     [(''tags'', List_of Text_value), (''summary'', Text_value), (''description'', Text_value),
      (''externalDocs'', Object_kind O_docs), (''operationId'', Text_value),
      (''parameters'', List_of (Object_or_reference O_parameter)), (''requestBody'', Object_or_reference O_request_body),
      (''responses'', Object_kind O_responses), (''callbacks'', Map_of (Object_or_reference O_callback)),
      (''deprecated'', Flag_value), (''security'', List_of Requirement_kind), (''servers'', List_of (Object_kind O_server))]"
| "fields31 O_docs = [(''description'', Text_value), (''url'', Text_value)]"
| "fields31 O_parameter =
     [(''name'', Text_value), (''in'', One_of_values [''query'', ''header'', ''path'', ''cookie'']), (''description'', Text_value),
      (''required'', Flag_value), (''deprecated'', Flag_value), (''allowEmptyValue'', Flag_value),
      (''style'', One_of_values [''matrix'', ''label'', ''simple'', ''form'', ''spaceDelimited'', ''pipeDelimited'', ''deepObject'']),
      (''explode'', Flag_value), (''allowReserved'', Flag_value), (''schema'', Schema_kind), (''example'', Anything),
      (''examples'', Map_of (Object_or_reference O_example)), (''content'', Map_of (Object_kind O_media_type))]"
| "fields31 O_request_body =
     [(''description'', Text_value), (''content'', Map_of (Object_kind O_media_type)), (''required'', Flag_value)]"
| "fields31 O_media_type =
     [(''schema'', Schema_kind), (''example'', Anything), (''examples'', Map_of (Object_or_reference O_example)),
      (''encoding'', Map_of (Object_kind O_encoding))]"
| "fields31 O_encoding =
     [(''contentType'', Text_value), (''headers'', Map_of (Object_or_reference O_header)),
      (''style'', One_of_values [''form'', ''spaceDelimited'', ''pipeDelimited'', ''deepObject'']),
      (''explode'', Flag_value), (''allowReserved'', Flag_value)]"
| "fields31 O_responses = [(''default'', Object_or_reference O_response)]"
| "fields31 O_response =
     [(''description'', Text_value), (''headers'', Map_of (Object_or_reference O_header)),
      (''content'', Map_of (Object_kind O_media_type)), (''links'', Map_of (Object_or_reference O_link))]"
| "fields31 O_callback = []"
| "fields31 O_example =
     [(''summary'', Text_value), (''description'', Text_value), (''value'', Anything), (''externalValue'', Text_value)]"
| "fields31 O_link =
     [(''operationRef'', Text_value), (''operationId'', Text_value), (''parameters'', Map_of Anything), (''requestBody'', Anything),
      (''description'', Text_value), (''server'', Object_kind O_server)]"
| "fields31 O_header =
     [(''description'', Text_value), (''required'', Flag_value), (''deprecated'', Flag_value), (''style'', One_of_values [''simple'']),
      (''explode'', Flag_value), (''schema'', Schema_kind), (''example'', Anything),
      (''examples'', Map_of (Object_or_reference O_example)), (''content'', Map_of (Object_kind O_media_type))]"
| "fields31 O_tag = [(''name'', Text_value), (''description'', Text_value), (''externalDocs'', Object_kind O_docs)]"
| "fields31 O_security_scheme =
     [(''type'', One_of_values [''apiKey'', ''http'', ''mutualTLS'', ''oauth2'', ''openIdConnect'']), (''description'', Text_value),
      (''name'', Text_value), (''in'', One_of_values [''query'', ''header'', ''cookie'']), (''scheme'', Text_value),
      (''bearerFormat'', Text_value), (''flows'', Object_kind O_oauth_flows), (''openIdConnectUrl'', Text_value)]"
| "fields31 O_oauth_flows =
     [(''implicit'', Object_kind O_oauth_flow), (''password'', Object_kind O_oauth_flow),
      (''clientCredentials'', Object_kind O_oauth_flow), (''authorizationCode'', Object_kind O_oauth_flow)]"
| "fields31 O_oauth_flow =
     [(''authorizationUrl'', Text_value), (''tokenUrl'', Text_value), (''refreshUrl'', Text_value), (''scopes'', Map_of Text_value)]"

text \<open>What an object keyed by its entries holds under any other name.\<close>

fun entries31 :: "oas_object \<Rightarrow> kind option" where
  "entries31 O_paths = Some (Object_kind O_path_item)"
| "entries31 O_responses = Some (Object_or_reference O_response)"
| "entries31 O_callback = Some (Object_or_reference O_path_item)"
| "entries31 _ = None"

fun required31 :: "oas_object \<Rightarrow> string list" where
  "required31 O_document = [''openapi'', ''info'']"
| "required31 O_info = [''title'', ''version'']"
| "required31 O_license = [''name'']"
| "required31 O_server = [''url'']"
| "required31 O_server_variable = [''default'']"
| "required31 O_docs = [''url'']"
| "required31 O_parameter = [''name'', ''in'']"
| "required31 O_request_body = [''content'']"
| "required31 O_response = [''description'']"
| "required31 O_tag = [''name'']"
| "required31 O_security_scheme = [''type'']"
| "required31 O_oauth_flow = [''scopes'']"
| "required31 _ = []"

definition kind_of :: "oas_object \<Rightarrow> string \<Rightarrow> kind option" where
  "kind_of ob name = (case map_of (fields31 ob) name of Some k \<Rightarrow> Some k | None \<Rightarrow> entries31 ob)"

text \<open>The security schemes a document declares are a parameter: a requirement may name one of them, or none by URI.\<close>

fun kind_rank :: "kind \<Rightarrow> nat" where
  "kind_rank (Object_or_reference _) = 1"
| "kind_rank _ = 0"

function conforms :: "string list \<Rightarrow> kind \<Rightarrow> json \<Rightarrow> bool" where
  "conforms schemes k j =
     (case k of
        Anything \<Rightarrow> True
      | Text_value \<Rightarrow> (case j of JString _ \<Rightarrow> True | _ \<Rightarrow> False)
      | Flag_value \<Rightarrow> (case j of JBool _ \<Rightarrow> True | _ \<Rightarrow> False)
      | One_of_values vs \<Rightarrow> (case j of JString t \<Rightarrow> t \<in> set vs | _ \<Rightarrow> False)
      | Schema_kind \<Rightarrow> schema_value_blockers [] j Keywords = []
      | Requirement_kind \<Rightarrow>
          (case j of
             JObject ms \<Rightarrow> list_all (\<lambda>(name, v). name \<in> set schemes \<or> \<not> names_a_scheme_by_uri name) ms
           | _ \<Rightarrow> False)
      | Object_kind ob \<Rightarrow>
          (case j of
             JObject ms \<Rightarrow>
               list_all (\<lambda>(name, v). starts_with ''x-'' name \<or>
                 (case kind_of ob name of None \<Rightarrow> False | Some k' \<Rightarrow> conforms schemes k' v)) ms \<and>
               list_all (\<lambda>r. r \<in> set (map fst ms)) (required31 ob)
           | _ \<Rightarrow> False)
      | Object_or_reference ob \<Rightarrow>
          (case j of
             JObject ms \<Rightarrow> (case map_of ms ''$ref'' of Some (JString _) \<Rightarrow> True | _ \<Rightarrow> conforms schemes (Object_kind ob) j)
           | _ \<Rightarrow> False)
      | Map_of k' \<Rightarrow> (case j of JObject ms \<Rightarrow> list_all (\<lambda>(_, v). conforms schemes k' v) ms | _ \<Rightarrow> False)
      | List_of k' \<Rightarrow> (case j of JArray items \<Rightarrow> list_all (conforms schemes k') items | _ \<Rightarrow> False))"
  by pat_completeness auto
termination
  by (relation "measures [\<lambda>(_, _, j). size j, \<lambda>(_, k, _). kind_rank k]")
     (auto simp: termination_simp dest: size_list_less [of _ _ size])

declare conforms.simps [simp del]

section \<open>Lemmas: objects entry by entry\<close>

text \<open>Nothing found but extension names the specification reserves, which 3.1 reads.\<close>

definition clear :: "finding list \<Rightarrow> bool" where
  "clear fs \<longleftrightarrow> (\<forall>f\<in>set fs. case f of Reserved _ _ \<Rightarrow> True | _ \<Rightarrow> False)"

lemma clear_simps [simp]:
  "clear []" "clear (f # fs) \<longleftrightarrow> (case f of Reserved _ _ \<Rightarrow> True | _ \<Rightarrow> False) \<and> clear fs"
  "clear (fs @ gs) \<longleftrightarrow> clear fs \<and> clear gs" "clear (concat fss) \<longleftrightarrow> (\<forall>fs\<in>set fss. clear fs)"
  by (auto simp: clear_def)

definition entry_ok :: "string list \<Rightarrow> oas_object \<Rightarrow> string \<times> json \<Rightarrow> bool" where
  "entry_ok schemes ob e \<longleftrightarrow>
     starts_with ''x-'' (fst e) \<or> (case kind_of ob (fst e) of None \<Rightarrow> False | Some k \<Rightarrow> conforms schemes k (snd e))"

lemma map_get_some: "k \<in> fst ` set ms \<Longrightarrow> \<exists>v. map_get ms k = Some v"
  by (cases "map_of (rev ms) k") (auto simp: map_get_def map_of_eq_None_iff)

lemma json_object_set: "\<exists>held. json_object ms = JObject held \<and> set held = {e. map_get ms (fst e) = Some (snd e)}"
  using object_members [of ms] by (simp add: json_object_def)

lemma object_conforms:
  assumes "\<forall>e\<in>set ms. entry_ok schemes ob e" "set (required31 ob) \<subseteq> fst ` set ms"
  shows "conforms schemes (Object_kind ob) (json_object ms)"
proof -
  obtain held where h: "json_object ms = JObject held" "set held = {e. map_get ms (fst e) = Some (snd e)}"
    using json_object_set by blast
  have "entry_ok schemes ob e" if "e \<in> set held" for e
    using assms(1) map_get_member [of ms "fst e" "snd e"] that h(2) by auto
  moreover have "r \<in> set (map fst held)" if r: "r \<in> set (required31 ob)" for r
  proof -
    obtain v where "map_get ms r = Some v" using map_get_some subsetD [OF assms(2) r] by blast
    then have "(r, v) \<in> set held" using h(2) by simp
    then show ?thesis by force
  qed
  ultimately show ?thesis unfolding h(1)
    by (subst conforms.simps) (auto simp: list_all_iff entry_ok_def case_prod_beta)
qed

lemma extensions_ok:
  "clear (check_extensions at es) \<Longrightarrow> \<forall>e\<in>set es. entry_ok schemes ob e"
proof
  fix e assume c: "clear (check_extensions at es)" and e: "e \<in> set es"
  then have "clear (if \<not> starts_with EXTENSION_PREFIX (fst e) then [Unrecognised (at_pointer at) (fst e)]
      else if \<not> is_valid_extension (fst e) then [Reserved (at_pointer at) (fst e)] else [])"
    by (auto simp: check_extensions_def case_prod_beta)
  then show "entry_ok schemes ob e" by (simp add: entry_ok_def EXTENSION_PREFIX_def split: if_splits)
qed

lemma entry_okI:
  "kind_of ob name = Some k \<Longrightarrow> conforms schemes k v \<Longrightarrow> entry_ok schemes ob (name, v)"
  by (simp add: entry_ok_def)

lemma conforms_leaf:
  "conforms schemes Anything j" "conforms schemes Text_value (JString t)" "conforms schemes Flag_value (JBool b)"
  "conforms schemes (One_of_values vs) (JString t) \<longleftrightarrow> t \<in> set vs"
  by (simp_all add: conforms.simps)

lemma conforms_list: "conforms schemes (List_of k) (JArray vs) \<longleftrightarrow> (\<forall>v\<in>set vs. conforms schemes k v)"
  by (subst conforms.simps) (simp add: list_all_iff)

lemma conforms_map:
  assumes "\<And>v. v \<in> snd ` set ms \<Longrightarrow> conforms schemes k v"
  shows "conforms schemes (Map_of k) (json_object ms)"
proof -
  obtain held where h: "json_object ms = JObject held" "set held = {e. map_get ms (fst e) = Some (snd e)}"
    using json_object_set by blast
  have "conforms schemes k (snd e)" if "e \<in> set held" for e
    using assms map_get_member [of ms "fst e" "snd e"] that h(2) by force
  then show ?thesis unfolding h(1) by (subst conforms.simps) (auto simp: list_all_iff)
qed

lemma conforms_entries:
  "(\<And>name v. (name, v) \<in> set ms \<Longrightarrow> conforms schemes k (f v)) \<Longrightarrow> conforms schemes (Map_of k) (entries_json f ms)"
  unfolding entries_json_def by (rule conforms_map) auto

lemma conforms_reference: "conforms schemes (Object_or_reference ob) (reference_json r)"
proof -
  let ?ms = "[(''$ref'', JString (ref_location r))] @ member ''summary'' JString (ref_summary r) @
      member ''description'' JString (ref_description r)"
  obtain held where h: "json_object ?ms = JObject held" "set held = {e. map_get ?ms (fst e) = Some (snd e)}"
    using json_object_set by blast
  have "map_get ?ms ''$ref'' = Some (JString (ref_location r))" by (simp add: map_get_def member_def split: option.split)
  then have e: "(''$ref'', JString (ref_location r)) \<in> set held" using h(2) by simp
  then obtain v where v: "map_of held ''$ref'' = Some v" by (metis domD dom_map_of_conv_image_fst image_eqI fst_conv)
  then have "(''$ref'', v) \<in> set held" by (rule map_of_SomeD)
  then have "v = JString (ref_location r)" using e h(2) by auto
  then show ?thesis unfolding reference_json_def h(1) using v by (subst conforms.simps) simp
qed

lemma conforms_object_or_reference:
  assumes "conforms schemes (Object_kind ob) j"
  shows "conforms schemes (Object_or_reference ob) j"
proof (cases j)
  case (JObject ms)
  then show ?thesis using assms by (subst conforms.simps) (auto split: option.split json.split)
qed (use assms in \<open>simp_all add: conforms.simps [of _ "Object_kind ob"]\<close>)

lemma conforms_ref_or:
  "(\<And>x. r = Item x \<Longrightarrow> conforms schemes (Object_kind ob) (f x)) \<Longrightarrow> conforms schemes (Object_or_reference ob) (ref_or_json f r)"
  by (cases r) (simp_all add: conforms_reference conforms_object_or_reference)

lemma conforms_schema:
  assumes "collect_schema_blockers at s = []"
  shows "conforms schemes Schema_kind (schema_json s)"
proof -
  have "schema_value_blockers location (schema_json s) Keywords = []
    \<longleftrightarrow> (\<forall>ts ms holder field. reached (schema_json s) Keywords ts (JObject ms) \<longrightarrow> (holder, field) \<in> set HOLDERS \<longrightarrow> \<not> carries ms holder field)" for location
    unfolding set_empty [symmetric] blockers_reported reported_def by blast
  moreover have "schema_value_blockers (at_pointer at) (schema_json s) Keywords = []"
    using assms ruled_out_holds_none by (auto simp: collect_schema_blockers_def split: if_splits)
  ultimately show ?thesis by (subst conforms.simps) simp
qed

lemma member_ok:
  "(\<forall>e\<in>set (member n f v). entry_ok schemes ob e) \<longleftrightarrow> (\<forall>x. v = Some x \<longrightarrow> entry_ok schemes ob (n, f x))"
  "(\<forall>e\<in>set (listed_member n f vs). entry_ok schemes ob e) \<longleftrightarrow> (vs \<noteq> [] \<longrightarrow> entry_ok schemes ob (n, JArray (map f vs)))"
  "(\<forall>e\<in>set (array_member n f vs'). entry_ok schemes ob e) \<longleftrightarrow> (\<forall>vs. vs' = Some vs \<longrightarrow> entry_ok schemes ob (n, JArray (map f vs)))"
  "(\<forall>e\<in>set (keyed_member n f ms). entry_ok schemes ob e) \<longleftrightarrow> (ms \<noteq> [] \<longrightarrow> entry_ok schemes ob (n, entries_json f ms))"
  by (auto simp: member_def listed_member_def array_member_def keyed_member_def entries_json_def split: option.splits)

lemma text_ok:
  "kind_of ob name = Some Text_value \<Longrightarrow> entry_ok schemes ob (name, JString t)"
  "kind_of ob name = Some Flag_value \<Longrightarrow> entry_ok schemes ob (name, JBool b)"
  "kind_of ob name = Some Anything \<Longrightarrow> entry_ok schemes ob (name, j)"
  "kind_of ob name = Some (One_of_values vs) \<Longrightarrow> t \<in> set vs \<Longrightarrow> entry_ok schemes ob (name, JString t)"
  by (simp_all add: entry_okI [OF _ conforms_leaf(1)] entry_ok_def conforms_leaf)

lemma entries_ok:
  "kind_of ob n = Some (Map_of k) \<Longrightarrow> (\<And>name v. (name, v) \<in> set ms \<Longrightarrow> conforms schemes k (f v)) \<Longrightarrow>
   entry_ok schemes ob (n, entries_json f ms)"
  by (auto intro: entry_okI conforms_entries)

lemma items_ok:
  "kind_of ob n = Some (Map_of (Object_or_reference k)) \<Longrightarrow> (\<And>name x. (name, Item x) \<in> set ms \<Longrightarrow> conforms schemes (Object_kind k) (f x)) \<Longrightarrow>
   entry_ok schemes ob (n, entries_json (ref_or_json f) ms)"
  by (rule entries_ok) (auto intro: conforms_ref_or)

lemma listed_ok:
  "kind_of ob n = Some (List_of k) \<Longrightarrow> (\<And>v. v \<in> set vs \<Longrightarrow> conforms schemes k (f v)) \<Longrightarrow> entry_ok schemes ob (n, JArray (map f vs))"
  by (rule entry_okI) (auto simp: conforms_list)

lemma strings_ok: "kind_of ob n = Some (List_of Text_value) \<Longrightarrow> entry_ok schemes ob (n, json_strings ss)"
  unfolding json_strings_def by (rule listed_ok) (auto simp: conforms_leaf)

lemma docs_conforms: "clear (external_docs_fields at d) \<Longrightarrow> conforms schemes (Object_kind O_docs) (docs_json d)"
  unfolding docs_json_def
  by (rule object_conforms) (auto simp: external_docs_fields_def ball_Un member_ok text_ok kind_of_def dest: extensions_ok)

lemma server_variable_conforms:
  "clear (check_extensions at (sv_extensions v)) \<Longrightarrow> conforms schemes (Object_kind O_server_variable) (server_variable_json v)"
  unfolding server_variable_json_def
  by (rule object_conforms)
     (auto simp: ball_Un member_ok text_ok strings_ok kind_of_def dest: extensions_ok)

lemma server_conforms:
  assumes "server_blockers at s = []" "clear (server_fields at' s)"
  shows "conforms schemes (Object_kind O_server) (server_json s)"
proof -
  have n: "server_name s = None" using assms(1) by (auto simp: server_blockers_def split: if_splits)
  have "conforms schemes (Object_kind O_server_variable) (server_variable_json v)" if "(name, v) \<in> set (server_variables s)" for name v
    using assms(2) that server_variable_conforms by (fastforce simp: server_fields_def)
  then have "entry_ok schemes O_server (''variables'', entries_json server_variable_json (server_variables s))"
    by (intro entries_ok) (simp_all add: kind_of_def)
  then show ?thesis unfolding server_json_def n using assms(2)
    by (intro object_conforms) (auto simp: ball_Un member_ok text_ok kind_of_def server_fields_def dest: extensions_ok)
qed

lemmas entry_simps = ball_Un member_ok text_ok strings_ok kind_of_def

lemma member_none [simp]: "member n f None = []"
  by (simp add: member_def)

lemma member_object_ok:
  "kind_of ob n = Some (Object_kind k) \<Longrightarrow> (\<And>x. v = Some x \<Longrightarrow> conforms schemes (Object_kind k) (f x)) \<Longrightarrow>
   \<forall>e\<in>set (member n f v). entry_ok schemes ob e"
  by (auto simp: member_def intro: entry_okI split: option.splits)

lemma servers_ok:
  assumes "kind_of ob ''servers'' = Some (List_of (Object_kind O_server))" "servers_blockers at ss = []" "clear (servers_fields at' ss)"
  shows "\<forall>e\<in>set (listed_member ''servers'' server_json ss). entry_ok schemes ob e"
proof -
  have "conforms schemes (Object_kind O_server) (server_json s)" if "s \<in> set ss" for s
  proof -
    have "s \<in> snd ` set (enumerate 0 ss)" using that by (simp only: snd_enumerate)
    then obtain i where i: "(i, s) \<in> set (enumerate 0 ss)" by auto
    then have "server_blockers (index_at (key_at at ''servers'') i) s = []" using assms(2) by (fastforce simp: servers_blockers_def)
    moreover have "clear (server_fields (index_at at' i) s)" using i assms(3) by (fastforce simp: servers_fields_def)
    ultimately show ?thesis by (rule server_conforms)
  qed
  then show ?thesis using assms(1) by (auto simp: listed_member_def intro: listed_ok)
qed

lemma link_conforms:
  assumes "link_blockers at l = []" "clear (link_fields at' l)"
  shows "conforms schemes (Object_kind O_link) (link_json l)"
proof -
  have "conforms schemes (Object_kind O_server) (server_json s)" if "link_server l = Some s" for s
    using assms that server_conforms by (auto simp: link_blockers_def link_fields_def)
  then have s: "\<forall>e\<in>set (member ''server'' server_json (link_server l)). entry_ok schemes O_link e"
    by (intro member_object_ok) (auto simp: kind_of_def)
  have p: "entry_ok schemes O_link (''parameters'', entries_json (\<lambda>v. v) (link_parameters l))"
    by (rule entries_ok) (auto simp: kind_of_def conforms_leaf)
  show ?thesis unfolding link_json_def using assms(2) s p
    by (cases "link_target_written (link_target l)")
       (simp, rule object_conforms, auto simp: entry_simps link_fields_def dest: extensions_ok)
qed

lemma tag_conforms:
  assumes "tag_summary t = None" "tag_parent t = None" "tag_kind t = None" "clear (tag_fields at t)"
  shows "conforms schemes (Object_kind O_tag) (tag_json t)"
proof -
  have "\<forall>e\<in>set (member ''externalDocs'' docs_json (tag_external_docs t)). entry_ok schemes O_tag e"
    using assms(4) docs_conforms by (intro member_object_ok) (auto simp: kind_of_def tag_fields_def)
  then show ?thesis unfolding tag_json_def assms(1-3) using assms(4)
    by (intro object_conforms) (auto simp: entry_simps tag_fields_def dest: extensions_ok)
qed

lemma contact_conforms: "clear (check_extensions at (contact_extensions c)) \<Longrightarrow> conforms schemes (Object_kind O_contact) (contact_json c)"
  unfolding contact_json_def by (rule object_conforms) (auto simp: entry_simps dest: extensions_ok)

lemma license_conforms:
  "clear (check_extensions at (license_extensions l)) \<Longrightarrow> conforms schemes (Object_kind O_license) (license_json l)"
  unfolding license_json_def
  by (cases "license_link_written (license_link l)")
     (simp, rule object_conforms, auto simp: entry_simps dest: extensions_ok)

lemma info_conforms:
  assumes "clear (info_fields at i)"
  shows "conforms schemes (Object_kind O_info) (info_json i)"
proof -
  have "\<forall>e\<in>set (member ''contact'' contact_json (info_contact i)). entry_ok schemes O_info e"
    using assms contact_conforms by (intro member_object_ok) (auto simp: kind_of_def info_fields_def)
  moreover have "\<forall>e\<in>set (member ''license'' license_json (info_license i)). entry_ok schemes O_info e"
    using assms license_conforms by (intro member_object_ok) (auto simp: kind_of_def info_fields_def)
  ultimately show ?thesis unfolding info_json_def using assms
    by (intro object_conforms) (auto simp: entry_simps info_fields_def dest: extensions_ok)
qed

lemma oauth_flow_conforms:
  assumes "fl_device_url f = None" "clear (check_extensions at (fl_extensions f))"
  shows "conforms schemes (Object_kind O_oauth_flow) (oauth_flow_json f)"
proof -
  have "entry_ok schemes O_oauth_flow (''scopes'', entries_json JString (fl_scopes f))"
    by (rule entries_ok) (auto simp: kind_of_def conforms_leaf)
  then show ?thesis unfolding oauth_flow_json_def assms(1) using assms(2)
    by (intro object_conforms) (auto simp: entry_simps dest: extensions_ok)
qed

lemma oauth_flows_conforms:
  assumes "oauth_flow_blockers at fs = []" "clear (oauth_flows_fields at' fs)"
  shows "conforms schemes (Object_kind O_oauth_flows) (oauth_flows_json fs)"
proof -
  have n: "device_authorization_flow fs = None" using assms(1) by (auto simp: oauth_flow_blockers_def split: if_splits)
  have m: "\<forall>e\<in>set (member n oauth_flow_json v). entry_ok schemes O_oauth_flows e"
    if "(n, v) \<in> {(''implicit'', implicit_flow fs), (''password'', password_flow fs),
       (''clientCredentials'', client_credentials_flow fs), (''authorizationCode'', authorization_code_flow fs)}" for n v
  proof (rule member_object_ok)
    fix f assume f: "v = Some f"
    have "fl_device_url f = None"
      using assms(1) that f by (auto simp: oauth_flow_blockers_def split: if_splits option.splits)
    moreover have "clear (check_extensions (key_at at' n) (fl_extensions f))" using assms(2) that f
      by (auto simp: oauth_flows_fields_def split: option.splits)
    ultimately show "conforms schemes (Object_kind O_oauth_flow) (oauth_flow_json f)" by (rule oauth_flow_conforms)
  qed (use that in \<open>auto simp: kind_of_def\<close>)
  have x: "\<forall>e\<in>set (flows_extensions fs). entry_ok schemes O_oauth_flows e"
    using assms(2) by (intro extensions_ok [of at']) (simp add: oauth_flows_fields_def)
  show ?thesis unfolding oauth_flows_json_def n 
    by (rule object_conforms; simp add: ball_Un x; intro conjI; rule m; simp)
qed

lemma security_scheme_conforms:
  assumes "security_scheme_blockers at s = []" "clear (security_scheme_fields at' s)"
  shows "conforms schemes (Object_kind O_security_scheme) (security_scheme_json s)"
proof -
  have d: "sh_deprecated (scheme_head s) = None" using assms(1) by (auto simp: security_scheme_blockers_def split: if_splits)
  have k: "(\<forall>e\<in>set (scheme_kind_members (scheme_kind s)). entry_ok schemes O_security_scheme e) \<and>
      ''type'' \<in> fst ` set (scheme_kind_members (scheme_kind s))"
  proof (cases "scheme_kind s")
    case (Api_key name location)
    then show ?thesis by (cases location) (auto simp: entry_simps)
  next
    case (OAuth2 flows url)
    have "conforms schemes (Object_kind O_oauth_flows) (oauth_flows_json flows)"
      using assms oauth_flows_conforms by (auto simp: OAuth2 security_scheme_blockers_def security_scheme_fields_def)
    moreover have "url = None" using assms(1) by (auto simp: OAuth2 security_scheme_blockers_def split: if_splits)
    ultimately show ?thesis by (auto simp: OAuth2 entry_simps intro: entry_okI)
  qed (auto simp: entry_simps)
  show ?thesis unfolding security_scheme_json_def d using assms(2) k
    by (intro object_conforms) (auto simp: entry_simps security_scheme_fields_def dest: extensions_ok)
qed

lemma example_conforms:
  assumes "example_blockers at x = []" "clear (example_fields at' x)"
  shows "conforms schemes (Object_kind O_example) (example_json x)"
proof -
  obtain v data serialized uri where w: "example_value_written (ex_value x) = (v, data, serialized, uri)" by (metis prod_cases4)
  have "data = None \<and> serialized = None"
    using assms(1) w by (cases "ex_value x" rule: example_value_carries.cases) (auto simp: example_blockers_def present_fields_def split: if_splits)
  then show ?thesis using assms(2)
    by (simp add: example_json_def w, intro object_conforms) (auto simp: entry_simps example_fields_def dest: extensions_ok)
qed

lemma inline_items_nil: "inline_items at ms f = [] \<Longrightarrow> (name, Item x) \<in> set ms \<Longrightarrow> f (key_at at name) x = []"
  by (fastforce simp: inline_items_def)

lemma inline_items_clear: "clear (inline_items at ms f) \<Longrightarrow> (name, Item x) \<in> set ms \<Longrightarrow> clear (f (key_at at name) x)"
  by (fastforce simp: inline_items_def)

lemma example_items_ok:
  assumes "kind_of ob n = Some (Map_of (Object_or_reference O_example))" "named_example_blockers at (Some named) = []"
    "clear (inline_items at' named example_fields)"
  shows "entry_ok schemes ob (n, entries_json (ref_or_json example_json) named)"
proof (rule items_ok [OF assms(1)])
  fix name x assume m: "(name, Item x) \<in> set named"
  have "example_blockers (key_at (key_at at ''examples'') name) x = []"
    using inline_items_nil [OF _ m] assms(2) by (auto simp: named_example_blockers_def)
  then show "conforms schemes (Object_kind O_example) (example_json x)"
    by (rule example_conforms) (rule inline_items_clear [OF assms(3) m])
qed

lemma examples_ok:
  assumes "kind_of ob ''examples'' = Some (Map_of (Object_or_reference O_example))" "kind_of ob ''example'' = Some Anything"
    "named_example_blockers at (Option.bind held as_named) = []" "clear (examples_fields at' held)"
  shows "\<forall>e\<in>set (examples_members held). entry_ok schemes ob e"
proof (cases held)
  case (Some x)
  show ?thesis
  proof (cases x)
    case (Inline v)
    then show ?thesis using assms(2) by (simp add: Some examples_members_def member_def text_ok)
  next
    case (Named named)
    have "entry_ok schemes ob (''examples'', entries_json (ref_or_json example_json) named)"
      using assms(1,3,4) Some Named by (intro example_items_ok) (auto simp: examples_fields_def)
    then show ?thesis by (simp add: Some Named examples_members_def member_def)
  qed
qed (simp add: examples_members_def member_def)

end
