(* ===== verification/Downgrade_Conforms.thy ===== *)
theory Downgrade_Conforms
  imports Downgrade
begin

text \<open>
  The objects of a document nothing is reported of conform to OpenAPI 3.1, from media types up to the document.
\<close>

section \<open>Lemmas: media types, encodings, headers\<close>

definition shape_blockers :: "token list \<Rightarrow> header_shape \<Rightarrow> string list" where
  "shape_blockers at shape' =
     (case shape' of
        Header_content mime v \<Rightarrow> content_entry_blockers (key_at (key_at at ''content'') mime) v
      | Header_schema s _ _ \<Rightarrow> collect_schema_blockers (key_at at ''schema'') s)"

definition shape_fields :: "token list \<Rightarrow> header_shape \<Rightarrow> finding list" where
  "shape_fields at shape' =
     (case shape' of
        Header_schema s _ _ \<Rightarrow> schema_fields (key_at at ''schema'') s
      | Header_content mime v \<Rightarrow> content_entry_fields (key_at (key_at at ''content'') mime) v)"

lemma schema_member_ok:
  assumes "kind_of ob ''schema'' = Some Schema_kind" "case v of None \<Rightarrow> True | Some s \<Rightarrow> collect_schema_blockers at s = []"
  shows "\<forall>e\<in>set (member ''schema'' schema_json v). entry_ok schemes ob e"
  using assms conforms_schema by (cases v) (auto simp: member_def intro: entry_okI)

lemma present_fields_nil: "present_fields at fs = [] \<longleftrightarrow> (\<forall>(field, present)\<in>set fs. \<not> present)"
  by (fastforce simp: present_fields_def)

lemma style_strings:
  "encoding_style_str st \<in> set [''form'', ''spaceDelimited'', ''pipeDelimited'', ''deepObject'']"
  "style_str (header_style_of hs) = ''simple''"
  by (cases st; simp) (cases hs; simp)

lemma header_shape_cases:
  "header_blockers at (Header h shape') = [] \<longleftrightarrow>
     shape_blockers at shape' = [] \<and> named_example_blockers at (Option.bind (hd_examples h) as_named) = []"
  "clear (header_fields at (Header h shape')) \<longleftrightarrow>
     clear (check_extensions at (hd_extensions h)) \<and> clear (shape_fields at shape') \<and> clear (examples_fields at (hd_examples h))"
  by (auto simp: shape_blockers_def shape_fields_def)

definition media_good :: "string list \<Rightarrow> media_type \<Rightarrow> bool" where
  "media_good schemes m \<longleftrightarrow> (\<forall>at at'. media_type_blockers at m = [] \<longrightarrow> clear (media_type_fields at' m) \<longrightarrow>
     conforms schemes (Object_kind O_media_type) (media_type_json m))"

definition encoding_good :: "string list \<Rightarrow> encoding \<Rightarrow> bool" where
  "encoding_good schemes m \<longleftrightarrow> (\<forall>at at'. encoding_blockers at m = [] \<longrightarrow> clear (encoding_fields at' m) \<longrightarrow>
     conforms schemes (Object_kind O_encoding) (encoding_json m))"

definition header_good :: "string list \<Rightarrow> header \<Rightarrow> bool" where
  "header_good schemes m \<longleftrightarrow> (\<forall>at at'. header_blockers at m = [] \<longrightarrow> clear (header_fields at' m) \<longrightarrow>
     conforms schemes (Object_kind O_header) (header_json m))"

definition shape_good :: "string list \<Rightarrow> header_shape \<Rightarrow> bool" where
  "shape_good schemes m \<longleftrightarrow> (\<forall>at at'. shape_blockers at m = [] \<longrightarrow> clear (shape_fields at' m) \<longrightarrow>
     (\<forall>e\<in>set (header_shape_members m). entry_ok schemes O_header e))"

lemma media_step:
  assumes "\<And>property e. (property, e) \<in> set encodings \<Longrightarrow> encoding_good schemes e"
  shows "media_good schemes (Media_type h encodings prefix' item')"
  unfolding media_good_def
proof (intro allI impI)
  fix at at' assume b: "media_type_blockers at (Media_type h encodings prefix' item') = []"
    and f: "clear (media_type_fields at' (Media_type h encodings prefix' item'))"
  have none: "mt_item_schema h = None" "prefix' = None" "item' = None" using b by (auto simp: present_fields_nil)
  have "conforms schemes (Object_kind O_encoding) (encoding_json e)" if e: "(property, e) \<in> set encodings" for property e
  proof -
    have "encoding_blockers (key_at (key_at at ''encoding'') property) e = []" using b e by fastforce
    moreover have "clear (encoding_fields (key_at (key_at at' ''encoding'') property) e)" using f e by fastforce
    ultimately show ?thesis using assms [OF e] unfolding encoding_good_def by blast
  qed
  then have en: "entry_ok schemes O_media_type (''encoding'', entries_json encoding_json encodings)"
    by (intro entries_ok) (simp_all add: kind_of_def)
  have s: "\<forall>e\<in>set (member ''schema'' schema_json (mt_schema h)). entry_ok schemes O_media_type e"
    using b by (intro schema_member_ok [where at = "key_at at ''schema''"]) (auto simp: kind_of_def split: option.splits)
  have ex: "\<forall>e\<in>set (examples_members (mt_examples h)). entry_ok schemes O_media_type e"
    using b f by (intro examples_ok [of _ at _ at']) (simp_all add: kind_of_def)
  have x: "\<forall>e\<in>set (mt_extensions h). entry_ok schemes O_media_type e"
    using f by (intro extensions_ok [of at']) simp
  show "conforms schemes (Object_kind O_media_type) (media_type_json (Media_type h encodings prefix' item'))"
    unfolding media_type_json.simps none by (rule object_conforms) (simp_all add: ball_Un s ex en x)
qed

lemma encoding_step:
  assumes "\<And>name x. (name, Item x) \<in> set headers' \<Longrightarrow> header_good schemes x"
  shows "encoding_good schemes (Encoding h headers' encodings prefix' item')"
  unfolding encoding_good_def
proof (intro allI impI)
  fix at at' assume b: "encoding_blockers at (Encoding h headers' encodings prefix' item') = []"
    and f: "clear (encoding_fields at' (Encoding h headers' encodings prefix' item'))"
  have none: "encodings = []" "prefix' = None" "item' = None" using b by (auto simp: present_fields_nil)
  have "conforms schemes (Object_kind O_header) (header_json x)" if "(name, Item x) \<in> set headers'" for name x
    using assms [OF that] inline_items_nil [OF _ that, of "key_at at ''headers''" header_blockers]
      inline_items_clear [OF _ that, of "key_at at' ''headers''" header_fields] b f
    unfolding header_good_def by auto
  then have hs: "entry_ok schemes O_encoding (''headers'', entries_json (ref_or_json header_json) headers')"
    by (intro items_ok) (simp_all add: kind_of_def)
  have x: "\<forall>e\<in>set (en_extensions h). entry_ok schemes O_encoding e"
    using f by (intro extensions_ok [of at']) simp
  show "conforms schemes (Object_kind O_encoding) (encoding_json (Encoding h headers' encodings prefix' item'))"
    unfolding encoding_json.simps none
    by (rule object_conforms) (use style_strings in \<open>auto simp: entry_simps hs x\<close>)
qed

lemma header_step:
  assumes "shape_good schemes shape'"
  shows "header_good schemes (Header h shape')"
  unfolding header_good_def header_shape_cases
proof (intro allI impI)
  fix at at' assume b: "shape_blockers at shape' = [] \<and> named_example_blockers at (Option.bind (hd_examples h) as_named) = []"
    and f: "clear (check_extensions at' (hd_extensions h)) \<and> clear (shape_fields at' shape') \<and> clear (examples_fields at' (hd_examples h))"
  have s: "\<forall>e\<in>set (header_shape_members shape'). entry_ok schemes O_header e" using assms b f unfolding shape_good_def by blast
  have ex: "\<forall>e\<in>set (examples_members (hd_examples h)). entry_ok schemes O_header e"
    using b f by (intro examples_ok [of _ at _ at']) (simp_all add: kind_of_def)
  have x: "\<forall>e\<in>set (hd_extensions h). entry_ok schemes O_header e" using f by (intro extensions_ok [of at']) simp
  show "conforms schemes (Object_kind O_header) (header_json (Header h shape'))"
    unfolding header_json.simps by (rule object_conforms) (simp_all add: entry_simps s ex x)
qed

lemma content_entry_good:
  assumes "\<And>m. v = Item m \<Longrightarrow> media_good schemes m" "content_entry_blockers at v = []" "clear (content_entry_fields at' v)"
  shows "conforms schemes (Object_kind O_media_type) (ref_or_json media_type_json v)"
  using assms unfolding media_good_def by (cases v) auto

lemma shape_step:
  assumes "\<And>mime m. shape' = Header_content mime (Item m) \<Longrightarrow> media_good schemes m"
  shows "shape_good schemes shape'"
  unfolding shape_good_def
proof (intro allI impI)
  fix at at' assume b: "shape_blockers at shape' = []" and f: "clear (shape_fields at' shape')"
  show "\<forall>e\<in>set (header_shape_members shape'). entry_ok schemes O_header e"
  proof (cases shape')
    case (Header_schema s st explode)
    have "entry_ok schemes O_header (''schema'', schema_json s)"
      using b conforms_schema by (intro entry_okI) (auto simp: kind_of_def Header_schema shape_blockers_def)
    then show ?thesis using style_strings(2) by (auto simp: Header_schema entry_simps)
  next
    case (Header_content mime v)
    have "conforms schemes (Object_kind O_media_type) (ref_or_json media_type_json v)"
      using b f assms unfolding shape_blockers_def shape_fields_def Header_content by (intro content_entry_good) auto
    then have "conforms schemes (Map_of (Object_kind O_media_type)) (json_object [(mime, ref_or_json media_type_json v)])"
      by (intro conforms_map) simp
    then have "entry_ok schemes O_header (''content'', json_object [(mime, ref_or_json media_type_json v)])"
      by (intro entry_okI) (auto simp: kind_of_def)
    then show ?thesis by (simp add: Header_content)
  qed
qed

lemma media_types_good: "media_good schemes m"
  and encodings_good: "encoding_good schemes e"
  and headers_good: "header_good schemes x"
  and shapes_good: "shape_good schemes shape'"
proof (induction m and e and x and shape'
    rule: media_type_json_encoding_json_header_json_header_shape_members.induct)
  case (1 h encodings prefix' item')
  show ?case by (rule media_step, rule 1(1)) force+
next
  case (2 h headers' encodings prefix' item')
  show ?case by (rule encoding_step, rule 2(1)) force+
next
  case (3 h shape')
  then show ?case by (rule header_step)
next
  case (4 s st explode)
  show ?case by (rule shape_step) simp
next
  case (5 mime v)
  show ?case by (rule shape_step) (use 5 in auto)
qed

section \<open>Lemmas: parameters, bodies, responses\<close>

lemma content_ok:
  assumes "kind_of ob n = Some (Map_of (Object_kind O_media_type))" "content_blockers at content = []"
    "clear (content_fields at' content)"
  shows "entry_ok schemes ob (n, entries_json (ref_or_json media_type_json) content)"
proof (rule entries_ok [OF assms(1)])
  fix mime v assume m: "(mime, v) \<in> set content"
  have "content_entry_blockers (key_at (key_at at ''content'') mime) v = []" using assms(2) m by (fastforce simp: content_blockers_def)
  moreover have "clear (content_entry_fields (key_at at' mime) v)" using assms(3) m by (fastforce simp: content_fields_def)
  ultimately show "conforms schemes (Object_kind O_media_type) (ref_or_json media_type_json v)"
    using media_types_good by (intro content_entry_good)
qed

lemma parameter_conforms:
  assumes "parameter_blockers at p = []" "clear (parameter_fields at' p)"
  shows "conforms schemes (Object_kind O_parameter) (parameter_json p)"
proof -
  have l: "pm_location p \<noteq> In_querystring" "pm_style p \<noteq> Some Cookie_style"
    using assms(1) by (auto simp: parameter_blockers_def split: if_splits)
  have i: "entry_ok schemes O_parameter (''in'', JString (parameter_in_str (pm_location p)))"
    using l(1) by (cases "pm_location p") (auto simp: entry_simps)
  have st: "entry_ok schemes O_parameter (''style'', JString (style_str st))" if "pm_style p = Some st" for st
    using l(2) that by (cases st) (auto simp: entry_simps)
  have ex: "\<forall>e\<in>set (examples_members (pm_examples p)). entry_ok schemes O_parameter e"
    using assms by (intro examples_ok [of _ at _ at']) (simp_all add: kind_of_def parameter_blockers_def pm_named_examples_def parameter_fields_def)
  have x: "\<forall>e\<in>set (pm_extensions p). entry_ok schemes O_parameter e"
    using assms(2) by (intro extensions_ok [of at']) (simp add: parameter_fields_def)
  show ?thesis
  proof (cases "pm_shape p")
    case (Shape_schema s st' explode reserved)
    have "entry_ok schemes O_parameter (''schema'', schema_json s)"
      using assms(1) conforms_schema
      by (intro entry_okI) (auto simp: kind_of_def Shape_schema parameter_blockers_def pm_schema_def)
    then show ?thesis using st unfolding parameter_json_def parameter_written_def Let_def Shape_schema
      by (cases "examples_into (pm_examples p)")
         (simp, intro object_conforms, auto simp: entry_simps i ex x pm_style_def Shape_schema keyed_member_def)
  next
    case (Shape_content mime v)
    have "conforms schemes (Object_kind O_media_type) (ref_or_json media_type_json v)"
      using assms media_types_good
      by (intro content_entry_good) (auto simp: parameter_blockers_def parameter_fields_def pm_content_def Shape_content)
    then have "entry_ok schemes O_parameter (''content'', entries_json (ref_or_json media_type_json) [(mime, v)])"
      by (intro entries_ok) (auto simp: kind_of_def)
    then show ?thesis unfolding parameter_json_def parameter_written_def Let_def Shape_content
      by (cases "examples_into (pm_examples p)")
         (simp, intro object_conforms, auto simp: entry_simps i ex x)
  qed
qed

lemma parameters_ok:
  assumes "kind_of ob ''parameters'' = Some (List_of (Object_or_reference O_parameter))" "parameters_blockers at ps = []"
    "clear (parameters_fields at' ps)"
  shows "\<forall>e\<in>set (listed_member ''parameters'' (ref_or_json parameter_json) ps). entry_ok schemes ob e"
proof -
  have "conforms schemes (Object_or_reference O_parameter) (ref_or_json parameter_json r)" if r: "r \<in> set ps" for r
  proof (rule conforms_ref_or)
    fix p assume p: "r = Item p"
    have "r \<in> snd ` set (enumerate 0 ps)" using r by (simp only: snd_enumerate)
    then obtain i where i: "(i, Item p) \<in> set (enumerate 0 ps)" using p by auto
    then have "parameter_blockers (index_at (key_at at ''parameters'') i) p = []" using assms(2) by (fastforce simp: parameters_blockers_def)
    moreover have "clear (parameter_fields (index_at at' i) p)" using i assms(3) by (fastforce simp: parameters_fields_def)
    ultimately show "conforms schemes (Object_kind O_parameter) (parameter_json p)" by (rule parameter_conforms)
  qed
  then show ?thesis using assms(1) by (auto simp: listed_member_def intro: listed_ok)
qed

lemma request_body_conforms:
  assumes "content_blockers at (rb_content b) = []" "clear (request_body_fields at' b)"
  shows "conforms schemes (Object_kind O_request_body) (request_body_json_value b)"
proof -
  have "entry_ok schemes O_request_body (''content'', entries_json (ref_or_json media_type_json) (rb_content b))"
    using assms by (intro content_ok) (auto simp: kind_of_def request_body_fields_def)
  then show ?thesis unfolding request_body_json_value_def using assms(2)
    by (intro object_conforms) (auto simp: entry_simps request_body_fields_def dest: extensions_ok)
qed

lemma response_conforms:
  assumes "response_blockers at r = []" "clear (response_fields at' r)"
  shows "conforms schemes (Object_kind O_response) (response_json r)"
proof -
  have s: "rs_summary r = None" using assms(1) by (auto simp: response_blockers_def split: if_splits)
  obtain t where t: "rs_description r = Some t" using assms(2) by (auto simp: response_fields_def split: if_splits)
  have h: "entry_ok schemes O_response (''headers'', entries_json (ref_or_json header_json) (rs_headers r))"
  proof (rule items_ok)
    fix name x assume m: "(name, Item x) \<in> set (rs_headers r)"
    have "header_blockers (key_at (key_at at ''headers'') name) x = []"
      using assms(1) by (intro inline_items_nil [OF _ m, of _ header_blockers]) (simp add: response_blockers_def)
    moreover have "clear (header_fields (key_at (key_at at' ''headers'') name) x)"
      using assms(2) by (intro inline_items_clear [OF _ m, of _ header_fields]) (simp add: response_fields_def)
    ultimately show "conforms schemes (Object_kind O_header) (header_json x)" using headers_good unfolding header_good_def by blast
  qed (simp add: kind_of_def)
  have l: "entry_ok schemes O_response (''links'', entries_json (ref_or_json link_json) (rs_links r))"
  proof (rule items_ok)
    fix name x assume m: "(name, Item x) \<in> set (rs_links r)"
    have "link_blockers (key_at (key_at at ''links'') name) x = []"
      using assms(1) by (intro inline_items_nil [OF _ m, of _ link_blockers]) (simp add: response_blockers_def)
    moreover have "clear (link_fields (key_at (key_at at' ''links'') name) x)"
      using assms(2) by (intro inline_items_clear [OF _ m, of _ link_fields]) (simp add: response_fields_def)
    ultimately show "conforms schemes (Object_kind O_link) (link_json x)" by (rule link_conforms)
  qed (simp add: kind_of_def)
  have c: "entry_ok schemes O_response (''content'', entries_json (ref_or_json media_type_json) (rs_content r))"
    using assms by (intro content_ok [of _ _ at _ "key_at at' ''content''"]) (auto simp: kind_of_def response_blockers_def response_fields_def)
  have x: "\<forall>e\<in>set (rs_extensions r). entry_ok schemes O_response e"
    using assms(2) by (intro extensions_ok [of at']) (simp add: response_fields_def)
  show ?thesis unfolding response_json_def s t
    by (rule object_conforms) (auto simp: entry_simps h l c x member_def [of "''description''"])
qed

lemma entries_default:
  "(key, r) \<in> set (responses_entries rs) \<Longrightarrow> Option.bind (default_response rs) as_item = Some r \<or>
   (key, r) \<in> set (drop (if Option.bind (default_response rs) as_item \<noteq> None then 1 else 0) (responses_entries rs))"
  by (cases "Option.bind (default_response rs) as_item") (auto simp: responses_entries_def)

lemma responses_conforms:
  assumes "responses_blockers at rs = []" "clear (responses_fields at' rs)"
  shows "conforms schemes (Object_kind O_responses) (responses_json rs)"
proof -
  have entry: "conforms schemes (Object_kind O_response) (response_json r)" if e: "(key, r) \<in> set (responses_entries rs)" for key r
  proof -
    have "\<exists>at. response_blockers at r = []"
      using entries_default [OF e] assms(1) by (fastforce simp: responses_blockers_def Let_def)
    moreover have "clear (response_fields (key_at at' key) r)" using assms(2) e by (fastforce simp: responses_fields_def)
    ultimately show ?thesis using response_conforms by blast
  qed
  have "entry_ok schemes O_responses (''default'', ref_or_json response_json v)" if "default_response rs = Some v" for v
  proof (rule entry_okI)
    show "conforms schemes (Object_or_reference O_response) (ref_or_json response_json v)"
      using that by (intro conforms_ref_or entry [of "''default''"]) (auto simp: responses_entries_def)
  qed (simp add: kind_of_def)
  moreover have "entry_ok schemes O_responses (key, ref_or_json response_json v)" if "(key, v) \<in> set (keyed_responses rs)" for key v
  proof (rule entry_okI)
    show "conforms schemes (Object_or_reference O_response) (ref_or_json response_json v)"
      using that by (intro conforms_ref_or entry [of key]) (force simp: responses_entries_def set_filter_map)+
  qed (simp add: kind_of_def)
  moreover have "\<forall>e\<in>set (responses_extensions rs). entry_ok schemes O_responses e"
    using assms(2) by (intro extensions_ok [of at']) (simp add: responses_fields_def)
  ultimately show ?thesis unfolding responses_json_def
    by (intro object_conforms) (auto simp: ball_Un member_ok)
qed

section \<open>Lemmas: operations, callbacks, path items\<close>

lemma requirement_conforms:
  assumes "\<And>name scopes. (name, scopes) \<in> set r \<Longrightarrow> name \<in> set schemes \<or> \<not> names_a_scheme_by_uri name"
  shows "conforms schemes Requirement_kind (requirement_json r)"
proof -
  let ?ms = "map (\<lambda>(k, v). (k, json_strings v)) r"
  obtain held where h: "json_object ?ms = JObject held" "set held = {e. map_get ?ms (fst e) = Some (snd e)}"
    using json_object_set by blast
  have "fst e \<in> set schemes \<or> \<not> names_a_scheme_by_uri (fst e)" if "e \<in> set held" for e
    using map_get_member [of ?ms "fst e" "snd e"] that h(2) assms by fastforce
  then show ?thesis unfolding requirement_json_def entries_json_def h(1)
    by (subst conforms.simps) (simp add: list_all_iff case_prod_beta)
qed

lemma requirements_ok:
  assumes "kind_of ob n = Some (List_of Requirement_kind)" "clear (security_fields schemes at rs)"
  shows "entry_ok schemes ob (n, JArray (map requirement_json rs))"
proof (rule listed_ok [OF assms(1)])
  fix r assume "r \<in> set rs"
  then have "r \<in> snd ` set (enumerate 0 rs)" by (simp only: snd_enumerate)
  then obtain i where i: "(i, r) \<in> set (enumerate 0 rs)" by auto
  show "conforms schemes Requirement_kind (requirement_json r)"
  proof (rule requirement_conforms)
    fix name scopes assume "(name, scopes) \<in> set r"
    then have "clear (if name \<notin> set schemes \<and> names_a_scheme_by_uri name then [Scheme_uri (at_pointer (key_at (index_at at i) name))] else [])"
      using assms(2) i by (fastforce simp: security_fields_def)
    then show "name \<in> set schemes \<or> \<not> names_a_scheme_by_uri name" by (auto split: if_splits)
  qed
qed

lemma concat_map_concat: "concat (map f (concat xss)) = concat (map (\<lambda>xs. concat (map f xs)) xss)"
  by (induction xss) simp_all

lemma places_simps [simp]:
  "places_blockers [] = []" "places_blockers (p # ps) = place_blockers p @ places_blockers ps"
  "places_blockers (ps @ qs) = places_blockers ps @ places_blockers qs"
  "places_blockers (concat pss) = concat (map places_blockers pss)"
  "places_fields schemes [] = []" "places_fields schemes (p # ps) = place_fields schemes p @ places_fields schemes ps"
  "places_fields schemes (ps @ qs) = places_fields schemes ps @ places_fields schemes qs"
  "places_fields schemes (concat pss) = concat (map (places_fields schemes) pss)"
  by (simp_all add: places_blockers_def [abs_def] places_fields_def [abs_def] concat_map_concat)

definition ruled_out :: "string list \<Rightarrow> place list \<Rightarrow> bool" where
  "ruled_out schemes ps \<longleftrightarrow> places_blockers ps = [] \<and> clear (places_fields schemes ps)"

lemma ruled_out_simps:
  "ruled_out schemes []"
  "ruled_out schemes (p # ps) \<longleftrightarrow> (place_blockers p = [] \<and> clear (place_fields schemes p)) \<and> ruled_out schemes ps"
  "ruled_out schemes (ps @ qs) \<longleftrightarrow> ruled_out schemes ps \<and> ruled_out schemes qs"
  "ruled_out schemes (concat pss) \<longleftrightarrow> (\<forall>ps\<in>set pss. ruled_out schemes ps)"
  by (auto simp: ruled_out_def)

lemma operation_head_ok:
  assumes "place_blockers (At_operation at x (Operation h callbacks)) = []"
    "clear (place_fields schemes (At_operation at x (Operation h callbacks)))"
    "clear (servers_fields (key_at at ''servers'') (op_servers h))"
  shows "\<forall>e\<in>set (operation_head_members h). entry_ok schemes O_operation e"
proof -
  have d: "\<forall>e\<in>set (member ''externalDocs'' docs_json (op_external_docs h)). entry_ok schemes O_operation e"
    using assms(2) docs_conforms by (intro member_object_ok) (auto simp: kind_of_def)
  have p: "\<forall>e\<in>set (listed_member ''parameters'' (ref_or_json parameter_json) (op_parameters h)). entry_ok schemes O_operation e"
    using assms(1,2) by (intro parameters_ok [of _ at _ "key_at at ''parameters''"]) (simp_all add: kind_of_def)
  have "conforms schemes (Object_or_reference O_request_body) (ref_or_json request_body_json_value r)" if "op_request_body h = Some r" for r
    using assms(1,2) that by (intro conforms_ref_or request_body_conforms [of "key_at at ''requestBody''"]) auto
  then have b: "\<forall>e\<in>set (member ''requestBody'' (ref_or_json request_body_json_value) (op_request_body h)). entry_ok schemes O_operation e"
    by (auto simp: member_ok kind_of_def intro: entry_okI)
  have "conforms schemes (Object_kind O_responses) (responses_json (op_responses h))"
    using assms(1,2) by (intro responses_conforms [of "key_at at ''responses''" _ "key_at at ''responses''"]) simp_all
  then have r: "entry_ok schemes O_operation (''responses'', responses_json (op_responses h))"
    by (auto simp: kind_of_def intro: entry_okI)
  have q: "entry_ok schemes O_operation (''security'', JArray (map requirement_json rs))" if "op_security h = Some rs" for rs
    using assms(2) that by (intro requirements_ok [of _ _ _ "key_at at ''security''"]) (simp_all add: kind_of_def)
  have s: "\<forall>e\<in>set (listed_member ''servers'' server_json (op_servers h)). entry_ok schemes O_operation e"
    using assms(1,3) by (intro servers_ok [of _ at _ "key_at at ''servers''"]) (simp_all add: kind_of_def)
  have t: "entry_ok schemes O_operation (''tags'', JArray (map JString (op_tags h)))"
    by (rule listed_ok) (auto simp: kind_of_def conforms_leaf)
  show ?thesis unfolding operation_head_members_def
    by (simp add: ball_Un d p b s r, simp add: entry_simps t q)
qed

lemma path_item_head_ok:
  assumes "place_blockers (At_path_item at (Path_item h g p o' d s e a t q more') path) = []"
    "clear (place_fields schemes (At_path_item at (Path_item h g p o' d s e a t q more') path))"
  shows "q = None \<and> more' = [] \<and> (\<forall>e\<in>set (path_item_head_members h). entry_ok schemes O_path_item e) \<and>
    (\<forall>e\<in>set (pi_extensions h). entry_ok schemes O_path_item e)"
proof -
  have "\<forall>e\<in>set (listed_member ''servers'' server_json (pi_servers h)). entry_ok schemes O_path_item e"
    using assms by (intro servers_ok [of _ at _ "key_at at ''servers''"]) (simp_all add: kind_of_def)
  moreover have "\<forall>e\<in>set (listed_member ''parameters'' (ref_or_json parameter_json) (pi_parameters h)). entry_ok schemes O_path_item e"
    using assms by (intro parameters_ok [of _ at _ "key_at at ''parameters''"]) (simp_all add: kind_of_def)
  moreover have "\<forall>e\<in>set (pi_extensions h). entry_ok schemes O_path_item e"
    using assms(2) by (intro extensions_ok [of at]) simp
  moreover have "q = None \<and> more' = []" using assms(1) by (auto split: if_splits)
  ultimately show ?thesis unfolding path_item_head_members_def by (simp add: ball_Un, simp add: entry_simps)
qed

definition operation_good :: "string list \<Rightarrow> operation \<Rightarrow> bool" where
  "operation_good schemes p \<longleftrightarrow> (\<forall>at x. ruled_out schemes (walk_operation enter_all at x p) \<longrightarrow>
     conforms schemes (Object_kind O_operation) (operation_json p))"

definition callback_good :: "string list \<Rightarrow> callback \<Rightarrow> bool" where
  "callback_good schemes c \<longleftrightarrow> (\<forall>at. ruled_out schemes (visit_callback enter_all at c) \<longrightarrow>
     conforms schemes (Object_kind O_callback) (callback_json c))"

definition path_item_good :: "string list \<Rightarrow> path_item \<Rightarrow> bool" where
  "path_item_good schemes x \<longleftrightarrow> (\<forall>at path. ruled_out schemes (walk_path_item enter_all at x path) \<longrightarrow>
     conforms schemes (Object_kind O_path_item) (path_item_json x))"

lemma operation_step:
  assumes "\<And>name c. (name, Item c) \<in> set callbacks \<Longrightarrow> callback_good schemes c"
  shows "operation_good schemes (Operation h callbacks)"
  unfolding operation_good_def
proof (intro allI impI)
  fix at x assume w: "ruled_out schemes (walk_operation enter_all at x (Operation h callbacks))"
  have h: "\<forall>e\<in>set (operation_head_members h). entry_ok schemes O_operation e"
    using w by (intro operation_head_ok [of at x]) (simp_all add: ruled_out_simps walk_operation.simps)
  have "conforms schemes (Object_kind O_callback) (callback_json c)" if c: "(name, Item c) \<in> set callbacks" for name c
  proof -
    have "ruled_out schemes (visit_callback enter_all (key_at (key_at at ''callbacks'') name) c)"
      using w c by (force simp: ruled_out_simps walk_operation.simps)
    then show ?thesis using assms [OF c] unfolding callback_good_def by blast
  qed
  then have c: "entry_ok schemes O_operation (''callbacks'', entries_json (ref_or_json callback_json) callbacks)"
    by (intro items_ok) (simp_all add: kind_of_def)
  have x: "\<forall>e\<in>set (op_extensions h). entry_ok schemes O_operation e"
    using w by (intro extensions_ok [of at]) (simp add: ruled_out_simps walk_operation.simps)
  show "conforms schemes (Object_kind O_operation) (operation_json (Operation h callbacks))"
    unfolding operation_json.simps by (rule object_conforms) (simp_all add: ball_Un h c x)
qed

lemma callback_step:
  assumes "\<And>expression x. (expression, Item x) \<in> set entries' \<Longrightarrow> path_item_good schemes x"
  shows "callback_good schemes (Callback entries' exts)"
  unfolding callback_good_def
proof (intro allI impI)
  fix at assume w: "ruled_out schemes (visit_callback enter_all at (Callback entries' exts))"
  have "entry_ok schemes O_callback (expression, ref_or_json path_item_json v)" if v: "(expression, v) \<in> set entries'" for expression v
  proof (rule entry_okI)
    show "conforms schemes (Object_or_reference O_path_item) (ref_or_json path_item_json v)"
    proof (rule conforms_ref_or)
      fix x assume x: "v = Item x"
      have "ruled_out schemes (walk_path_item enter_all (key_at at expression) x None)"
        using w v x by (force simp: ruled_out_simps visit_callback.simps)
      then show "conforms schemes (Object_kind O_path_item) (path_item_json x)"
        using assms v x unfolding path_item_good_def by blast
    qed
  qed (simp add: kind_of_def)
  moreover have "\<forall>e\<in>set exts. entry_ok schemes O_callback e"
    using w by (intro extensions_ok [of at]) (simp add: ruled_out_simps visit_callback.simps)
  ultimately show "conforms schemes (Object_kind O_callback) (callback_json (Callback entries' exts))"
    unfolding callback_json.simps by (intro object_conforms) auto
qed

lemma path_item_step:
  assumes "\<And>m p. (m, p) \<in> set (path_operations x) \<Longrightarrow> operation_good schemes p"
  shows "path_item_good schemes x"
  unfolding path_item_good_def
proof (intro allI impI)
  fix at path assume w: "ruled_out schemes (walk_path_item enter_all at x path)"
  obtain h g p o' d s e a t q more' where x: "x = Path_item h g p o' d s e a t q more'" by (cases x)
  have h: "q = None \<and> more' = [] \<and> (\<forall>e\<in>set (path_item_head_members h). entry_ok schemes O_path_item e) \<and>
    (\<forall>e\<in>set (pi_extensions h). entry_ok schemes O_path_item e)"
    using w x by (intro path_item_head_ok [of at _ _ _ _ _ _ _ _ _ _ _ path]) (simp_all add: ruled_out_simps walk_path_item.simps)
  have p: "entry_ok schemes O_path_item (field_name m, operation_json v)" if "path_operation x m = Some v" for m v
  proof -
    have v: "(m, v) \<in> set (path_operations x)"
      using that by (cases m) (auto simp: path_operations_def all_methods_def split: option.splits)
    then have "ruled_out schemes (walk_operation enter_all (key_at at (field_name m)) x v)"
      using w by (force simp: ruled_out_simps walk_path_item.simps enter_all_def)
    then have "conforms schemes (Object_kind O_operation) (operation_json v)" using assms v unfolding operation_good_def by blast
    moreover have "m \<noteq> Query" using that h x by auto
    ultimately show ?thesis by (cases m) (auto simp: kind_of_def intro: entry_okI)
  qed
  have ops: "\<forall>e\<in>set (case path_operation x m of None \<Rightarrow> [] | Some v \<Rightarrow> [(field_name m, operation_json v)]). entry_ok schemes O_path_item e" for m
    using p [of m] by (cases "path_operation x m") auto
  note ops' = ops [of Get] ops [of Put] ops [of Post] ops [of Delete] ops [of Options] ops [of Head] ops [of Patch] ops [of Trace]
  note fields' = ops' [unfolded x path_operation.simps path_item.sel field_name.simps]
  have none: "q = None" "more' = []" using h by simp_all
  show "conforms schemes (Object_kind O_path_item) (path_item_json x)"
    unfolding x path_item_json.simps none option.case if_True append_Nil
  proof (rule object_conforms, unfold set_append ball_Un, intro conjI)
    show "\<forall>e\<in>set (path_item_head_members h). entry_ok schemes O_path_item e" using h by blast
    show "\<forall>e\<in>set (pi_extensions h). entry_ok schemes O_path_item e" using h by blast
  qed (rule fields' | simp)+
qed

lemma path_operations_held:
  assumes "(m, v) \<in> set (path_operations x)"
  shows "path_operation x m = Some v"
  using assms by (auto simp: path_operations_def set_filter_map)

lemma operations_good: "operation_good schemes p"
  and callbacks_good: "callback_good schemes c"
  and path_items_good: "path_item_good schemes x"
proof (induction p and c and x rule: operation_json_callback_json_path_item_json.induct)
  case (1 h callbacks)
  show ?case by (rule operation_step, rule 1(1)) force+
next
  case (2 entries' exts)
  show ?case by (rule callback_step, rule 2(1)) force+
next
  case (3 h g p o' d s e a t q more')
  show ?case
  proof (rule path_item_step)
    fix m v assume "(m, v) \<in> set (path_operations (Path_item h g p o' d s e a t q more'))"
    then have "path_operation (Path_item h g p o' d s e a t q more') m = Some v"
      by (rule path_operations_held)
    then show "operation_good schemes v"
      by (cases m; simp) (use 3 in \<open>(metis option.set_intros)+\<close>)
  qed
qed

section \<open>Lemmas: components and the document\<close>

lemma visit_good:
  assumes "ruled_out schemes (walk_path_item enter_all at x path)"
  shows "conforms schemes (Object_kind O_path_item) (path_item_json x)"
  using assms path_items_good [of schemes x] unfolding path_item_good_def by blast

lemma callback_conforms:
  assumes "ruled_out schemes (visit_callback enter_all at c)"
  shows "conforms schemes (Object_kind O_callback) (callback_json c)"
  using assms callbacks_good [of schemes c] unfolding callback_good_def by blast

lemma header_conforms:
  "header_blockers at x = [] \<Longrightarrow> clear (header_fields at' x) \<Longrightarrow> conforms schemes (Object_kind O_header) (header_json x)"
  using headers_good [of schemes x] unfolding header_good_def by blast

lemma inline_items_ok:
  assumes "kind_of ob n = Some (Map_of (Object_or_reference k))" "inline_items at ms blockers = []" "clear (inline_items at' ms found)"
    "\<And>at at' x. blockers at x = [] \<Longrightarrow> clear (found at' x) \<Longrightarrow> conforms schemes (Object_kind k) (f x)"
  shows "\<forall>e\<in>set (keyed_member n (ref_or_json f) ms). entry_ok schemes ob e"
  using items_ok [OF assms(1), of ms schemes f] inline_items_nil [OF assms(2)] inline_items_clear [OF assms(3)] assms(4)
  unfolding member_ok by blast

lemma component_callbacks_ok:
  assumes "inline_items at ms (\<lambda>at cb. places_blockers (visit_callback enter_all at cb)) = []"
    "clear (inline_items at ms (\<lambda>at cb. places_fields schemes (visit_callback enter_all at cb)))"
  shows "\<forall>e\<in>set (keyed_member ''callbacks'' (ref_or_json callback_json) ms). entry_ok schemes O_components e"
  unfolding member_ok
proof (intro impI items_ok)
  fix name x assume m: "(name, Item x) \<in> set ms"
  have "ruled_out schemes (visit_callback enter_all (key_at at name) x)"
    unfolding ruled_out_def using inline_items_nil [OF assms(1) m] inline_items_clear [OF assms(2) m] by blast
  then show "conforms schemes (Object_kind O_callback) (callback_json x)" by (rule callback_conforms)
qed (simp add: kind_of_def)

lemma path_items_ok:
  assumes "kind_of ob n = Some (Map_of (Object_kind O_path_item))"
    "\<And>name x. (name, x) \<in> set ms \<Longrightarrow> ruled_out schemes (visit_path_item enter_all (key_at at name) x)"
  shows "\<forall>e\<in>set (keyed_member n path_item_json ms). entry_ok schemes ob e"
  unfolding member_ok
proof (intro impI entries_ok [OF assms(1)])
  fix name x assume "(name, x) \<in> set ms"
  then show "conforms schemes (Object_kind O_path_item) (path_item_json x)"
    using visit_good assms(2) [unfolded visit_path_item_def] by blast
qed

lemma components_conforms:
  assumes "components_blockers at c = []" "clear (components_fields schemes at c)"
  shows "conforms schemes (Object_kind O_components) (components_json c)"
proof -
  note b = assms(1) [unfolded components_blockers_def append_is_Nil_conv]
  note f = assms(2) [unfolded components_fields_def clear_simps]
  have none: "co_media_types c = []" using b by (auto split: if_splits)
  have "conforms schemes Schema_kind (schema_json s)" if "(name, s) \<in> set (co_schemas c)" for name s
    by (rule conforms_schema [of "key_at (key_at at ''schemas'') name"]) (use b that in fastforce)
  then have s: "\<forall>e\<in>set (keyed_member ''schemas'' schema_json (co_schemas c)). entry_ok schemes O_components e"
    unfolding member_ok by (intro impI entries_ok) (simp_all add: kind_of_def)
  have r: "\<forall>e\<in>set (keyed_member ''responses'' (ref_or_json response_json) (co_responses c)). entry_ok schemes O_components e"
    by (rule inline_items_ok [where blockers = response_blockers and found = response_fields, OF _ _ _ response_conforms])
       (simp add: kind_of_def, use b in blast, use f in blast)
  have p: "\<forall>e\<in>set (keyed_member ''parameters'' (ref_or_json parameter_json) (co_parameters c)). entry_ok schemes O_components e"
    by (rule inline_items_ok [where blockers = parameter_blockers and found = parameter_fields, OF _ _ _ parameter_conforms])
       (simp add: kind_of_def, use b in blast, use f in blast)
  have ex: "\<forall>e\<in>set (keyed_member ''examples'' (ref_or_json example_json) (co_examples c)). entry_ok schemes O_components e"
    unfolding member_ok by (intro impI example_items_ok)
       (simp add: kind_of_def, use b in blast, use f in blast)
  have q: "\<forall>e\<in>set (keyed_member ''requestBodies'' (ref_or_json request_body_json_value) (co_request_bodies c)).
      entry_ok schemes O_components e"
    by (rule inline_items_ok [where blockers = "\<lambda>at b. content_blockers at (rb_content b)" and found = request_body_fields,
          OF _ _ _ request_body_conforms])
       (simp add: kind_of_def, use b in blast, use f in blast)
  have h: "\<forall>e\<in>set (keyed_member ''headers'' (ref_or_json header_json) (co_headers c)). entry_ok schemes O_components e"
    by (rule inline_items_ok [where blockers = header_blockers and found = header_fields, OF _ _ _ header_conforms])
       (simp add: kind_of_def, use b in blast, use f in blast)
  have sec: "\<forall>e\<in>set (keyed_member ''securitySchemes'' (ref_or_json security_scheme_json) (co_security_schemes c)).
      entry_ok schemes O_components e"
    by (rule inline_items_ok [where blockers = security_scheme_blockers and found = security_scheme_fields,
          OF _ _ _ security_scheme_conforms])
       (simp add: kind_of_def, use b in blast, use f in blast)
  have l: "\<forall>e\<in>set (keyed_member ''links'' (ref_or_json link_json) (co_links c)). entry_ok schemes O_components e"
    by (rule inline_items_ok [where blockers = link_blockers and found = link_fields, OF _ _ _ link_conforms])
       (simp add: kind_of_def, use b in blast, use f in blast)
  have cb: "\<forall>e\<in>set (keyed_member ''callbacks'' (ref_or_json callback_json) (co_callbacks c)). entry_ok schemes O_components e"
    by (rule component_callbacks_ok [of "key_at at ''callbacks''"]) (use b in blast, use f in blast)
  have pi: "\<forall>e\<in>set (keyed_member ''pathItems'' path_item_json (co_path_items c)). entry_ok schemes O_components e"
    by (rule path_items_ok [of _ _ _ _ "key_at at ''pathItems''"])
       (simp add: kind_of_def, unfold ruled_out_def, use b f in fastforce)
  have x: "\<forall>e\<in>set (co_extensions c). entry_ok schemes O_components e" using f by (intro extensions_ok [of at]) blast
  show ?thesis unfolding components_json_def none
    by (rule object_conforms) (simp_all add: ball_Un s r p ex q h sec l cb pi x keyed_member_def [of _ _ "[]"])
qed

lemma paths_conforms:
  assumes "ruled_out schemes (visit_routes enter_all d)" "clear (check_extensions at (paths_extensions (doc_paths d)))"
  shows "conforms schemes (Object_kind O_paths) (paths_json (doc_paths d))"
proof -
  have "\<forall>e\<in>set (map (\<lambda>(k, x). (k, path_item_json x)) (paths_items (doc_paths d))). entry_ok schemes O_paths e"
  proof clarify
    fix path v assume "(path, v) \<in> set (map (\<lambda>(k, x). (k, path_item_json x)) (paths_items (doc_paths d)))"
    then obtain x where x: "(path, x) \<in> set (paths_items (doc_paths d))" "v = path_item_json x" by auto
    have "ruled_out schemes (walk_path_item enter_all (key_at [Root_token, Key_token ''paths''] path) x (Some path))"
      using assms(1) x(1) by (fastforce simp: visit_routes_def ruled_out_simps)
    then show "entry_ok schemes O_paths (path, v)" unfolding x(2)
      by (intro entry_okI [OF _ visit_good]) (simp add: kind_of_def)
  qed
  moreover have "\<forall>e\<in>set (paths_extensions (doc_paths d)). entry_ok schemes O_paths e" by (rule extensions_ok [OF assms(2)])
  ultimately show ?thesis unfolding paths_json_def by (intro object_conforms) (simp_all only: set_append ball_Un, simp)
qed

lemma tags_ok:
  assumes "concat (map (\<lambda>(i, t). present_fields (index_at at i)
      [(''summary'', tag_summary t \<noteq> None), (''parent'', tag_parent t \<noteq> None), (''kind'', tag_kind t \<noteq> None)]) (enumerate 0 ts)) = []"
    "\<forall>fs\<in>set (map (\<lambda>(i, t). tag_fields (index_at at i) t) (enumerate 0 ts)). clear fs"
  shows "\<forall>e\<in>set (listed_member ''tags'' tag_json ts). entry_ok schemes O_document e"
proof -
  have "conforms schemes (Object_kind O_tag) (tag_json t)" if "t \<in> set ts" for t
  proof -
    have "t \<in> snd ` set (enumerate 0 ts)" using that by (simp only: snd_enumerate)
    then obtain j where j: "(j, t) \<in> set (enumerate 0 ts)" by auto
    have "present_fields (index_at at j)
        [(''summary'', tag_summary t \<noteq> None), (''parent'', tag_parent t \<noteq> None), (''kind'', tag_kind t \<noteq> None)] = []"
      using assms(1) j by fastforce
    moreover have "clear (tag_fields (index_at at j) t)" using assms(2) j by fastforce
    ultimately show ?thesis by (intro tag_conforms [of t "index_at at j"]) (simp_all add: present_fields_nil)
  qed
  then show ?thesis unfolding member_ok by (intro impI listed_ok) (simp_all add: kind_of_def)
qed

lemma document_conforms:
  assumes "three_two_fields d = []" "clear (document_fields d)"
  shows "conforms (map fst (co_security_schemes (doc_components d))) (Object_kind O_document) (document_json d)"
proof -
  let ?schemes = "map fst (co_security_schemes (doc_components d))"
  note b = assms(1) [unfolded three_two_fields_def append_is_Nil_conv]
  note f = assms(2) [unfolded document_fields_def Let_def clear_simps]
  have none: "doc_self_uri d = None" using b by (auto split: if_splits)
  have i: "entry_ok ?schemes O_document (''info'', info_json (doc_info d))"
    using f info_conforms by (auto simp: kind_of_def intro!: entry_okI)
  have s: "\<forall>e\<in>set (listed_member ''servers'' server_json (doc_servers d)). entry_ok ?schemes O_document e"
    by (rule servers_ok) (simp add: kind_of_def, use b in blast, use f in blast)
  have routes: "ruled_out ?schemes (visit_routes enter_all d)" unfolding ruled_out_def using b f by blast
  have "conforms ?schemes (Object_kind O_paths) (paths_json (doc_paths d))"
    by (rule paths_conforms [OF routes]) (use f in blast)
  then have p: "entry_ok ?schemes O_document (''paths'', paths_json (doc_paths d))"
    by (intro entry_okI) (simp_all add: kind_of_def)
  have w: "\<forall>e\<in>set (keyed_member ''webhooks'' path_item_json (doc_webhooks d)). entry_ok ?schemes O_document e"
    by (rule path_items_ok [of _ _ _ _ "[Root_token, Key_token ''webhooks'']"])
       (simp add: kind_of_def, use routes in \<open>fastforce simp: visit_routes_def ruled_out_simps\<close>)
  have "conforms ?schemes (Object_kind O_components) (components_json (doc_components d))"
    by (rule components_conforms [of "key_at [Root_token] ''components''"]) (use b in blast, use f in blast)
  then have c: "entry_ok ?schemes O_document (''components'', components_json (doc_components d))"
    by (intro entry_okI) (simp_all add: kind_of_def)
  have q: "\<forall>e\<in>set (listed_member ''security'' requirement_json (doc_security d)). entry_ok ?schemes O_document e"
    unfolding member_ok
    by (intro impI requirements_ok [of _ _ _ "key_at [Root_token] ''security''"]) (simp add: kind_of_def, use f in blast)
  have t: "\<forall>e\<in>set (listed_member ''tags'' tag_json (doc_tags d)). entry_ok ?schemes O_document e"
    by (rule tags_ok [of "key_at [Root_token] ''tags''"]) (use b in blast, use f in blast)
  have e: "\<forall>e\<in>set (member ''externalDocs'' docs_json (doc_external_docs d)). entry_ok ?schemes O_document e"
    by (rule member_object_ok) (simp add: kind_of_def, use f docs_conforms in auto)
  have x: "\<forall>e\<in>set (doc_extensions d). entry_ok ?schemes O_document e" using f by (intro extensions_ok [of "[Root_token]"]) blast
  have leaf: "\<forall>e\<in>set (member ''jsonSchemaDialect'' JString (doc_dialect d)). entry_ok ?schemes O_document e"
    by (simp add: entry_simps)
  show ?thesis unfolding document_json_def none
    by (rule object_conforms) (simp_all add: ball_Un i s p w c q t e x leaf text_ok kind_of_def)
qed

section \<open>Lemmas: what is reported\<close>

lemma reported_clear:
  assumes "three_two_only_constructs d = []"
  shows "three_two_fields d = []" "clear (document_fields d)"
proof -
  let ?o = "three_one_obstacles d" and ?u = "unrecognised_walk d"
  have n: "obstacle_fields ?o = []" "obstacle_responses ?o = []" "obstacle_scheme_uris ?o = []"
    using assms by (simp_all add: three_two_only_constructs_def Let_def)
  show "three_two_fields d = []" using n(1) by (simp add: three_one_obstacles_def Let_def)
  have u: "found_fields ?u = []" "media_type_refs ?u = []" "undescribed_responses ?u = []" "scheme_uris ?u = []"
    using n by (simp_all add: three_one_obstacles_def Let_def)
  show "clear (document_fields d)"
    unfolding clear_def
  proof
    fix f assume f: "f \<in> set (document_fields d)"
    show "case f of Reserved _ _ \<Rightarrow> True | _ \<Rightarrow> False"
    proof (cases f)
      case (Unrecognised h n)
      then have "(h, n) \<in> set (found_fields ?u)" using f by (force simp: unrecognised_walk_def Let_def set_filter_map)
      then show ?thesis using u by simp
    next
      case (Undescribed h)
      then have "h \<in> set (undescribed_responses ?u)" using f by (force simp: unrecognised_walk_def Let_def set_filter_map)
      then show ?thesis using u by simp
    next
      case (Scheme_uri h)
      then have "h \<in> set (scheme_uris ?u)" using f by (force simp: unrecognised_walk_def Let_def set_filter_map)
      then show ?thesis using u by simp
    next
      case (Media_type_ref h)
      then have "h \<in> set (media_type_refs ?u)" using f by (force simp: unrecognised_walk_def Let_def set_filter_map)
      then show ?thesis using u by simp
    qed simp
  qed
qed

lemma fields_version_free:
  "three_two_fields (d\<lparr>doc_openapi := v\<rparr>) = three_two_fields d" "document_fields (d\<lparr>doc_openapi := v\<rparr>) = document_fields d"
  by (simp_all add: three_two_fields_def document_fields_def visit_routes_def)

section \<open>Properties\<close>

text \<open>C40: A document \<open>emit\<close> gives out as OpenAPI 3.1 is the one it was given under that version's number, and what it
  serializes as is a 3.1 description: every object from the document down to its servers, examples, headers, links and
  callbacks holds only fields 3.1 has and every field it requires, every schema only keywords 3.1 gives an object, and
  every security requirement a name 3.1 admits.\<close>

theorem emitted_conforms:
  assumes "emit d V3_1 = Inr e"
  shows "conforms (map fst (co_security_schemes (doc_components e))) (Object_kind O_document) (document_json e) \<and>
    e = d\<lparr>doc_openapi := spec_version_str V3_1\<rparr>"
proof -
  have e: "three_two_only_constructs d = []" "e = d\<lparr>doc_openapi := spec_version_str V3_1\<rparr>"
    using assms by (auto simp: emit_def supports_3_2_def split: if_splits)
  show ?thesis using document_conforms [of e] reported_clear [OF e(1)] fields_version_free unfolding e(2) by metis
qed

lemma emitted_conforms_witness:
  "let served = operation_with_responses (operation_new ''list'') (responses_with_default responses_new (response_new ''The items.''));
       d = (document_with_server (document_new V3_2 (info_new ''Items'' ''1.0'')) (server_new ''/v1''))
         \<lparr>doc_paths := \<lparr>paths_items = [(''/items'', put_operation path_item_new Get served)], paths_extensions = []\<rparr>\<rparr>
   in emit d V3_1 = Inr (d\<lparr>doc_openapi := ''3.1.2''\<rparr>) \<and>
      conforms [] (Object_kind O_document) (document_json (d\<lparr>doc_openapi := ''3.1.2''\<rparr>))"
proof -
  let ?served = "operation_with_responses (operation_new ''list'') (responses_with_default responses_new (response_new ''The items.''))"
  let ?d = "(document_with_server (document_new V3_2 (info_new ''Items'' ''1.0'')) (server_new ''/v1''))
    \<lparr>doc_paths := \<lparr>paths_items = [(''/items'', put_operation path_item_new Get ?served)], paths_extensions = []\<rparr>\<rparr>"
  have "emit ?d V3_1 = Inr (?d\<lparr>doc_openapi := ''3.1.2''\<rparr>)" by code_simp
  then show ?thesis using emitted_conforms [of ?d "?d\<lparr>doc_openapi := ''3.1.2''\<rparr>"]
    by (simp add: Let_def document_with_server_def document_new_def components_new_def)
qed

end
