(* ===== verification/Spec2Isabelle.thy ===== *)
theory Spec2Isabelle
  imports Served Framing Rate_Limit Language Forwarded Json_Records Concurrency Endpoint_Uri Path_Template Cors Cache Guards Streams Response_Policy Downgrade_Conforms
begin

text \<open>
  Kynos is an HTTP framework in Rust. Its core crate (\<open>src/crates/kynos\<close>) runs a request through a
  route table, a chain of interceptors and the extractors of a handler, and turns what the handler
  returns into a response; the crate \<open>src/crates/kynos-openapi\<close> describes the same service. This
  development models the parts of both that compute: the readers and writers of header fields, the
  extractors' decisions, the interceptors' state, and the state machines that stream bodies.

  \<^bold>\<open>How the parts depend on each other.\<close> Every reader of a header field uses the byte checks and
  the quote-aware split of \<open>http/mod.rs\<close>. A conditional or range request is answered by
  \<open>response/range/served.rs\<close>, which calls entity tags, dates, the range reader, the byte source and
  the response-head writer in that order. A body reaches a handler through interceptors that cap,
  time and watch it, then the admission check of \<open>extract/body/mod.rs\<close> and one codec. Rate limits and
  the concurrency cap sit around that chain and keep state across requests.

  \<^bold>\<open>Theories.\<close> Paths are under \<open>src/crates/kynos/src/\<close> unless they name another crate.
  \<^item> \<open>Prelude\<close>: the standard library as the code uses it (bytes, splitting, trimming, decimal numbers,
    saturating arithmetic, \<open>max_by_key\<close>), and the locales \<open>codec\<close> and \<open>exact_codec\<close>, what an encoder and
    its decoder promise. \<open>Utf8\<close>: \<open>str::from_utf8\<close>, its lossy form, and the cutting of a text in two.
  \<^item> \<open>Http_Text\<close> (\<open>http/mod.rs\<close>), \<open>Http_Date\<close> (\<open>http/date.rs\<close>), \<open>Entity_Tag\<close> (\<open>http/etag.rs\<close>), \<open>Media\<close>
    (\<open>http/media.rs\<close>, \<open>http/accept_query.rs\<close>), \<open>Cookies\<close> (\<open>http/cookie.rs\<close>, \<open>response/cookie.rs\<close>),
    \<open>Negotiation\<close> (\<open>http/quality.rs\<close>, \<open>http/coding.rs\<close>, \<open>response/negotiate\<close>), \<open>Language\<close>
    (\<open>response/language\<close>), \<open>Forwarded\<close> (\<open>http/forwarded.rs\<close>): fields, one theory each.
  \<^item> \<open>Byte_Range\<close>, \<open>Byte_Source\<close>, \<open>Framing\<close>, \<open>Response_Head\<close>, \<open>Served\<close> (\<open>response/range\<close>, \<open>response/framing.rs\<close>,
    \<open>response/headers.rs\<close>, \<open>response/disposition.rs\<close>): what a range request is answered with. \<open>Byte_Source\<close>
    states a source as a locale and interprets it on the in-memory source.
  \<^item> \<open>Base64\<close>, \<open>Credentials\<close> (\<open>security/carrier\<close>): credentials; the base64 codec is an interpretation of
    \<open>exact_codec\<close>.
  \<^item> \<open>Rate_Limit\<close> (\<open>middleware/rate_limit\<close>), \<open>Concurrency\<close> (\<open>middleware/limits/concurrency.rs\<close>): limits that
    hold across requests. \<open>Concurrency\<close> is a step relation with a simulation by a counter.
  \<^item> \<open>Bodies\<close> (\<open>http/body\<close>, \<open>extract/body/limit.rs\<close>, \<open>middleware/limits\<close>), \<open>Body_Read\<close> (\<open>extract/body\<close>,
    \<open>schema/constraints.rs\<close>), \<open>Json_Records\<close> (\<open>extract/body/json_lines\<close>): bodies as poll state machines, the
    read, and the streamed records.
  \<^item> \<open>Endpoint_Uri\<close> (\<open>__private/uri.rs\<close>): percent-decoding checks and the rendering of a path.
  \<^item> \<open>Path_Template\<close> (\<open>src/crates/kynos-openapi/src/model/paths/template.rs\<close>, \<open>pointer.rs\<close>): the grammar of path
    templates and the JSON Pointers of reported locations.
  \<^item> \<open>Dispatch\<close> (\<open>router/dispatch.rs\<close>): methods, captures, the chain of interceptors, panic recovery, the route
    table and what a request no operation answers gets.
  \<^item> \<open>Cors\<close> (\<open>middleware/cors\<close>, \<open>router/install.rs\<close>): what a cross-origin response and a preflight say.
  \<^item> \<open>Cache\<close> (\<open>middleware/cache\<close>): freshness, variants and the interceptor, over the locale \<open>cache_store\<close>, what a
    store promises, with the histories a cache can have as an inductive relation.
  \<^item> \<open>Ip_Text\<close>, \<open>Guards\<close> (\<open>middleware/csrf.rs\<close>, \<open>trusted_hosts.rs\<close>): addresses as text, the cross-site check and
    the hosts a server answers for.
  \<^item> \<open>Streams\<close> (\<open>response/stream\<close>): event streams against a client that parses them as their format says, and
    streamed JSON against the reader of streamed JSON bodies.
  \<^item> \<open>Response_Policy\<close> (\<open>middleware/conditional\<close>, \<open>request_id.rs\<close>, \<open>security_headers.rs\<close>): the interceptors that
    decide on the response.
  \<^item> \<open>Schema_Model\<close> (\<open>src/crates/kynos-openapi/src/model/schema\<close>, \<open>emit/downgrade/walk.rs\<close>): schemas, their JSON and
    the search for what OpenAPI 3.1 cannot say in one.
  \<^item> \<open>Methods\<close>, \<open>Openapi_Model\<close>, \<open>Openapi_Json\<close> (\<open>src/crates/kynos-openapi/src/model\<close>): the objects of an OpenAPI
    document, what their readers refuse and the JSON they serialize as.
  \<^item> \<open>Openapi_Walk\<close>, \<open>Openapi_Unrecognised\<close> (\<open>visit.rs\<close>, \<open>emit/mod.rs\<close>, \<open>emit/downgrade\<close> of that crate): the walk
    over a document, what it reports as standing in the way of OpenAPI 3.1, and the emission. \<open>Downgrade\<close> states what
    OpenAPI 3.1 admits, field by field; \<open>Downgrade_Conforms\<close> shows that an emitted document is that.
  \<^bold>\<open>How the state and the operations correspond.\<close> A struct is a record with the struct's fields, an
  enum a datatype; a method that changes its receiver returns the changed record. A \<open>Result\<close> is a sum
  with the error on the left; an \<open>Option\<close> an option; a panic is \<open>None\<close> or an error of its own. A
  string is the list of its UTF-8 bytes. \<open>u64\<close> and \<open>usize\<close> are natural numbers with the saturation or the
  bound the code has written out; \<open>u8\<close> and address bits are words. A duration is a number of
  nanoseconds. A body polled by its consumer is a state with a poll operation; a body awaited frame by
  frame is the list of its frames; an asynchronous stream is the list of what each poll yields,
  \<open>Pending\<close> included.

  \<^bold>\<open>Parameters.\<close> Third-party code is an argument of the definitions that call it, with its documented
  behaviour as a named hypothesis: the header map (\<open>header_map\<close>, \<open>header_map_laws\<close>), the timer
  (\<open>timer_ops\<close>), the semaphore (\<open>semaphore\<close>), percent encoding (\<open>percent\<close>), serde's deserializer
  (\<open>json_ops\<close>), the stores and clocks an application supplies. Each has a concrete instance, with its
  laws proved, that the witnesses use.

  \<^bold>\<open>What the lemmas show.\<close> Per theory: well-formedness of what a parser returns and its preservation by
  every operation; the functional behaviour of each operation on every branch; round trips between
  writers and readers; then, under a claim number, the properties that span operations or components.

  \<^bold>\<open>Bounds and fuel.\<close> The search for a multipart boundary takes fuel, one more candidate than the
  bodies have octets, and \<open>boundary_found\<close> proves that enough. Every other loop is a total function with a
  termination proof. Limits are assumed below the largest \<open>u64\<close>, where the code's saturating counter
  cannot tell the limit from a longer body.

  \<^bold>\<open>Not modelled.\<close> The derive and route macros generate code at compile time over Rust syntax trees.
  The server crate parts (\<open>server/\<close>) are socket and connection I/O over hyper, tokio, rustls and quinn.
  Compression and decompression stream through flate2, brotli and zstd. Tracing, panics and the
  profiling crate observe and do not compute. Serialization of the OpenAPI document is serde's. The text
  of problem documents and the OpenAPI descriptions every component also contributes are left out of the
  components that are modelled.
\<close>

end
